(* ===== verification/Prelude.thy ===== *)
theory Prelude
  imports Complex_Main "HOL-Library.AList"
begin

text \<open>
  What every component of the development shares: the JavaScript values the TypeScript sources
  compute with, the fragments of the JavaScript standard library they call (truthiness, property
  access, \<open>JSON.stringify\<close>, \<open>String.prototype\<close> methods, decimal printing, \<open>Date\<close>
  formatting), a generic notion of reachable state with its invariant rule, and the collections
  of simplification rules the components extend.

  A JavaScript string is a HOL \<^typ>\<open>string\<close>: a list of code units, restricted to the code
  points U+0000 to U+00FF. A JavaScript number is a finite value (the exact rational a double
  denotes), an infinity or NaN; negative zero is identified with zero, which no operation modelled
  here can tell apart.
\<close>

named_theorems js_simps \<open>evaluation rules for JavaScript values\<close>
named_theorems handler_defs \<open>definitions of the request handlers\<close>
named_theorems env_simps \<open>unfolding of the witness environments\<close>

section \<open>JavaScript values\<close>

datatype js_number = Fin rat | PosInf | NegInf | NaN

datatype jsval =
    JUndefined
  | JNull
  | JBool bool
  | JNum js_number
  | JStr string
  | JArr "jsval list"
  | JObj "(string \<times> jsval) list"

datatype js_error =
    TypeError
  | SyntaxError
  | NetworkFailure
  | LibraryError string
  | ThrownError jsval

abbreviation jint :: "int \<Rightarrow> jsval" where
  "jint n \<equiv> JNum (Fin (of_int n))"

abbreviation jbool_field :: "string \<Rightarrow> bool \<Rightarrow> string \<times> jsval" where
  "jbool_field k b \<equiv> (k, JBool b)"

abbreviation jstr_field :: "string \<Rightarrow> string \<Rightarrow> string \<times> jsval" where
  "jstr_field k s \<equiv> (k, JStr s)"

text \<open>The language's notion of truth: \<open>undefined\<close>, \<open>null\<close>, \<open>false\<close>, \<open>0\<close>, \<open>NaN\<close> and
  the empty string are false, everything else is true.\<close>

fun js_truthy :: "jsval \<Rightarrow> bool" where
  "js_truthy JUndefined = False"
| "js_truthy JNull = False"
| "js_truthy (JBool b) = b"
| "js_truthy (JNum (Fin q)) = (q \<noteq> 0)"
| "js_truthy (JNum NaN) = False"
| "js_truthy (JNum _) = True"
| "js_truthy (JStr s) = (s \<noteq> [])"
| "js_truthy (JArr _) = True"
| "js_truthy (JObj _) = True"

definition js_nullish :: "jsval \<Rightarrow> bool" where
  "js_nullish v = (v = JUndefined \<or> v = JNull)"

text \<open>\<open>a || b\<close>.\<close>

definition js_or :: "jsval \<Rightarrow> jsval \<Rightarrow> jsval" where
  "js_or a b = (if js_truthy a then a else b)"

definition js_lookup :: "(string \<times> jsval) list \<Rightarrow> string \<Rightarrow> jsval" where
  "js_lookup ps k = (case map_of ps k of None \<Rightarrow> JUndefined | Some v \<Rightarrow> v)"

text \<open>Reading an own property \<open>v.k\<close>: a \<open>TypeError\<close> on \<open>undefined\<close> and \<open>null\<close>,
  \<open>undefined\<close> on a value without the property.\<close>

fun js_get :: "jsval \<Rightarrow> string \<Rightarrow> js_error + jsval" where
  "js_get JUndefined k = Inl TypeError"
| "js_get JNull k = Inl TypeError"
| "js_get (JObj ps) k = Inr (js_lookup ps k)"
| "js_get _ k = Inr JUndefined"

text \<open>Optional chaining \<open>v?.k\<close>.\<close>

fun js_opt_get :: "jsval \<Rightarrow> string \<Rightarrow> jsval" where
  "js_opt_get (JObj ps) k = js_lookup ps k"
| "js_opt_get _ k = JUndefined"

text \<open>\<open>{ ...v, k: w }\<close>.\<close>

fun js_spread_put :: "jsval \<Rightarrow> string \<Rightarrow> jsval \<Rightarrow> jsval" where
  "js_spread_put (JObj ps) k w = JObj (AList.update k w ps)"
| "js_spread_put _ k w = JObj [(k, w)]"

text \<open>
  What is left of a value after \<open>JSON.stringify\<close> on one side of a connection and
  \<open>JSON.parse\<close> on the other: properties that are \<open>undefined\<close> are dropped, an
  \<open>undefined\<close> array element and a number that is not finite become \<open>null\<close>.
\<close>

fun json_wire :: "jsval \<Rightarrow> jsval" where
  "json_wire (JNum (Fin q)) = JNum (Fin q)"
| "json_wire (JNum _) = JNull"
| "json_wire (JArr vs) = JArr (map (\<lambda>v. if v = JUndefined then JNull else json_wire v) vs)"
| "json_wire (JObj ps) =
     JObj (map (\<lambda>p. (fst p, json_wire (snd p))) (filter (\<lambda>p. snd p \<noteq> JUndefined) ps))"
| "json_wire v = v"

declare js_or_def [js_simps] js_lookup_def [js_simps] js_nullish_def [js_simps]

lemma js_get_Inr_iff: "(\<exists>w. js_get v k = Inr w) \<longleftrightarrow> \<not> js_nullish v"
  by (cases v) (auto simp: js_nullish_def)

lemma js_opt_get_of_get: "js_get v k = Inr w \<Longrightarrow> js_opt_get v k = w"
  by (cases v) auto

lemma json_wire_eq_undefined [simp]: "json_wire v = JUndefined \<longleftrightarrow> v = JUndefined"
  by (induction v rule: json_wire.induct) auto

lemma json_wire_idem: "json_wire (json_wire v) = json_wire v"
  by (induction v rule: json_wire.induct) (auto simp: filter_map comp_def)

lemma map_of_wire:
  "map_of (map (\<lambda>p. (fst p, json_wire (snd p))) ps) k = map_option json_wire (map_of ps k)"
  by (induction ps) auto

section \<open>Strings\<close>

text \<open>\<open>String.prototype.toLowerCase\<close> on the code points U+0000 to U+00FF.\<close>

definition char_lower :: "char \<Rightarrow> char" where
  "char_lower c =
     (let n = (of_char c :: nat)
      in if (65 \<le> n \<and> n \<le> 90) \<or> (192 \<le> n \<and> n \<le> 222 \<and> n \<noteq> 215)
         then char_of (n + 32) else c)"

definition to_lower :: "string \<Rightarrow> string" where
  "to_lower = map char_lower"

text \<open>\<open>s.startsWith(p)\<close>.\<close>

fun starts_with :: "string \<Rightarrow> string \<Rightarrow> bool" where
  "starts_with s [] = True"
| "starts_with [] (c # p) = False"
| "starts_with (d # s) (c # p) = (c = d \<and> starts_with s p)"

text \<open>\<open>s.split(c)\<close> for a one-character separator.\<close>

fun split_on :: "char \<Rightarrow> string \<Rightarrow> string list" where
  "split_on c [] = [[]]"
| "split_on c (d # s) =
     (if d = c then [] # split_on c s
      else (case split_on c s of [] \<Rightarrow> [[d]] | w # ws \<Rightarrow> (d # w) # ws))"

text \<open>\<open>xs.join(sep)\<close>.\<close>

fun join_with :: "string \<Rightarrow> string list \<Rightarrow> string" where
  "join_with sep [] = []"
| "join_with sep [x] = x"
| "join_with sep (x # y # ys) = x @ sep @ join_with sep (y # ys)"

lemma split_on_nonempty [simp]: "split_on c s \<noteq> []"
  by (induction s) (auto split: list.splits)

lemma join_split_on: "join_with [c] (split_on c s) = s"
proof (induction s)
  case Nil
  then show ?case by simp
next
  case (Cons d s)
  obtain w ws where ws: "split_on c s = w # ws"
    by (cases "split_on c s") auto
  with Cons show ?case
    by (cases ws) auto
qed

lemma starts_with_append [simp]: "starts_with (p @ s) p"
  by (induction p) auto

lemma starts_with_iff: "starts_with s p \<longleftrightarrow> (\<exists>r. s = p @ r)"
  by (induction s p rule: starts_with.induct) auto

lemma of_char_less [simp]: "of_char c < (256::nat)"
  using range_nat_of_char by auto

lemma char_lower_idem [simp]: "char_lower (char_lower c) = char_lower c"
  using of_char_less [of c] by (auto simp: char_lower_def Let_def simp del: of_char_less)

lemma to_lower_idem [simp]: "to_lower (to_lower s) = to_lower s"
  by (simp add: to_lower_def comp_def)

lemma length_to_lower [simp]: "length (to_lower s) = length s"
  by (simp add: to_lower_def)

section \<open>Decimal numerals\<close>

definition digit_char :: "nat \<Rightarrow> char" where
  "digit_char d = char_of (48 + d)"

fun show_nat :: "nat \<Rightarrow> string" where
  "show_nat n = (if n < 10 then [digit_char n] else show_nat (n div 10) @ [digit_char (n mod 10)])"

declare show_nat.simps [simp del]

definition show_int :: "int \<Rightarrow> string" where
  "show_int n = (if n < 0 then CHR ''-'' # show_nat (nat (- n)) else show_nat (nat n))"

definition pad_left :: "nat \<Rightarrow> string \<Rightarrow> string" where
  "pad_left w s = replicate (w - length s) (CHR ''0'') @ s"

lemma of_char_digit_char: "d < 10 \<Longrightarrow> of_char (digit_char d) = 48 + d"
  by (simp add: digit_char_def of_char_of)

lemma show_nat_nonempty [simp]: "show_nat n \<noteq> []"
  by (subst show_nat.simps) simp

section \<open>Dates\<close>

text \<open>
  \<open>Date.prototype.toISOString\<close> of a time value in milliseconds since the epoch, for the
  years 0 to 9999: the proleptic Gregorian date from the count of days, then the time of day.
\<close>

definition civil_from_days :: "int \<Rightarrow> int \<times> int \<times> int" where
  "civil_from_days days =
     (let z = days + 719468;
          era = z div 146097;
          doe = z mod 146097;
          yoe = (doe - doe div 1460 + doe div 36524 - doe div 146096) div 365;
          doy = doe - (365 * yoe + yoe div 4 - yoe div 100);
          mp = (5 * doy + 2) div 153;
          d = doy - (153 * mp + 2) div 5 + 1;
          m = (if mp < 10 then mp + 3 else mp - 9);
          y = yoe + era * 400 + (if m \<le> 2 then 1 else 0)
      in (y, m, d))"

definition iso_string :: "int \<Rightarrow> string" where
  "iso_string t =
     (let days = t div 86400000; ms = t mod 86400000;
          (y, m, d) = civil_from_days days;
          p = (\<lambda>w n. pad_left w (show_int n))
      in p 4 y @ ''-'' @ p 2 m @ ''-'' @ p 2 d @ ''T'' @
         p 2 (ms div 3600000) @ '':'' @ p 2 (ms div 60000 mod 60) @ '':'' @
         p 2 (ms div 1000 mod 60) @ ''.'' @ p 3 (ms mod 1000) @ ''Z'')"

section \<open>Reachable states\<close>

text \<open>The states a machine reaches from an initial one, and the rule that an invariant of the
  initial states kept by every step holds in all of them.\<close>

inductive reach :: "('s \<Rightarrow> bool) \<Rightarrow> ('s \<Rightarrow> 's \<Rightarrow> bool) \<Rightarrow> 's \<Rightarrow> bool"
  for init :: "'s \<Rightarrow> bool" and step :: "'s \<Rightarrow> 's \<Rightarrow> bool" where
  reach_init: "init s \<Longrightarrow> reach init step s"
| reach_step: "reach init step s \<Longrightarrow> step s t \<Longrightarrow> reach init step t"

lemma reach_invariant [consumes 1, case_names init step]:
  assumes "reach init step s"
    and "\<And>s. init s \<Longrightarrow> Q s"
    and "\<And>s t. reach init step s \<Longrightarrow> Q s \<Longrightarrow> step s t \<Longrightarrow> Q t"
  shows "Q s"
  using assms(1) by induction (auto intro: assms(2,3))

section \<open>Lists\<close>

lemma find_Some_iff_mem: "find Q xs = Some x \<Longrightarrow> x \<in> set xs \<and> Q x"
  by (auto simp: find_Some_iff)

lemma find_distinct:
  "distinct (map f xs) \<Longrightarrow> x \<in> set xs \<Longrightarrow> find (\<lambda>y. f y = f x) xs = Some x"
  by (induction xs) (auto simp: image_iff)

lemma find_snoc_new: "f x \<notin> f ` set xs \<Longrightarrow> find (\<lambda>y. f y = f x) (xs @ [x]) = Some x"
  by (induction xs) auto

lemma find_None_map: "find (\<lambda>y. f y = k) xs = None \<longleftrightarrow> k \<notin> f ` set xs"
  by (auto simp: find_None_iff)

text \<open>A string that is not among the given ones.\<close>

definition fresh_string :: "string list \<Rightarrow> string" where
  "fresh_string ss = replicate (Suc (foldr max (map length ss) 0)) (CHR ''u'')"

lemma length_le_foldr_max: "s \<in> set ss \<Longrightarrow> length s \<le> foldr max (map length ss) 0"
  by (induction ss) auto

lemma fresh_string: "fresh_string ss \<notin> set ss"
  using length_le_foldr_max [of "fresh_string ss" ss] by (auto simp: fresh_string_def)

lemma distinct_map_snoc:
  "distinct (map f (xs @ [x])) \<longleftrightarrow> distinct (map f xs) \<and> f x \<notin> f ` set xs"
  by auto

end
