(* ===== verification/Store.thy ===== *)
theory Store
  imports Prelude "HOL-Library.Multiset"
begin

text \<open>
  The database: the four tables of \<open>backend/prisma/schema.prisma\<close> as records, the Prisma
  client as a record of the operations the routes call, and the contract of that client as a
  locale over the tables. The client is a library, so its operations are a parameter of every
  handler; the locale \<open>prisma_client\<close> states what its documentation promises (unique
  constraints are enforced, a failed write changes nothing, a lookup by a unique key finds the row
  that has it), and \<open>prisma_available\<close> that no operation fails for want of a connection.
  An in-memory store built from the same schema interprets both.
\<close>

section \<open>The tables\<close>

record user =
  user_id :: string
  user_email :: string
  user_password :: string
  user_role :: string
  user_createdAt :: int
  user_updatedAt :: int

record newsletter =
  nl_id :: string
  nl_email :: string
  nl_createdAt :: int

record download =
  dl_id :: string
  dl_name :: string
  dl_version :: string
  dl_platform :: string
  dl_url :: string
  dl_checksum :: "string option"
  dl_createdAt :: int
  dl_updatedAt :: int

record contact =
  ct_id :: string
  ct_email :: string
  ct_subject :: string
  ct_message :: string
  ct_read :: bool
  ct_createdAt :: int

record tables =
  users :: "user list"
  newsletters :: "newsletter list"
  downloads :: "download list"
  contacts :: "contact list"

definition empty_tables :: tables where
  "empty_tables = \<lparr>users = [], newsletters = [], downloads = [], contacts = []\<rparr>"

text \<open>The constraints of the schema: \<open>@id\<close> and \<open>@unique\<close> columns.\<close>

definition tables_wf :: "tables \<Rightarrow> bool" where
  "tables_wf t \<longleftrightarrow>
     distinct (map user_id (users t)) \<and> distinct (map user_email (users t)) \<and>
     distinct (map nl_id (newsletters t)) \<and> distinct (map nl_email (newsletters t)) \<and>
     distinct (map dl_id (downloads t)) \<and> distinct (map ct_id (contacts t))"

lemma tables_wf_empty [simp]: "tables_wf empty_tables"
  by (simp add: tables_wf_def empty_tables_def)

section \<open>The client\<close>

text \<open>
  Each operation takes the arguments the routes pass, which are unvalidated JavaScript values
  where they come from a request body, and the database. An \<^term>\<open>Inl\<close> result is a rejected
  promise.
\<close>

record 'db prisma =
  user_findUnique_email :: "jsval \<Rightarrow> 'db \<Rightarrow> js_error + user option"
  user_findUnique_id :: "jsval \<Rightarrow> 'db \<Rightarrow> js_error + user option"
  user_create :: "jsval \<Rightarrow> string \<Rightarrow> 'db \<Rightarrow> (js_error + user) \<times> 'db"
  newsletter_findUnique :: "jsval \<Rightarrow> 'db \<Rightarrow> js_error + newsletter option"
  newsletter_create :: "jsval \<Rightarrow> 'db \<Rightarrow> (js_error + newsletter) \<times> 'db"
  contact_create :: "jsval \<Rightarrow> jsval \<Rightarrow> jsval \<Rightarrow> 'db \<Rightarrow> (js_error + contact) \<times> 'db"
  download_findMany :: "'db \<Rightarrow> js_error + download list"
  download_create ::
    "jsval \<Rightarrow> jsval \<Rightarrow> jsval \<Rightarrow> jsval \<Rightarrow> jsval \<Rightarrow> 'db \<Rightarrow> (js_error + download) \<times> 'db"
  download_delete :: "string \<Rightarrow> 'db \<Rightarrow> (js_error + download) \<times> 'db"

text \<open>An optional column: \<open>undefined\<close> and \<open>null\<close> leave it empty.\<close>

fun opt_column :: "jsval \<Rightarrow> (string option) option" where
  "opt_column JUndefined = Some None"
| "opt_column JNull = Some None"
| "opt_column (JStr s) = Some (Some s)"
| "opt_column _ = None"

section \<open>The contract\<close>

locale prisma_client =
  fixes P :: "'db prisma" and view :: "'db \<Rightarrow> tables"
  assumes user_find_email:
    "user_findUnique_email P v d = Inr r \<Longrightarrow>
       \<exists>e. v = JStr e \<and> r = find (\<lambda>u. user_email u = e) (users (view d))"
  and user_find_id:
    "user_findUnique_id P v d = Inr r \<Longrightarrow>
       \<exists>i. v = JStr i \<and> r = find (\<lambda>u. user_id u = i) (users (view d))"
  and user_create_Inr:
    "user_create P v h d = (Inr u, d') \<Longrightarrow>
       v = JStr (user_email u) \<and> user_password u = h \<and> user_role u = ''USER'' \<and>
       user_email u \<notin> user_email ` set (users (view d)) \<and>
       user_id u \<notin> user_id ` set (users (view d)) \<and>
       view d' = (view d)\<lparr>users := users (view d) @ [u]\<rparr>"
  and user_create_Inl: "user_create P v h d = (Inl x, d') \<Longrightarrow> view d' = view d"
  and newsletter_find:
    "newsletter_findUnique P v d = Inr r' \<Longrightarrow>
       \<exists>e. v = JStr e \<and> r' = find (\<lambda>n. nl_email n = e) (newsletters (view d))"
  and newsletter_create_Inr:
    "newsletter_create P v d = (Inr n, d') \<Longrightarrow>
       v = JStr (nl_email n) \<and> nl_email n \<notin> nl_email ` set (newsletters (view d)) \<and>
       nl_id n \<notin> nl_id ` set (newsletters (view d)) \<and>
       view d' = (view d)\<lparr>newsletters := newsletters (view d) @ [n]\<rparr>"
  and newsletter_create_Inl: "newsletter_create P v d = (Inl x, d') \<Longrightarrow> view d' = view d"
  and contact_create_Inr:
    "contact_create P ve vs vm d = (Inr c, d') \<Longrightarrow>
       ve = JStr (ct_email c) \<and> vs = JStr (ct_subject c) \<and> vm = JStr (ct_message c) \<and>
       \<not> ct_read c \<and> ct_id c \<notin> ct_id ` set (contacts (view d)) \<and>
       view d' = (view d)\<lparr>contacts := contacts (view d) @ [c]\<rparr>"
  and contact_create_Inl: "contact_create P ve vs vm d = (Inl x, d') \<Longrightarrow> view d' = view d"
  and download_findMany:
    "download_findMany P d = Inr ds \<Longrightarrow>
       mset ds = mset (downloads (view d)) \<and>
       sorted_wrt (\<lambda>a b. dl_createdAt b \<le> dl_createdAt a) ds"
  and download_create_Inr:
    "download_create P vn vv vp vu vc d = (Inr dl, d') \<Longrightarrow>
       vn = JStr (dl_name dl) \<and> vv = JStr (dl_version dl) \<and> vp = JStr (dl_platform dl) \<and>
       vu = JStr (dl_url dl) \<and> opt_column vc = Some (dl_checksum dl) \<and>
       dl_id dl \<notin> dl_id ` set (downloads (view d)) \<and>
       view d' = (view d)\<lparr>downloads := downloads (view d) @ [dl]\<rparr>"
  and download_create_Inl:
    "download_create P vn vv vp vu vc d = (Inl x, d') \<Longrightarrow> view d' = view d"
  and download_delete_Inr:
    "download_delete P i d = (Inr dl, d') \<Longrightarrow>
       dl \<in> set (downloads (view d)) \<and> dl_id dl = i \<and>
       view d' = (view d)\<lparr>downloads := filter (\<lambda>x. dl_id x \<noteq> i) (downloads (view d))\<rparr>"
  and download_delete_Inl: "download_delete P i d = (Inl x, d') \<Longrightarrow> view d' = view d"

locale prisma_available = prisma_client +
  assumes user_find_email_total: "\<exists>r. user_findUnique_email P (JStr e) d = Inr r"
  and user_find_id_total: "\<exists>r. user_findUnique_id P (JStr e) d = Inr r"
  and user_create_total:
    "e \<notin> user_email ` set (users (view d)) \<Longrightarrow> \<exists>u d'. user_create P (JStr e) h d = (Inr u, d')"
  and newsletter_find_total: "\<exists>r'. newsletter_findUnique P (JStr e) d = Inr r'"
  and newsletter_create_total:
    "e \<notin> nl_email ` set (newsletters (view d)) \<Longrightarrow>
       \<exists>n d'. newsletter_create P (JStr e) d = (Inr n, d')"
  and contact_create_total:
    "\<exists>c d'. contact_create P (JStr e) (JStr s) (JStr m) d = (Inr c, d')"
  and download_findMany_total: "\<exists>ds. download_findMany P d = Inr ds"
  and download_create_total:
    "opt_column vc \<noteq> None \<Longrightarrow>
       \<exists>dl d'. download_create P (JStr n) (JStr v) (JStr p) (JStr u) vc d = (Inr dl, d')"
  and download_delete_total:
    "i \<in> dl_id ` set (downloads (view d)) \<Longrightarrow> \<exists>dl d'. download_delete P i d = (Inr dl, d')"

context prisma_client
begin

text \<open>Every write of the client keeps the constraints of the schema.\<close>

lemma user_create_wf:
  "user_create P v h d = (r, d') \<Longrightarrow> tables_wf (view d) \<Longrightarrow> tables_wf (view d')"
  by (cases r) (auto simp: tables_wf_def dest!: user_create_Inr user_create_Inl)

lemma newsletter_create_wf:
  "newsletter_create P v d = (r, d') \<Longrightarrow> tables_wf (view d) \<Longrightarrow> tables_wf (view d')"
  by (cases r) (auto simp: tables_wf_def dest!: newsletter_create_Inr newsletter_create_Inl)

lemma contact_create_wf:
  "contact_create P ve vs vm d = (r, d') \<Longrightarrow> tables_wf (view d) \<Longrightarrow> tables_wf (view d')"
  by (cases r) (auto simp: tables_wf_def dest!: contact_create_Inr contact_create_Inl)

lemma download_create_wf:
  "download_create P vn vv vp vu vc d = (r, d') \<Longrightarrow> tables_wf (view d) \<Longrightarrow> tables_wf (view d')"
  by (cases r) (auto simp: tables_wf_def dest!: download_create_Inr download_create_Inl)

lemma download_delete_wf:
  "download_delete P i d = (r, d') \<Longrightarrow> tables_wf (view d) \<Longrightarrow> tables_wf (view d')"
  by (cases r)
    (auto simp: tables_wf_def distinct_map_filter dest!: download_delete_Inr download_delete_Inl)

text \<open>A lookup finds the row a create has stored.\<close>

lemma user_found_after_create:
  assumes "user_create P v h d = (Inr u, d')"
    and "user_findUnique_email P (JStr (user_email u)) d' = Inr r"
  shows "r = Some u"
proof -
  from user_create_Inr [OF assms(1)]
  have new: "user_email u \<notin> user_email ` set (users (view d))"
    and view: "users (view d') = users (view d) @ [u]" by auto
  from user_find_email [OF assms(2)]
  have "r = find (\<lambda>x. user_email x = user_email u) (users (view d) @ [u])"
    using view by simp
  with new show ?thesis by (simp add: find_snoc_new)
qed

end

section \<open>An in-memory store for the schema\<close>

text \<open>
  The tables themselves with a clock for \<open>@default(now())\<close>; identifiers
  (\<open>@default(uuid())\<close>) are strings no row of the table has yet.
\<close>

record mem =
  mem_tables :: tables
  mem_clock :: int

definition mem_unique_error :: js_error where
  "mem_unique_error = LibraryError ''P2002''"

definition mem_missing_error :: js_error where
  "mem_missing_error = LibraryError ''P2025''"

definition mem_argument_error :: js_error where
  "mem_argument_error = LibraryError ''PrismaClientValidationError''"

definition mem_user_by :: "(user \<Rightarrow> string) \<Rightarrow> jsval \<Rightarrow> mem \<Rightarrow> js_error + user option" where
  "mem_user_by f v m =
     (case v of JStr k \<Rightarrow> Inr (find (\<lambda>u. f u = k) (users (mem_tables m)))
      | _ \<Rightarrow> Inl mem_argument_error)"

definition mem_user_create :: "jsval \<Rightarrow> string \<Rightarrow> mem \<Rightarrow> (js_error + user) \<times> mem" where
  "mem_user_create v h m =
     (case v of
        JStr e \<Rightarrow>
          (let t = mem_tables m;
               u = \<lparr>user_id = fresh_string (map user_id (users t)), user_email = e,
                    user_password = h, user_role = ''USER'',
                    user_createdAt = mem_clock m, user_updatedAt = mem_clock m\<rparr>
           in if e \<in> user_email ` set (users t) then (Inl mem_unique_error, m)
              else (Inr u, m\<lparr>mem_tables := t\<lparr>users := users t @ [u]\<rparr>\<rparr>))
      | _ \<Rightarrow> (Inl mem_argument_error, m))"

definition mem_newsletter_find :: "jsval \<Rightarrow> mem \<Rightarrow> js_error + newsletter option" where
  "mem_newsletter_find v m =
     (case v of JStr k \<Rightarrow> Inr (find (\<lambda>n. nl_email n = k) (newsletters (mem_tables m)))
      | _ \<Rightarrow> Inl mem_argument_error)"

definition mem_newsletter_create :: "jsval \<Rightarrow> mem \<Rightarrow> (js_error + newsletter) \<times> mem" where
  "mem_newsletter_create v m =
     (case v of
        JStr e \<Rightarrow>
          (let t = mem_tables m;
               n = \<lparr>nl_id = fresh_string (map nl_id (newsletters t)), nl_email = e,
                    nl_createdAt = mem_clock m\<rparr>
           in if e \<in> nl_email ` set (newsletters t) then (Inl mem_unique_error, m)
              else (Inr n, m\<lparr>mem_tables := t\<lparr>newsletters := newsletters t @ [n]\<rparr>\<rparr>))
      | _ \<Rightarrow> (Inl mem_argument_error, m))"

definition mem_contact_create ::
  "jsval \<Rightarrow> jsval \<Rightarrow> jsval \<Rightarrow> mem \<Rightarrow> (js_error + contact) \<times> mem" where
  "mem_contact_create ve vs vm m =
     (case (ve, vs, vm) of
        (JStr e, JStr s, JStr x) \<Rightarrow>
          (let t = mem_tables m;
               c = \<lparr>ct_id = fresh_string (map ct_id (contacts t)), ct_email = e, ct_subject = s,
                    ct_message = x, ct_read = False, ct_createdAt = mem_clock m\<rparr>
           in (Inr c, m\<lparr>mem_tables := t\<lparr>contacts := contacts t @ [c]\<rparr>\<rparr>))
      | _ \<Rightarrow> (Inl mem_argument_error, m))"

definition mem_download_list :: "mem \<Rightarrow> js_error + download list" where
  "mem_download_list m = Inr (sort_key (\<lambda>d. - dl_createdAt d) (downloads (mem_tables m)))"

definition mem_download_create ::
  "jsval \<Rightarrow> jsval \<Rightarrow> jsval \<Rightarrow> jsval \<Rightarrow> jsval \<Rightarrow> mem \<Rightarrow> (js_error + download) \<times> mem" where
  "mem_download_create vn vv vp vu vc m =
     (case (vn, vv, vp, vu, opt_column vc) of
        (JStr n, JStr v, JStr p, JStr u, Some c) \<Rightarrow>
          (let t = mem_tables m;
               d = \<lparr>dl_id = fresh_string (map dl_id (downloads t)), dl_name = n, dl_version = v,
                    dl_platform = p, dl_url = u, dl_checksum = c,
                    dl_createdAt = mem_clock m, dl_updatedAt = mem_clock m\<rparr>
           in (Inr d, m\<lparr>mem_tables := t\<lparr>downloads := downloads t @ [d]\<rparr>\<rparr>))
      | _ \<Rightarrow> (Inl mem_argument_error, m))"

definition mem_download_delete :: "string \<Rightarrow> mem \<Rightarrow> (js_error + download) \<times> mem" where
  "mem_download_delete i m =
     (let t = mem_tables m
      in case find (\<lambda>d. dl_id d = i) (downloads t) of
           None \<Rightarrow> (Inl mem_missing_error, m)
         | Some d \<Rightarrow>
             (Inr d, m\<lparr>mem_tables := t\<lparr>downloads := filter (\<lambda>x. dl_id x \<noteq> i) (downloads t)\<rparr>\<rparr>))"

definition mem_prisma :: "mem prisma" where
  "mem_prisma =
     \<lparr>user_findUnique_email = mem_user_by user_email,
      user_findUnique_id = mem_user_by user_id,
      user_create = mem_user_create,
      newsletter_findUnique = mem_newsletter_find,
      newsletter_create = mem_newsletter_create,
      contact_create = mem_contact_create,
      download_findMany = mem_download_list,
      download_create = mem_download_create,
      download_delete = mem_download_delete\<rparr>"

lemmas mem_defs =
  mem_prisma_def mem_user_by_def mem_user_create_def mem_newsletter_find_def
  mem_newsletter_create_def mem_contact_create_def mem_download_list_def
  mem_download_create_def mem_download_delete_def

declare mem_defs [env_simps] empty_tables_def [env_simps]

lemma sorted_wrt_sort_key_desc:
  "sorted_wrt (\<lambda>a b. (f b :: int) \<le> f a) (sort_key (\<lambda>d. - f d) xs)"
proof -
  have "sorted (map (\<lambda>d. - f d) (sort_key (\<lambda>d. - f d) xs))" by (rule sorted_sort_key)
  then show ?thesis by (simp add: sorted_map)
qed

lemma fresh_string_elem: "x \<in> set xs \<Longrightarrow> fresh_string (map f xs) \<noteq> f x"
  using fresh_string [of "map f xs"] by auto

interpretation mem: prisma_available mem_prisma mem_tables
proof (unfold_locales, goal_cases)
  case (13 i d dl d')
  then show ?case
    by (auto simp: mem_defs Let_def find_Some_iff split: option.splits)
next
  case (23 i d)
  then show ?case
    by (auto simp: mem_defs Let_def find_None_iff split: option.splits)
qed (auto simp: mem_defs Let_def fresh_string_elem sorted_wrt_sort_key_desc
       split: jsval.splits option.splits if_splits)

end
