(* ===== verification/Http.thy ===== *)
theory Http
  imports Prelude
begin

text \<open>
  Requests and responses as the Express handlers of \<open>backend/src\<close> see them, and the three
  ways a middleware ends: it calls \<open>next()\<close> with the (possibly extended) request, it sends a
  response, or it calls \<open>next(error)\<close>.
\<close>

datatype http_method = GET | POST | PUT | DELETE | OPTIONS | HEAD | PATCH

text \<open>The fields of a request the handlers read: \<open>req_raw\<close> is the body as it came in and
  \<open>req_body\<close> what the body parsers make of it; \<open>req_userId\<close> and \<open>req_userRole\<close> are the two
  optional fields \<open>AuthRequest\<close> adds (\<open>middleware/auth.ts\<close>).\<close>

record request =
  req_method :: http_method
  req_path :: string
  req_ip :: string
  req_authorization :: "string option"
  req_raw :: string
  req_body :: jsval
  req_params :: "(string \<times> string) list"
  req_userId :: jsval
  req_userRole :: jsval

record response =
  resp_status :: nat
  resp_body :: jsval

datatype 'a mw = Next 'a | Done response | Fail js_error

text \<open>\<open>res.status(n).json(v)\<close>.\<close>

definition res_json :: "nat \<Rightarrow> jsval \<Rightarrow> response" where
  "res_json n v = \<lparr>resp_status = n, resp_body = json_wire v\<rparr>"

definition res_error :: "nat \<Rightarrow> string \<Rightarrow> response" where
  "res_error n msg = res_json n (JObj [jstr_field ''error'' msg])"

definition res_message :: "nat \<Rightarrow> string \<Rightarrow> response" where
  "res_message n msg = res_json n (JObj [jstr_field ''message'' msg])"

abbreviation internal_error :: response where
  "internal_error \<equiv> res_error 500 ''Internal server error''"

text \<open>The middlewares of a route run in the order they are listed, each on the request the one
  before has passed on; the first that does not call \<open>next()\<close> ends the chain.\<close>

fun chain :: "(request \<Rightarrow> request mw) list \<Rightarrow> request \<Rightarrow> request mw" where
  "chain [] req = Next req"
| "chain (m # ms) req =
     (case m req of Next req' \<Rightarrow> chain ms req' | Done r \<Rightarrow> Done r | Fail e \<Rightarrow> Fail e)"

text \<open>A route: its middlewares, then its handler on the request they let through, with the state
  the handler works on. An error passed to \<open>next\<close> leaves the route as \<^term>\<open>Inl\<close>.\<close>

definition run_route ::
  "(request \<Rightarrow> request mw) list \<Rightarrow> (request \<Rightarrow> 's \<Rightarrow> response \<times> 's) \<Rightarrow> request \<Rightarrow> 's \<Rightarrow>
     (js_error + response) \<times> 's" where
  "run_route ms h req s =
     (case chain ms req of
        Next r \<Rightarrow> (let (resp, s') = h r s in (Inr resp, s'))
      | Done resp \<Rightarrow> (Inr resp, s)
      | Fail e \<Rightarrow> (Inl e, s))"

text \<open>A handler that only reads the state.\<close>

definition reading :: "(request \<Rightarrow> 's \<Rightarrow> response) \<Rightarrow> request \<Rightarrow> 's \<Rightarrow> response \<times> 's" where
  "reading h req s = (h req s, s)"

lemma run_route_reading [simp]: "snd (run_route ms (reading h) req s) = s"
  by (simp add: run_route_def reading_def split: mw.splits)

lemma resp_status_res_json [simp]: "resp_status (res_json n v) = n"
  by (simp add: res_json_def)

lemma resp_body_res_json [simp]: "resp_body (res_json n v) = json_wire v"
  by (simp add: res_json_def)

lemma resp_status_res_error [simp]: "resp_status (res_error n msg) = n"
  by (simp add: res_error_def)

lemma resp_status_res_message [simp]: "resp_status (res_message n msg) = n"
  by (simp add: res_message_def)

lemma resp_body_res_error [simp]: "resp_body (res_error n msg) = JObj [jstr_field ''error'' msg]"
  by (simp add: res_error_def)

lemma resp_body_res_message [simp]:
  "resp_body (res_message n msg) = JObj [jstr_field ''message'' msg]"
  by (simp add: res_message_def)

lemma chain_Next_iff:
  "chain (m # ms) req = Next r \<longleftrightarrow> (\<exists>req'. m req = Next req' \<and> chain ms req' = Next r)"
  by (auto split: mw.splits)

end
