(* ===== verification/Validation.thy ===== *)
theory Validation
  imports Http
begin

text \<open>
  \<open>backend/src/middleware/validate.ts\<close>: the Zod schemas of the request bodies as terms of the
  schema language they are written in, and the middleware that runs one. Zod's own \<open>parse\<close> is a
  parameter; \<open>zod_conforms\<close> says that it accepts exactly the values the documentation of the
  schema combinators describes (\<open>zod_accepts\<close>), with the two textual formats it checks
  (\<open>email\<close>, \<open>url\<close>) left open.
\<close>

section \<open>The schema language\<close>

datatype check = CEmail string | CMin nat "string option" | CMax nat | CUrl

datatype schema =
    ZString "check list"
  | ZEnum "string list"
  | ZAny
  | ZArray schema
  | ZOptional schema
  | ZDefault schema jsval
  | ZObject "(string \<times> schema) list"

datatype path_segment = PKey string | PIndex nat

record issue =
  issue_path :: "path_segment list"
  issue_message :: string

datatype zod_result = Parsed jsval | ZodError "issue list" | ZodThrow js_error

section \<open>The schemas\<close>

definition schemas_register :: schema where
  "schemas_register = ZObject
     [(''email'', ZString [CEmail ''Invalid email format'']),
      (''password'', ZString [CMin 8 (Some ''Password must be at least 8 characters'')])]"

definition schemas_login :: schema where
  "schemas_login = ZObject
     [(''email'', ZString [CEmail ''Invalid email format'']),
      (''password'', ZString [CMin 1 (Some ''Password is required'')])]"

definition schemas_newsletter :: schema where
  "schemas_newsletter = ZObject [(''email'', ZString [CEmail ''Invalid email format''])]"

definition schemas_contact :: schema where
  "schemas_contact = ZObject
     [(''email'', ZString [CEmail ''Invalid email format'']),
      (''subject'', ZString [CMin 1 (Some ''Subject is required''), CMax 200]),
      (''message'', ZString [CMin 10 (Some ''Message must be at least 10 characters''), CMax 5000])]"

definition schemas_download :: schema where
  "schemas_download = ZObject
     [(''name'', ZString [CMin 1 None]),
      (''version'', ZString [CMin 1 None]),
      (''platform'', ZEnum [''windows'', ''macos'', ''linux'']),
      (''url'', ZString [CUrl]),
      (''checksum'', ZOptional (ZString []))]"

definition schemas_rpc :: schema where
  "schemas_rpc = ZObject
     [(''method'', ZString [CMin 1 None]),
      (''params'', ZDefault (ZOptional (ZArray ZAny)) (JArr []))]"

lemmas schemas_defs =
  schemas_register_def schemas_login_def schemas_newsletter_def schemas_contact_def
  schemas_download_def schemas_rpc_def

section \<open>The middleware\<close>

fun show_segment :: "path_segment \<Rightarrow> string" where
  "show_segment (PKey k) = k"
| "show_segment (PIndex i) = show_nat i"

definition issue_detail :: "issue \<Rightarrow> jsval" where
  "issue_detail i = JObj
     [jstr_field ''field'' (join_with ''.'' (map show_segment (issue_path i))),
      jstr_field ''message'' (issue_message i)]"

definition validation_failed :: "issue list \<Rightarrow> response" where
  "validation_failed is = res_json 400 (JObj
     [jstr_field ''error'' ''Validation failed'', (''details'', JArr (map issue_detail is))])"

text \<open>The body the handler sees is the one that came in: the parsed value, which has Zod's
  defaults filled in and unknown keys stripped, is dropped.\<close>

definition validate :: "(schema \<Rightarrow> jsval \<Rightarrow> zod_result) \<Rightarrow> schema \<Rightarrow> request \<Rightarrow> request mw" where
  "validate zod_parse schema req =
     (case zod_parse schema (req_body req) of
        Parsed _ \<Rightarrow> Next req
      | ZodError is \<Rightarrow> Done (validation_failed is)
      | ZodThrow e \<Rightarrow> Fail e)"

section \<open>What Zod documents\<close>

fun check_accepts :: "(string \<Rightarrow> bool) \<Rightarrow> (string \<Rightarrow> bool) \<Rightarrow> check \<Rightarrow> string \<Rightarrow> bool" where
  "check_accepts is_email is_url (CEmail _) s = is_email s"
| "check_accepts is_email is_url (CMin n _) s = (n \<le> length s)"
| "check_accepts is_email is_url (CMax n) s = (length s \<le> n)"
| "check_accepts is_email is_url CUrl s = is_url s"

fun zod_accepts :: "(string \<Rightarrow> bool) \<Rightarrow> (string \<Rightarrow> bool) \<Rightarrow> schema \<Rightarrow> jsval \<Rightarrow> bool" where
  "zod_accepts em ur (ZString cs) v =
     (case v of JStr s \<Rightarrow> (\<forall>c \<in> set cs. check_accepts em ur c s) | _ \<Rightarrow> False)"
| "zod_accepts em ur (ZEnum es) v = (case v of JStr s \<Rightarrow> s \<in> set es | _ \<Rightarrow> False)"
| "zod_accepts em ur ZAny v = True"
| "zod_accepts em ur (ZArray sc) v =
     (case v of JArr vs \<Rightarrow> (\<forall>w \<in> set vs. zod_accepts em ur sc w) | _ \<Rightarrow> False)"
| "zod_accepts em ur (ZOptional sc) v = (v = JUndefined \<or> zod_accepts em ur sc v)"
| "zod_accepts em ur (ZDefault sc d) v = (v = JUndefined \<or> zod_accepts em ur sc v)"
| "zod_accepts em ur (ZObject fs) v =
     (case v of JObj ps \<Rightarrow> (\<forall>f \<in> set fs. zod_accepts em ur (snd f) (js_lookup ps (fst f)))
      | _ \<Rightarrow> False)"

definition zod_conforms ::
  "(schema \<Rightarrow> jsval \<Rightarrow> zod_result) \<Rightarrow> (string \<Rightarrow> bool) \<Rightarrow> (string \<Rightarrow> bool) \<Rightarrow> bool" where
  "zod_conforms zp em ur \<longleftrightarrow>
     (\<forall>sc v. if zod_accepts em ur sc v then \<exists>w. zp sc v = Parsed w
             else \<exists>is. zp sc v = ZodError is \<and> is \<noteq> [])"

text \<open>A parser that reports one issue at the root and conforms.\<close>

definition zod_reference ::
  "(string \<Rightarrow> bool) \<Rightarrow> (string \<Rightarrow> bool) \<Rightarrow> schema \<Rightarrow> jsval \<Rightarrow> zod_result" where
  "zod_reference em ur sc v =
     (if zod_accepts em ur sc v then Parsed v
      else ZodError [\<lparr>issue_path = [], issue_message = ''Invalid input''\<rparr>])"

lemma zod_reference_conforms [simp]: "zod_conforms (zod_reference em ur) em ur"
  by (simp add: zod_conforms_def zod_reference_def)

section \<open>What a validated body looks like\<close>

lemma validate_Next:
  "zod_conforms zp em ur \<Longrightarrow> validate zp sc req = Next r \<Longrightarrow>
     r = req \<and> zod_accepts em ur sc (req_body req)"
  by (force simp: zod_conforms_def validate_def split: zod_result.splits if_splits)

lemma validate_accepts:
  "zod_conforms zp em ur \<Longrightarrow> zod_accepts em ur sc (req_body req) \<Longrightarrow> validate zp sc req = Next req"
  by (auto simp: zod_conforms_def validate_def split: zod_result.splits dest!: spec [of _ sc] spec [of _ "req_body req"])

lemma validate_rejects:
  assumes "zod_conforms zp em ur" and "\<not> zod_accepts em ur sc (req_body req)"
  obtains "is" where "is \<noteq> []" and "validate zp sc req = Done (validation_failed is)"
  using assms by (auto simp: zod_conforms_def validate_def dest!: spec [of _ sc] spec [of _ "req_body req"])

lemma validate_no_Fail: "zod_conforms zp em ur \<Longrightarrow> validate zp sc req \<noteq> Fail e"
  by (cases "zod_accepts em ur sc (req_body req)")
    (auto simp: zod_conforms_def validate_def split: zod_result.splits dest!: spec [of _ sc] spec [of _ "req_body req"])

lemma accepts_register:
  "zod_accepts em ur schemas_register v \<longleftrightarrow>
     (\<exists>ps e p. v = JObj ps \<and> js_lookup ps ''email'' = JStr e \<and> js_lookup ps ''password'' = JStr p \<and>
        em e \<and> 8 \<le> length p)"
  by (auto simp: schemas_register_def split: jsval.splits)

lemma accepts_login:
  "zod_accepts em ur schemas_login v \<longleftrightarrow>
     (\<exists>ps e p. v = JObj ps \<and> js_lookup ps ''email'' = JStr e \<and> js_lookup ps ''password'' = JStr p \<and>
        em e \<and> p \<noteq> [])"
  by (auto simp: schemas_login_def Suc_le_eq split: jsval.splits)

lemma accepts_newsletter:
  "zod_accepts em ur schemas_newsletter v \<longleftrightarrow>
     (\<exists>ps e. v = JObj ps \<and> js_lookup ps ''email'' = JStr e \<and> em e)"
  by (auto simp: schemas_newsletter_def split: jsval.splits)

lemma accepts_contact:
  "zod_accepts em ur schemas_contact v \<longleftrightarrow>
     (\<exists>ps e s m. v = JObj ps \<and> js_lookup ps ''email'' = JStr e \<and>
        js_lookup ps ''subject'' = JStr s \<and> js_lookup ps ''message'' = JStr m \<and> em e \<and>
        1 \<le> length s \<and> length s \<le> 200 \<and> 10 \<le> length m \<and> length m \<le> 5000)"
  by (auto simp: schemas_contact_def split: jsval.splits)

lemma accepts_download:
  "zod_accepts em ur schemas_download v \<longleftrightarrow>
     (\<exists>ps n w p u. v = JObj ps \<and> js_lookup ps ''name'' = JStr n \<and> js_lookup ps ''version'' = JStr w \<and>
        js_lookup ps ''platform'' = JStr p \<and> js_lookup ps ''url'' = JStr u \<and> 1 \<le> length n \<and>
        1 \<le> length w \<and> p \<in> {''windows'', ''macos'', ''linux''} \<and> ur u \<and>
        (js_lookup ps ''checksum'' = JUndefined \<or> (\<exists>c. js_lookup ps ''checksum'' = JStr c)))"
  by (auto simp: schemas_download_def split: jsval.splits)

lemma accepts_rpc:
  "zod_accepts em ur schemas_rpc v \<longleftrightarrow>
     (\<exists>ps m. v = JObj ps \<and> js_lookup ps ''method'' = JStr m \<and> m \<noteq> [] \<and>
        (js_lookup ps ''params'' = JUndefined \<or> (\<exists>vs. js_lookup ps ''params'' = JArr vs)))"
  by (auto simp: schemas_rpc_def Suc_le_eq split: jsval.splits)

lemmas accepts_schemas =
  accepts_register accepts_login accepts_newsletter accepts_contact accepts_download accepts_rpc

end
