(* ===== verification/Config.thy ===== *)
theory Config
  imports Prelude
begin

text \<open>
  \<open>backend/src/config/index.ts\<close>: the configuration object as a function of the process
  environment (after \<open>dotenv\<close> has merged the \<open>.env\<close> file), with the JavaScript
  \<open>parseInt\<close> it reads numbers with.
\<close>

section \<open>parseInt\<close>

text \<open>The nearest double of a natural number: 53 significant bits, ties to even, infinity from
  the overflow threshold on.\<close>

fun bit_length :: "nat \<Rightarrow> nat" where
  "bit_length n = (if n = 0 then 0 else Suc (bit_length (n div 2)))"

declare bit_length.simps [simp del]

definition round_even :: "nat \<Rightarrow> nat \<Rightarrow> nat" where
  "round_even n m =
     (let q = n div m; r = n mod m
      in if 2 * r < m \<or> (2 * r = m \<and> even q) then q else q + 1)"

definition double_of_nat :: "nat \<Rightarrow> js_number" where
  "double_of_nat n =
     (if n < 2 ^ 53 then Fin (of_nat n)
      else let s = bit_length n - 53; v = round_even n (2 ^ s) * 2 ^ s
           in if v < 2 ^ 1024 then Fin (of_nat v) else PosInf)"

definition negate :: "js_number \<Rightarrow> js_number" where
  "negate x = (case x of Fin q \<Rightarrow> Fin (- q) | PosInf \<Rightarrow> NegInf | NegInf \<Rightarrow> PosInf | NaN \<Rightarrow> NaN)"

definition is_digit :: "char \<Rightarrow> bool" where
  "is_digit c = (48 \<le> (of_char c :: nat) \<and> (of_char c :: nat) \<le> 57)"

definition digit_val :: "char \<Rightarrow> nat" where
  "digit_val c = of_char c - 48"

text \<open>White space and line terminators below U+0100.\<close>

definition is_js_space :: "char \<Rightarrow> bool" where
  "is_js_space c = ((of_char c :: nat) \<in> {9, 10, 11, 12, 13, 32, 160})"

definition digits_value :: "string \<Rightarrow> nat" where
  "digits_value s = foldl (\<lambda>a c. 10 * a + digit_val c) 0 s"

text \<open>\<open>parseInt(s, 10)\<close>: leading white space is skipped, a sign is read, and the longest
  prefix of digits is the number; none is \<open>NaN\<close>.\<close>

definition parse_int :: "string \<Rightarrow> js_number" where
  "parse_int s =
     (let t = dropWhile is_js_space s;
          (neg, u) = (case t of c # cs \<Rightarrow> if c = CHR ''-'' then (True, cs)
                                else if c = CHR ''+'' then (False, cs) else (False, t)
                      | [] \<Rightarrow> (False, t));
          ds = takeWhile is_digit u
      in if ds = [] then NaN
         else if neg then negate (double_of_nat (digits_value ds))
         else double_of_nat (digits_value ds))"

section \<open>The configuration\<close>

record jwt_config =
  jwt_secret :: string
  jwt_refreshSecret :: string
  jwt_expiresIn :: string
  jwt_refreshExpiresIn :: string

record rpc_config =
  rpc_url :: string
  rpc_user :: string
  rpc_pass :: string

record rate_limit_config =
  rl_windowMs :: js_number
  rl_max :: js_number

record config =
  cfg_env :: string
  cfg_port :: js_number
  cfg_jwt :: jwt_config
  cfg_hyliumRpc :: rpc_config
  cfg_cors_origin :: string
  cfg_rateLimit :: rate_limit_config

type_synonym process_env = "string \<Rightarrow> string option"

text \<open>\<open>process.env.K || 'default'\<close>: an unset and an empty variable take the default.\<close>

definition env_or :: "process_env \<Rightarrow> string \<Rightarrow> string \<Rightarrow> string" where
  "env_or penv k dflt = (case penv k of None \<Rightarrow> dflt | Some s \<Rightarrow> if s = [] then dflt else s)"

definition load_config :: "process_env \<Rightarrow> config" where
  "load_config penv =
     \<lparr>cfg_env = env_or penv ''NODE_ENV'' ''development'',
      cfg_port = parse_int (env_or penv ''PORT'' ''3001''),
      cfg_jwt =
        \<lparr>jwt_secret = env_or penv ''JWT_SECRET'' ''change-me'',
         jwt_refreshSecret = env_or penv ''JWT_REFRESH_SECRET'' ''change-me-refresh'',
         jwt_expiresIn = env_or penv ''JWT_EXPIRES_IN'' ''15m'',
         jwt_refreshExpiresIn = env_or penv ''JWT_REFRESH_EXPIRES_IN'' ''7d''\<rparr>,
      cfg_hyliumRpc =
        \<lparr>rpc_url = env_or penv ''HYLIUM_RPC_URL'' ''http://127.0.0.1:8332'',
         rpc_user = env_or penv ''HYLIUM_RPC_USER'' [],
         rpc_pass = env_or penv ''HYLIUM_RPC_PASS'' []\<rparr>,
      cfg_cors_origin = env_or penv ''CORS_ORIGIN'' ''http://localhost:5173'',
      cfg_rateLimit =
        \<lparr>rl_windowMs = parse_int (env_or penv ''RATE_LIMIT_WINDOW_MS'' ''900000''),
         rl_max = parse_int (env_or penv ''RATE_LIMIT_MAX'' ''100'')\<rparr>\<rparr>"

section \<open>Numerals read back\<close>

lemma is_digit_digit_char [simp]: "d < 10 \<Longrightarrow> is_digit (digit_char d)"
  by (simp add: is_digit_def of_char_digit_char)

lemma digit_val_digit_char [simp]: "d < 10 \<Longrightarrow> digit_val (digit_char d) = d"
  by (simp add: digit_val_def of_char_digit_char)

lemma digits_value_snoc: "digits_value (s @ [c]) = 10 * digits_value s + digit_val c"
  by (simp add: digits_value_def)

lemma show_nat_digits: "\<forall>c \<in> set (show_nat n). is_digit c"
proof (induction n rule: show_nat.induct)
  case (1 n)
  then show ?case by (cases "n < 10") (auto simp: show_nat.simps [of n])
qed

lemma digits_value_show_nat [simp]: "digits_value (show_nat n) = n"
proof (induction n rule: show_nat.induct)
  case (1 n)
  then show ?case
    by (cases "n < 10") (auto simp: show_nat.simps [of n] digits_value_snoc, simp add: digits_value_def)
qed

lemma digit_not_space_sign:
  "is_digit c \<Longrightarrow> \<not> is_js_space c \<and> c \<noteq> CHR ''-'' \<and> c \<noteq> CHR ''+''"
  by (auto simp: is_digit_def is_js_space_def)

lemma takeWhile_digits:
  "\<forall>c \<in> set ds. is_digit c \<Longrightarrow> rest = [] \<or> \<not> is_digit (hd rest) \<Longrightarrow>
     takeWhile is_digit (ds @ rest) = ds"
  by (induction ds) (auto simp: takeWhile_eq_Nil_iff)

lemma parse_int_digits:
  assumes "\<forall>c \<in> set ds. is_digit c" and "ds \<noteq> []" and "rest = [] \<or> \<not> is_digit (hd rest)"
  shows "parse_int (ds @ rest) = double_of_nat (digits_value ds)"
proof -
  obtain c cs where ds: "ds = c # cs" using assms(2) by (cases ds) auto
  with assms(1) have c: "\<not> is_js_space c" "c \<noteq> CHR ''-''" "c \<noteq> CHR ''+''"
    using digit_not_space_sign by auto
  then have "parse_int (ds @ rest) =
    (let ds' = takeWhile is_digit (ds @ rest)
     in if ds' = [] then NaN else double_of_nat (digits_value ds'))"
    by (simp add: parse_int_def ds)
  then show ?thesis using takeWhile_digits [OF assms(1,3)] assms(2) by simp
qed

section \<open>Properties\<close>

text \<open>A number below \<open>2^53\<close> that an operator writes into \<open>PORT\<close>,
  \<open>RATE_LIMIT_WINDOW_MS\<close> or \<open>RATE_LIMIT_MAX\<close>, even with a unit or a comment after the
  digits, is the number the configuration has; an unset or empty variable gives the default.\<close>

theorem config_numbers:
  assumes "n < 2 ^ 53" and "rest = [] \<or> \<not> is_digit (hd rest)"
  shows "(penv ''PORT'' = Some (show_nat n @ rest) \<longrightarrow> cfg_port (load_config penv) = Fin (of_nat n)) \<and>
    (penv ''RATE_LIMIT_WINDOW_MS'' = Some (show_nat n @ rest) \<longrightarrow>
       rl_windowMs (cfg_rateLimit (load_config penv)) = Fin (of_nat n)) \<and>
    (penv ''RATE_LIMIT_MAX'' = Some (show_nat n @ rest) \<longrightarrow>
       rl_max (cfg_rateLimit (load_config penv)) = Fin (of_nat n)) \<and>
    (penv ''PORT'' \<in> {None, Some []} \<longrightarrow> cfg_port (load_config penv) = Fin 3001)"
proof -
  have "parse_int (show_nat n @ rest) = Fin (of_nat n)"
    using parse_int_digits [OF show_nat_digits show_nat_nonempty assms(2), of n] assms(1)
    by (simp add: double_of_nat_def)
  moreover have "parse_int ''3001'' = Fin 3001"
    by (simp add: parse_int_def is_js_space_def is_digit_def digits_value_def digit_val_def double_of_nat_def)
  ultimately show ?thesis by (auto simp: load_config_def env_or_def)
qed

theorem config_numbers_witness:
  "cfg_port (load_config [''PORT'' \<mapsto> show_nat 8080 @ ''; dev'']) = Fin 8080 \<and>
   rl_max (cfg_rateLimit (load_config [''RATE_LIMIT_MAX'' \<mapsto> show_nat 8080 @ ''; dev''])) = Fin 8080"
  using config_numbers [of 8080 "''; dev''" "[''PORT'' \<mapsto> show_nat 8080 @ ''; dev'']"]
    config_numbers [of 8080 "''; dev''" "[''RATE_LIMIT_MAX'' \<mapsto> show_nat 8080 @ ''; dev'']"]
  by (simp add: is_digit_def)

end
