(* ===== verification/Environment.thy ===== *)
theory Environment
  imports Store Validation Config
begin

text \<open>
  The libraries the handlers call, as one record every handler takes: the Prisma client, Zod,
  bcryptjs and jsonwebtoken. Randomness and the clock are arguments of the operations that use
  them (the salt of a hash, the current time of a signature or a verification, in milliseconds).
  The predicates state what the documentation of the libraries promises, in the form the
  properties assume it.
\<close>

record 'db env =
  prisma :: "'db prisma"
  zod_parse :: "schema \<Rightarrow> jsval \<Rightarrow> zod_result"
  bcrypt_hash :: "jsval \<Rightarrow> nat \<Rightarrow> string \<Rightarrow> js_error + string"
  bcrypt_compare :: "jsval \<Rightarrow> string \<Rightarrow> js_error + bool"
  jwt_sign :: "jsval \<Rightarrow> string \<Rightarrow> string \<Rightarrow> int \<Rightarrow> js_error + string"
  jwt_verify :: "jsval \<Rightarrow> string \<Rightarrow> int \<Rightarrow> js_error + jsval"

text \<open>Hashing a string succeeds, and a password compares equal to its own hash.\<close>

definition bcrypt_correct :: "'db env \<Rightarrow> bool" where
  "bcrypt_correct E \<longleftrightarrow>
     (\<forall>p r s. \<exists>h. bcrypt_hash E (JStr p) r s = Inr h) \<and>
     (\<forall>p r s h. bcrypt_hash E (JStr p) r s = Inr h \<longrightarrow> bcrypt_compare E (JStr p) h = Inr True)"

text \<open>The seconds of a time span such as \<open>15m\<close> or \<open>7d\<close>.\<close>

definition span_seconds :: "string \<Rightarrow> int" where
  "span_seconds x = (if x = ''15m'' then 900 else if x = ''7d'' then 604800 else 0)"

text \<open>A verified token carries the claims it was signed with.\<close>

definition jwt_faithful :: "'db env \<Rightarrow> bool" where
  "jwt_faithful E \<longleftrightarrow>
     (\<forall>p s x t tok s' t' p'. jwt_sign E p s x t = Inr tok \<longrightarrow>
        jwt_verify E (JStr tok) s' t' = Inr p' \<longrightarrow>
        js_opt_get p' ''userId'' = js_opt_get p ''userId'' \<and>
        js_opt_get p' ''role'' = js_opt_get p ''role'')"

text \<open>A signed token verifies under the same secret until it expires; the clock of a token
  counts whole seconds.\<close>

definition jwt_lives :: "'db env \<Rightarrow> bool" where
  "jwt_lives E \<longleftrightarrow>
     (\<forall>uid rl s x t. 0 \<le> t \<longrightarrow> s \<noteq> [] \<longrightarrow> x \<in> {''15m'', ''7d''} \<longrightarrow>
        (\<exists>tok. jwt_sign E (JObj [jstr_field ''userId'' uid, jstr_field ''role'' rl]) s x t = Inr tok) \<and>
        (\<exists>tok. jwt_sign E (JObj [jstr_field ''userId'' uid]) s x t = Inr tok)) \<and>
     (\<forall>p s x t tok t'. jwt_sign E p s x t = Inr tok \<longrightarrow> t \<le> t' \<longrightarrow>
        t' div 1000 < t div 1000 + span_seconds x \<longrightarrow>
        (\<exists>ps. jwt_verify E (JStr tok) s t' = Inr (JObj ps)))"

text \<open>An expired token does not verify, under any secret.\<close>

definition jwt_expires :: "'db env \<Rightarrow> bool" where
  "jwt_expires E \<longleftrightarrow>
     (\<forall>p s x t tok s' t'. jwt_sign E p s x t = Inr tok \<longrightarrow>
        t div 1000 + span_seconds x \<le> t' div 1000 \<longrightarrow>
        (\<exists>e. jwt_verify E (JStr tok) s' t' = Inl e))"

text \<open>A token is in the compact serialization (RFC 7515): base64url parts joined by dots, so it has
  no space.\<close>

definition jwt_compact :: "'db env \<Rightarrow> bool" where
  "jwt_compact E \<longleftrightarrow> (\<forall>p s x t tok. jwt_sign E p s x t = Inr tok \<longrightarrow> CHR '' '' \<notin> set tok)"

end
