(* ===== verification/Auth_Middleware.thy ===== *)
theory Auth_Middleware
  imports Environment
begin

text \<open>
  \<open>backend/src/middleware/auth.ts\<close>: \<open>authenticate\<close> takes the bearer token of the
  \<open>Authorization\<close> header, verifies it under the access secret and puts its claims on the
  request; \<open>requireAdmin\<close> lets only the role \<open>ADMIN\<close> through.
\<close>

text \<open>\<open>authHeader.split(' ')[1]\<close>.\<close>

definition bearer_token :: "string \<Rightarrow> jsval" where
  "bearer_token h = (case split_on (CHR '' '') h of _ # t # _ \<Rightarrow> JStr t | _ \<Rightarrow> JUndefined)"

definition authenticate :: "'db env \<Rightarrow> config \<Rightarrow> int \<Rightarrow> request \<Rightarrow> request mw" where
  "authenticate E cfg now req =
     (let refuse = Done (res_error 401 ''Access token required'');
          invalid = Done (res_error 401 ''Invalid or expired token'')
      in case req_authorization req of
           None \<Rightarrow> refuse
         | Some authHeader \<Rightarrow>
             if authHeader = [] \<or> \<not> starts_with authHeader ''Bearer '' then refuse
             else (case jwt_verify E (bearer_token authHeader) (jwt_secret (cfg_jwt cfg)) now of
                     Inl _ \<Rightarrow> invalid
                   | Inr decoded \<Rightarrow>
                       (case js_get decoded ''userId'' of
                          Inl _ \<Rightarrow> invalid
                        | Inr uid \<Rightarrow>
                            (case js_get decoded ''role'' of
                               Inl _ \<Rightarrow> invalid
                             | Inr rl \<Rightarrow> Next (req\<lparr>req_userId := uid, req_userRole := rl\<rparr>)))))"

definition requireAdmin :: "request \<Rightarrow> request mw" where
  "requireAdmin req =
     (if req_userRole req \<noteq> JStr ''ADMIN'' then Done (res_error 403 ''Admin access required'')
      else Next req)"

text \<open>The claims the token of a request proves at a point in time, if it proves any.\<close>

definition token_claims :: "'db env \<Rightarrow> config \<Rightarrow> int \<Rightarrow> request \<Rightarrow> jsval option" where
  "token_claims E cfg now req =
     (case req_authorization req of
        None \<Rightarrow> None
      | Some h \<Rightarrow>
          if starts_with h ''Bearer ''
          then (case jwt_verify E (bearer_token h) (jwt_secret (cfg_jwt cfg)) now of
                  Inl _ \<Rightarrow> None | Inr p \<Rightarrow> if js_nullish p then None else Some p)
          else None)"

lemma bearer_token_header:
  "CHR '' '' \<notin> set tok \<Longrightarrow> bearer_token (''Bearer '' @ tok) = JStr tok"
proof -
  assume "CHR '' '' \<notin> set tok"
  then have "split_on (CHR '' '') tok = [tok]" by (induction tok) auto
  then show ?thesis by (simp add: bearer_token_def)
qed

lemma authenticate_Next_iff:
  "authenticate E cfg now req = Next r \<longleftrightarrow>
     (\<exists>p. token_claims E cfg now req = Some p \<and>
        r = req\<lparr>req_userId := js_opt_get p ''userId'', req_userRole := js_opt_get p ''role''\<rparr>)"
  by (auto simp: authenticate_def token_claims_def Let_def js_nullish_def
      split: option.splits sum.splits if_splits elim: js_get.elims dest: js_opt_get_of_get)

lemma authenticate_cases:
  obtains (ok) p where "token_claims E cfg now req = Some p"
      "authenticate E cfg now req =
         Next (req\<lparr>req_userId := js_opt_get p ''userId'', req_userRole := js_opt_get p ''role''\<rparr>)"
  | (refused) msg where "token_claims E cfg now req = None"
      "authenticate E cfg now req = Done (res_error 401 msg)"
proof (cases "token_claims E cfg now req")
  case None
  then have "\<exists>msg. authenticate E cfg now req = Done (res_error 401 msg)"
    by (auto simp: authenticate_def token_claims_def Let_def js_nullish_def
        split: option.splits sum.splits if_splits)
  with None refused show ?thesis by blast
next
  case (Some p)
  then have "authenticate E cfg now req =
      Next (req\<lparr>req_userId := js_opt_get p ''userId'', req_userRole := js_opt_get p ''role''\<rparr>)"
    using authenticate_Next_iff [of E cfg now req] by blast
  with Some ok show ?thesis by blast
qed

lemma requireAdmin_Next_iff:
  "requireAdmin req = Next r \<longleftrightarrow> r = req \<and> req_userRole req = JStr ''ADMIN''"
  by (auto simp: requireAdmin_def)

end
