(* ===== verification/Table_Spec.thy ===== *)
theory Table_Spec
  imports Environment
begin

text \<open>
  The abstract specification of what the API may do to the database: one labelled transition
  system over the tables alone, with a rule per kind of write and the guards the routes promise
  (the validated fields, the fresh key, the default role, the hashed password). The route theories
  show that each route refines it; the invariants of the database are proved here, once, over its
  steps.
\<close>

datatype effect =
    NoEffect
  | AddUser user
  | AddNewsletter newsletter
  | AddContact contact
  | AddDownload download
  | DeleteDownload string

text \<open>A row of a table with the guarantees of the schema that validated it.\<close>

definition user_valid :: "'db env \<Rightarrow> (string \<Rightarrow> bool) \<Rightarrow> user \<Rightarrow> bool" where
  "user_valid E em u \<longleftrightarrow> em (user_email u) \<and>
     (\<exists>p salt. 8 \<le> length p \<and> bcrypt_hash E (JStr p) 12 salt = Inr (user_password u))"

definition contact_valid :: "(string \<Rightarrow> bool) \<Rightarrow> contact \<Rightarrow> bool" where
  "contact_valid em c \<longleftrightarrow> em (ct_email c) \<and> 1 \<le> length (ct_subject c) \<and>
     length (ct_subject c) \<le> 200 \<and> 10 \<le> length (ct_message c) \<and> length (ct_message c) \<le> 5000"

definition download_valid :: "(string \<Rightarrow> bool) \<Rightarrow> download \<Rightarrow> bool" where
  "download_valid ur d \<longleftrightarrow> 1 \<le> length (dl_name d) \<and> 1 \<le> length (dl_version d) \<and>
     dl_platform d \<in> {''windows'', ''macos'', ''linux''} \<and> ur (dl_url d)"

inductive table_step ::
  "'db env \<Rightarrow> (string \<Rightarrow> bool) \<Rightarrow> (string \<Rightarrow> bool) \<Rightarrow> tables \<Rightarrow> effect \<Rightarrow> tables \<Rightarrow> bool"
  for E :: "'db env" and em :: "string \<Rightarrow> bool" and ur :: "string \<Rightarrow> bool" where
  skip: "table_step E em ur t NoEffect t"
| add_user:
    "user_valid E em u \<Longrightarrow> user_role u = ''USER'' \<Longrightarrow>
     user_email u \<notin> user_email ` set (users t) \<Longrightarrow> user_id u \<notin> user_id ` set (users t) \<Longrightarrow>
     table_step E em ur t (AddUser u) (t\<lparr>users := users t @ [u]\<rparr>)"
| add_newsletter:
    "em (nl_email n) \<Longrightarrow> nl_email n \<notin> nl_email ` set (newsletters t) \<Longrightarrow>
     nl_id n \<notin> nl_id ` set (newsletters t) \<Longrightarrow>
     table_step E em ur t (AddNewsletter n) (t\<lparr>newsletters := newsletters t @ [n]\<rparr>)"
| add_contact:
    "contact_valid em c \<Longrightarrow> \<not> ct_read c \<Longrightarrow> ct_id c \<notin> ct_id ` set (contacts t) \<Longrightarrow>
     table_step E em ur t (AddContact c) (t\<lparr>contacts := contacts t @ [c]\<rparr>)"
| add_download:
    "download_valid ur d \<Longrightarrow> dl_id d \<notin> dl_id ` set (downloads t) \<Longrightarrow>
     table_step E em ur t (AddDownload d) (t\<lparr>downloads := downloads t @ [d]\<rparr>)"
| delete_download:
    "i \<in> dl_id ` set (downloads t) \<Longrightarrow>
     table_step E em ur t (DeleteDownload i)
       (t\<lparr>downloads := filter (\<lambda>x. dl_id x \<noteq> i) (downloads t)\<rparr>)"

inductive_simps table_step_skip [simp]: "table_step E em ur t NoEffect t'"

text \<open>The writes only an administrator may cause.\<close>

fun admin_effect :: "effect \<Rightarrow> bool" where
  "admin_effect (AddDownload _) = True"
| "admin_effect (DeleteDownload _) = True"
| "admin_effect _ = False"

text \<open>The invariant of the database: the constraints of the schema, and that every row has passed
  the validation of its route.\<close>

definition rows_valid ::
  "'db env \<Rightarrow> (string \<Rightarrow> bool) \<Rightarrow> (string \<Rightarrow> bool) \<Rightarrow> tables \<Rightarrow> bool" where
  "rows_valid E em ur t \<longleftrightarrow>
     (\<forall>u \<in> set (users t). user_valid E em u) \<and>
     (\<forall>n \<in> set (newsletters t). em (nl_email n)) \<and>
     (\<forall>c \<in> set (contacts t). contact_valid em c) \<and>
     (\<forall>d \<in> set (downloads t). download_valid ur d)"

definition db_inv :: "'db env \<Rightarrow> (string \<Rightarrow> bool) \<Rightarrow> (string \<Rightarrow> bool) \<Rightarrow> tables \<Rightarrow> bool" where
  "db_inv E em ur t \<longleftrightarrow> tables_wf t \<and> rows_valid E em ur t"

definition admins :: "tables \<Rightarrow> user set" where
  "admins t = {u \<in> set (users t). user_role u = ''ADMIN''}"

lemma table_step_inv:
  "table_step E em ur t eff t' \<Longrightarrow> db_inv E em ur t \<Longrightarrow> db_inv E em ur t'"
  by (induction rule: table_step.induct)
    (auto simp: db_inv_def tables_wf_def rows_valid_def distinct_map_filter)

lemma table_step_admins: "table_step E em ur t eff t' \<Longrightarrow> admins t' = admins t"
  by (induction rule: table_step.induct) (auto simp: admins_def)

text \<open>Users are never removed or changed, only added.\<close>

lemma table_step_users: "table_step E em ur t eff t' \<Longrightarrow> set (users t) \<subseteq> set (users t')"
  by (induction rule: table_step.induct) auto

lemma table_step_downloads:
  "table_step E em ur t eff t' \<Longrightarrow> \<not> admin_effect eff \<Longrightarrow> downloads t' = downloads t"
  by (induction rule: table_step.induct) auto

end
