(* ===== verification/Auth_Routes.thy ===== *)
theory Auth_Routes
  imports Auth_Middleware Table_Spec
begin

text \<open>
  \<open>backend/src/routes/auth.ts\<close>: registration, login, token refresh and the current user. Each
  handler is its \<open>try\<close> block with every throwing call as a branch that ends in the response
  of the \<open>catch\<close> block; each route puts the middlewares of its \<open>router.post\<close> or
  \<open>router.get\<close> in front. The locale \<open>backend\<close> collects what the routes assume of Prisma and
  Zod.
\<close>

section \<open>Handlers\<close>

definition register_handler :: "'db env \<Rightarrow> string \<Rightarrow> request \<Rightarrow> 'db \<Rightarrow> response \<times> 'db" where
  "register_handler E salt req d =
     (case js_get (req_body req) ''email'' of
        Inl _ \<Rightarrow> (internal_error, d)
      | Inr email \<Rightarrow>
     (case js_get (req_body req) ''password'' of
        Inl _ \<Rightarrow> (internal_error, d)
      | Inr password \<Rightarrow>
     (case user_findUnique_email (prisma E) email d of
        Inl _ \<Rightarrow> (internal_error, d)
      | Inr (Some _) \<Rightarrow> (res_error 400 ''Email already registered'', d)
      | Inr None \<Rightarrow>
     (case bcrypt_hash E password 12 salt of
        Inl _ \<Rightarrow> (internal_error, d)
      | Inr hashedPassword \<Rightarrow>
     (case user_create (prisma E) email hashedPassword d of
        (Inl _, d') \<Rightarrow> (internal_error, d')
      | (Inr user, d') \<Rightarrow>
          (res_json 201 (JObj [jstr_field ''message'' ''User created successfully'',
                               jstr_field ''userId'' (user_id user)]), d'))))))"

definition access_claims :: "user \<Rightarrow> jsval" where
  "access_claims u = JObj [jstr_field ''userId'' (user_id u), jstr_field ''role'' (user_role u)]"

definition refresh_claims :: "user \<Rightarrow> jsval" where
  "refresh_claims u = JObj [jstr_field ''userId'' (user_id u)]"

definition login_handler :: "'db env \<Rightarrow> config \<Rightarrow> int \<Rightarrow> request \<Rightarrow> 'db \<Rightarrow> response" where
  "login_handler E cfg now req d =
     (case js_get (req_body req) ''email'' of
        Inl _ \<Rightarrow> internal_error
      | Inr email \<Rightarrow>
     (case js_get (req_body req) ''password'' of
        Inl _ \<Rightarrow> internal_error
      | Inr password \<Rightarrow>
     (case user_findUnique_email (prisma E) email d of
        Inl _ \<Rightarrow> internal_error
      | Inr None \<Rightarrow> res_error 401 ''Invalid credentials''
      | Inr (Some user) \<Rightarrow>
     (case bcrypt_compare E password (user_password user) of
        Inl _ \<Rightarrow> internal_error
      | Inr validPassword \<Rightarrow>
          if \<not> validPassword then res_error 401 ''Invalid credentials''
          else
     (case jwt_sign E (access_claims user) (jwt_secret (cfg_jwt cfg)) ''15m'' now of
        Inl _ \<Rightarrow> internal_error
      | Inr accessToken \<Rightarrow>
     (case jwt_sign E (refresh_claims user) (jwt_refreshSecret (cfg_jwt cfg)) ''7d'' now of
        Inl _ \<Rightarrow> internal_error
      | Inr refreshToken \<Rightarrow>
          res_json 200 (JObj [jstr_field ''accessToken'' accessToken,
                              jstr_field ''refreshToken'' refreshToken])))))))"

definition refresh_handler :: "'db env \<Rightarrow> config \<Rightarrow> int \<Rightarrow> request \<Rightarrow> 'db \<Rightarrow> response" where
  "refresh_handler E cfg now req d =
     (let invalid = res_error 401 ''Invalid refresh token''
      in case js_get (req_body req) ''refreshToken'' of
        Inl _ \<Rightarrow> invalid
      | Inr refreshToken \<Rightarrow>
          if \<not> js_truthy refreshToken then res_error 401 ''Refresh token required''
          else
     (case jwt_verify E refreshToken (jwt_refreshSecret (cfg_jwt cfg)) now of
        Inl _ \<Rightarrow> invalid
      | Inr decoded \<Rightarrow>
     (case js_get decoded ''userId'' of
        Inl _ \<Rightarrow> invalid
      | Inr userId \<Rightarrow>
     (case user_findUnique_id (prisma E) userId d of
        Inl _ \<Rightarrow> invalid
      | Inr None \<Rightarrow> invalid
      | Inr (Some user) \<Rightarrow>
     (case jwt_sign E (access_claims user) (jwt_secret (cfg_jwt cfg)) ''15m'' now of
        Inl _ \<Rightarrow> invalid
      | Inr accessToken \<Rightarrow> res_json 200 (JObj [jstr_field ''accessToken'' accessToken]))))))"

text \<open>\<open>select: { id, email, role, createdAt }\<close>, with the date as JSON prints it.\<close>

definition user_public :: "user \<Rightarrow> jsval" where
  "user_public u = JObj
     [jstr_field ''id'' (user_id u), jstr_field ''email'' (user_email u),
      jstr_field ''role'' (user_role u), jstr_field ''createdAt'' (iso_string (user_createdAt u))]"

definition me_handler :: "'db env \<Rightarrow> request \<Rightarrow> 'db \<Rightarrow> response" where
  "me_handler E req d =
     (case user_findUnique_id (prisma E) (req_userId req) d of
        Inl _ \<Rightarrow> internal_error
      | Inr None \<Rightarrow> res_error 404 ''User not found''
      | Inr (Some user) \<Rightarrow> res_json 200 (user_public user))"

section \<open>Routes\<close>

definition register_route ::
  "'db env \<Rightarrow> string \<Rightarrow> request \<Rightarrow> 'db \<Rightarrow> (js_error + response) \<times> 'db" where
  "register_route E salt = run_route [validate (zod_parse E) schemas_register] (register_handler E salt)"

definition login_route ::
  "'db env \<Rightarrow> config \<Rightarrow> int \<Rightarrow> request \<Rightarrow> 'db \<Rightarrow> (js_error + response) \<times> 'db" where
  "login_route E cfg now =
     run_route [validate (zod_parse E) schemas_login] (reading (login_handler E cfg now))"

definition refresh_route ::
  "'db env \<Rightarrow> config \<Rightarrow> int \<Rightarrow> request \<Rightarrow> 'db \<Rightarrow> (js_error + response) \<times> 'db" where
  "refresh_route E cfg now = run_route [] (reading (refresh_handler E cfg now))"

definition me_route ::
  "'db env \<Rightarrow> config \<Rightarrow> int \<Rightarrow> request \<Rightarrow> 'db \<Rightarrow> (js_error + response) \<times> 'db" where
  "me_route E cfg now = run_route [authenticate E cfg now] (reading (me_handler E))"

lemmas auth_handler_defs =
  register_handler_def login_handler_def refresh_handler_def me_handler_def
lemmas auth_route_defs = register_route_def login_route_def refresh_route_def me_route_def

declare auth_handler_defs [handler_defs] auth_route_defs [handler_defs]

section \<open>What the routes assume of the libraries\<close>

locale backend = prisma_client "prisma E" view
  for E :: "'db env" and view :: "'db \<Rightarrow> tables" +
  fixes em :: "string \<Rightarrow> bool" and ur :: "string \<Rightarrow> bool"
  assumes zod: "zod_conforms (zod_parse E) em ur"

context backend
begin

text \<open>The two ways a registration ends.\<close>

lemma register_route_result:
  assumes "register_route E salt req d = (r, d')"
  obtains (refused) resp where "r = Inr resp" "resp_status resp \<in> {400, 500}" "view d' = view d"
  | (created) u p where
      "r = Inr (res_json 201 (JObj [jstr_field ''message'' ''User created successfully'',
                                    jstr_field ''userId'' (user_id u)]))"
      "js_opt_get (req_body req) ''email'' = JStr (user_email u)"
      "js_opt_get (req_body req) ''password'' = JStr p" "em (user_email u)" "8 \<le> length p"
      "bcrypt_hash E (JStr p) 12 salt = Inr (user_password u)" "user_role u = ''USER''"
      "user_email u \<notin> user_email ` set (users (view d))"
      "user_id u \<notin> user_id ` set (users (view d))"
      "view d' = (view d)\<lparr>users := users (view d) @ [u]\<rparr>"
proof (cases "zod_accepts em ur schemas_register (req_body req)")
  case False
  then obtain "is" where "validate (zod_parse E) schemas_register req = Done (validation_failed is)"
    using validate_rejects [OF zod] by blast
  with assms have "r = Inr (validation_failed is)" "d' = d"
    by (auto simp: register_route_def run_route_def)
  then show ?thesis by (intro refused) (auto simp: validation_failed_def)
next
  case True
  then obtain ps e p where b: "req_body req = JObj ps" "js_lookup ps ''email'' = JStr e"
      "js_lookup ps ''password'' = JStr p" "em e" "8 \<le> length p"
    by (auto simp: accepts_register)
  have run: "register_handler E salt req d = (resp, d') \<Longrightarrow> r = Inr resp \<Longrightarrow> thesis" for resp
    using b by (auto simp: register_handler_def split: sum.splits option.splits prod.splits
        dest!: user_create_Inl user_create_Inr
        intro: refused created [where p = p])
  from True have "validate (zod_parse E) schemas_register req = Next req"
    by (rule validate_accepts [OF zod])
  with assms show ?thesis
    by (intro run [of "fst (register_handler E salt req d)"])
      (auto simp: register_route_def run_route_def split: prod.splits)
qed

lemma register_route_step:
  assumes "register_route E salt req d = (r, d')"
  shows "\<exists>eff. table_step E em ur (view d) eff (view d') \<and> \<not> admin_effect eff"
  using assms
proof (cases rule: register_route_result)
  case (refused resp)
  then show ?thesis by (intro exI [of _ NoEffect]) simp
next
  case (created u p)
  then have "user_valid E em u" by (auto simp: user_valid_def)
  with created show ?thesis
    by (intro exI [of _ "AddUser u"]) (auto intro: table_step.add_user)
qed

lemma read_routes_db [simp]:
  "snd (login_route E cfg now req d) = d"
  "snd (refresh_route E cfg now req d) = d"
  "snd (me_route E cfg now req d) = d"
  by (simp_all add: auth_route_defs)

end

end
