(* ===== verification/Content_Routes.thy ===== *)
theory Content_Routes
  imports Auth_Routes
begin

text \<open>
  The routes that store and list content: \<open>backend/src/routes/newsletter.ts\<close>,
  \<open>contact.ts\<close> and \<open>downloads.ts\<close>. Each write is shown to be a step of the abstract
  specification, and the two writes of the download table to need the claims of an administrator.
\<close>

section \<open>Newsletter\<close>

definition newsletter_handler :: "'db env \<Rightarrow> request \<Rightarrow> 'db \<Rightarrow> response \<times> 'db" where
  "newsletter_handler E req d =
     (case js_get (req_body req) ''email'' of
        Inl _ \<Rightarrow> (internal_error, d)
      | Inr email \<Rightarrow>
     (case newsletter_findUnique (prisma E) email d of
        Inl _ \<Rightarrow> (internal_error, d)
      | Inr (Some _) \<Rightarrow> (res_message 200 ''Already subscribed'', d)
      | Inr None \<Rightarrow>
     (case newsletter_create (prisma E) email d of
        (Inl _, d') \<Rightarrow> (internal_error, d')
      | (Inr _, d') \<Rightarrow> (res_message 201 ''Subscribed successfully'', d'))))"

definition newsletter_route :: "'db env \<Rightarrow> request \<Rightarrow> 'db \<Rightarrow> (js_error + response) \<times> 'db" where
  "newsletter_route E =
     run_route [validate (zod_parse E) schemas_newsletter] (newsletter_handler E)"

section \<open>Contact form\<close>

definition contact_handler :: "'db env \<Rightarrow> request \<Rightarrow> 'db \<Rightarrow> response \<times> 'db" where
  "contact_handler E req d =
     (case js_get (req_body req) ''email'' of
        Inl _ \<Rightarrow> (internal_error, d)
      | Inr email \<Rightarrow>
     (case js_get (req_body req) ''subject'' of
        Inl _ \<Rightarrow> (internal_error, d)
      | Inr subject \<Rightarrow>
     (case js_get (req_body req) ''message'' of
        Inl _ \<Rightarrow> (internal_error, d)
      | Inr message \<Rightarrow>
     (case contact_create (prisma E) email subject message d of
        (Inl _, d') \<Rightarrow> (internal_error, d')
      | (Inr _, d') \<Rightarrow> (res_message 201 ''Message sent successfully'', d')))))"

definition contact_route :: "'db env \<Rightarrow> request \<Rightarrow> 'db \<Rightarrow> (js_error + response) \<times> 'db" where
  "contact_route E = run_route [validate (zod_parse E) schemas_contact] (contact_handler E)"

section \<open>Downloads\<close>

definition download_json :: "download \<Rightarrow> jsval" where
  "download_json d = JObj
     [jstr_field ''id'' (dl_id d), jstr_field ''name'' (dl_name d),
      jstr_field ''version'' (dl_version d), jstr_field ''platform'' (dl_platform d),
      jstr_field ''url'' (dl_url d),
      (''checksum'', case dl_checksum d of None \<Rightarrow> JNull | Some c \<Rightarrow> JStr c),
      jstr_field ''createdAt'' (iso_string (dl_createdAt d)),
      jstr_field ''updatedAt'' (iso_string (dl_updatedAt d))]"

definition downloads_list_handler :: "'db env \<Rightarrow> request \<Rightarrow> 'db \<Rightarrow> response" where
  "downloads_list_handler E req d =
     (case download_findMany (prisma E) d of
        Inl _ \<Rightarrow> internal_error
      | Inr ds \<Rightarrow> res_json 200 (JArr (map download_json ds)))"

definition downloads_add_handler :: "'db env \<Rightarrow> request \<Rightarrow> 'db \<Rightarrow> response \<times> 'db" where
  "downloads_add_handler E req d =
     (let field = js_get (req_body req)
      in case (field ''name'', field ''version'', field ''platform'', field ''url'', field ''checksum'') of
        (Inr name, Inr version, Inr platform, Inr url, Inr checksum) \<Rightarrow>
          (case download_create (prisma E) name version platform url checksum d of
             (Inl _, d') \<Rightarrow> (internal_error, d')
           | (Inr download, d') \<Rightarrow> (res_json 201 (download_json download), d'))
      | _ \<Rightarrow> (internal_error, d))"

text \<open>\<open>req.params.id\<close> is there whenever the route pattern \<open>/:id\<close> has matched.\<close>

definition downloads_delete_handler :: "'db env \<Rightarrow> request \<Rightarrow> 'db \<Rightarrow> response \<times> 'db" where
  "downloads_delete_handler E req d =
     (case map_of (req_params req) ''id'' of
        None \<Rightarrow> (internal_error, d)
      | Some i \<Rightarrow>
          (case download_delete (prisma E) i d of
             (Inl _, d') \<Rightarrow> (internal_error, d')
           | (Inr _, d') \<Rightarrow> (res_message 200 ''Download deleted'', d')))"

definition downloads_list_route :: "'db env \<Rightarrow> request \<Rightarrow> 'db \<Rightarrow> (js_error + response) \<times> 'db" where
  "downloads_list_route E = run_route [] (reading (downloads_list_handler E))"

definition downloads_add_route ::
  "'db env \<Rightarrow> config \<Rightarrow> int \<Rightarrow> request \<Rightarrow> 'db \<Rightarrow> (js_error + response) \<times> 'db" where
  "downloads_add_route E cfg now =
     run_route [authenticate E cfg now, requireAdmin, validate (zod_parse E) schemas_download]
       (downloads_add_handler E)"

definition downloads_delete_route ::
  "'db env \<Rightarrow> config \<Rightarrow> int \<Rightarrow> request \<Rightarrow> 'db \<Rightarrow> (js_error + response) \<times> 'db" where
  "downloads_delete_route E cfg now =
     run_route [authenticate E cfg now, requireAdmin] (downloads_delete_handler E)"

lemmas content_handler_defs =
  newsletter_handler_def contact_handler_def downloads_list_handler_def
  downloads_add_handler_def downloads_delete_handler_def
lemmas content_route_defs =
  newsletter_route_def contact_route_def downloads_list_route_def downloads_add_route_def
  downloads_delete_route_def

declare content_handler_defs [handler_defs] content_route_defs [handler_defs]

section \<open>Refinement of the specification\<close>

definition claims_admin :: "'db env \<Rightarrow> config \<Rightarrow> int \<Rightarrow> request \<Rightarrow> bool" where
  "claims_admin E cfg now req \<longleftrightarrow>
     (\<exists>p. token_claims E cfg now req = Some p \<and> js_opt_get p ''role'' = JStr ''ADMIN'')"

text \<open>What gets past the two authorization middlewares.\<close>

lemma chain_admin:
  "chain [authenticate E cfg now, requireAdmin] req = Next r \<Longrightarrow>
     claims_admin E cfg now req \<and> req_body r = req_body req \<and> req_params r = req_params req"
  by (auto simp: chain_Next_iff authenticate_Next_iff requireAdmin_Next_iff claims_admin_def
      simp del: chain.simps(2) elim!: chain.elims)

context backend
begin

text \<open>A validated route that writes: what is left to show is a step of the handler on a body
  the schema accepts.\<close>

lemma validated_step:
  assumes "run_route [validate (zod_parse E) sc] h req d = (r, d')"
    and "\<And>resp. zod_accepts em ur sc (req_body req) \<Longrightarrow> h req d = (resp, d') \<Longrightarrow>
           \<exists>eff. table_step E em ur (view d) eff (view d') \<and> Q eff"
    and "Q NoEffect"
  shows "\<exists>eff. table_step E em ur (view d) eff (view d') \<and> Q eff"
proof (cases "validate (zod_parse E) sc req")
  case (Next r')
  with validate_Next [OF zod] have "r' = req" "zod_accepts em ur sc (req_body req)" by blast+
  with assms(1,2) Next show ?thesis
    by (auto simp: run_route_def split: prod.splits)
qed (use assms in \<open>auto simp: run_route_def intro!: exI [of _ NoEffect]\<close>)

lemma newsletter_route_step:
  assumes "newsletter_route E req d = (r, d')"
  shows "\<exists>eff. table_step E em ur (view d) eff (view d') \<and> \<not> admin_effect eff"
  using assms unfolding newsletter_route_def
proof (rule validated_step)
  fix resp
  assume "zod_accepts em ur schemas_newsletter (req_body req)"
    and h: "newsletter_handler E req d = (resp, d')"
  then obtain ps e where b: "req_body req = JObj ps" "js_lookup ps ''email'' = JStr e" "em e"
    by (auto simp: accepts_newsletter)
  show "\<exists>eff. table_step E em ur (view d) eff (view d') \<and> \<not> admin_effect eff"
  proof (cases "\<exists>n. newsletter_create (prisma E) (JStr e) d = (Inr n, d')")
    case True
    then obtain n where n: "newsletter_create (prisma E) (JStr e) d = (Inr n, d')" by blast
    from newsletter_create_Inr [OF n] b(3) show ?thesis
      by (intro exI [of _ "AddNewsletter n"]) (auto intro: table_step.add_newsletter)
  next
    case False
    with h b have "view d' = view d"
      by (auto simp: newsletter_handler_def dest: newsletter_create_Inl
          split: sum.splits option.splits prod.splits)
    then show ?thesis by (intro exI [of _ NoEffect]) simp
  qed
qed simp

lemma contact_route_step:
  assumes "contact_route E req d = (r, d')"
  shows "\<exists>eff. table_step E em ur (view d) eff (view d') \<and> \<not> admin_effect eff"
  using assms unfolding contact_route_def
proof (rule validated_step)
  fix resp
  assume "zod_accepts em ur schemas_contact (req_body req)"
    and h: "contact_handler E req d = (resp, d')"
  then obtain ps e s m where b: "req_body req = JObj ps" "js_lookup ps ''email'' = JStr e"
      "js_lookup ps ''subject'' = JStr s" "js_lookup ps ''message'' = JStr m" "em e"
      "1 \<le> length s" "length s \<le> 200" "10 \<le> length m" "length m \<le> 5000"
    unfolding accepts_contact by blast
  show "\<exists>eff. table_step E em ur (view d) eff (view d') \<and> \<not> admin_effect eff"
  proof (cases "\<exists>c. contact_create (prisma E) (JStr e) (JStr s) (JStr m) d = (Inr c, d')")
    case True
    then obtain c where c: "contact_create (prisma E) (JStr e) (JStr s) (JStr m) d = (Inr c, d')"
      by blast
    from contact_create_Inr [OF c] b(5-9) have "contact_valid em c"
      by (auto simp: contact_valid_def)
    with contact_create_Inr [OF c] show ?thesis
      by (intro exI [of _ "AddContact c"]) (auto intro: table_step.add_contact)
  next
    case False
    with h b(1-4) have "view d' = view d"
      by (auto simp: contact_handler_def dest: contact_create_Inl split: sum.splits prod.splits)
    then show ?thesis by (intro exI [of _ NoEffect]) simp
  qed
qed simp

lemma downloads_add_step:
  assumes "downloads_add_route E cfg now req d = (r, d')"
  shows "\<exists>eff. table_step E em ur (view d) eff (view d') \<and>
           (admin_effect eff \<longrightarrow> claims_admin E cfg now req)"
proof (cases "chain [authenticate E cfg now, requireAdmin] req")
  case (Next req')
  with chain_admin have adm: "claims_admin E cfg now req" by blast
  have "run_route [validate (zod_parse E) schemas_download] (downloads_add_handler E) req' d = (r, d')"
    using assms Next
    by (auto simp: downloads_add_route_def run_route_def split: mw.splits)
  then show ?thesis
  proof (rule validated_step)
    fix resp
    assume "zod_accepts em ur schemas_download (req_body req')"
      and h: "downloads_add_handler E req' d = (resp, d')"
    then obtain ps n w p u where b: "req_body req' = JObj ps" "js_lookup ps ''name'' = JStr n"
        "js_lookup ps ''version'' = JStr w" "js_lookup ps ''platform'' = JStr p"
        "js_lookup ps ''url'' = JStr u" "1 \<le> length n" "1 \<le> length w"
        "p \<in> {''windows'', ''macos'', ''linux''}" "ur u"
      unfolding accepts_download by blast
    let ?create = "download_create (prisma E) (JStr n) (JStr w) (JStr p) (JStr u)
                     (js_lookup ps ''checksum'') d"
    show "\<exists>eff. table_step E em ur (view d) eff (view d') \<and>
            (admin_effect eff \<longrightarrow> claims_admin E cfg now req)"
    proof (cases "\<exists>dl. ?create = (Inr dl, d')")
      case True
      then obtain dl where dl: "?create = (Inr dl, d')" by blast
      from download_create_Inr [OF dl] b(6-9) have "download_valid ur dl"
        by (auto simp: download_valid_def)
      with download_create_Inr [OF dl] adm show ?thesis
        by (intro exI [of _ "AddDownload dl"]) (auto intro: table_step.add_download)
    next
      case False
      with h b(1-5) have "view d' = view d"
        by (auto simp: downloads_add_handler_def dest: download_create_Inl
            split: sum.splits prod.splits)
      then show ?thesis by (intro exI [of _ NoEffect]) simp
    qed
  qed simp
qed (use assms in \<open>auto simp: downloads_add_route_def run_route_def split: mw.splits
       intro!: exI [of _ NoEffect]\<close>)

lemma downloads_delete_step:
  assumes "downloads_delete_route E cfg now req d = (r, d')"
  shows "\<exists>eff. table_step E em ur (view d) eff (view d') \<and>
           (admin_effect eff \<longrightarrow> claims_admin E cfg now req)"
proof (cases "chain [authenticate E cfg now, requireAdmin] req")
  case (Next req')
  with chain_admin have adm: "claims_admin E cfg now req" by blast
  have h: "snd (downloads_delete_handler E req' d) = d'"
    using assms Next by (auto simp: downloads_delete_route_def run_route_def split: prod.splits)
  show ?thesis
  proof (cases "\<exists>i dl. download_delete (prisma E) i d = (Inr dl, d')")
    case True
    then obtain i dl where dl: "download_delete (prisma E) i d = (Inr dl, d')" by blast
    from download_delete_Inr [OF dl] adm show ?thesis
      by (intro exI [of _ "DeleteDownload i"]) (auto intro: table_step.delete_download)
  next
    case False
    with h have "view d' = view d"
      by (auto simp: downloads_delete_handler_def dest: download_delete_Inl
          split: sum.splits prod.splits option.splits)
    then show ?thesis by (intro exI [of _ NoEffect]) simp
  qed
qed (use assms in \<open>auto simp: downloads_delete_route_def run_route_def split: mw.splits
       intro!: exI [of _ NoEffect]\<close>)

lemma downloads_list_db [simp]: "snd (downloads_list_route E req d) = d"
  by (simp add: content_route_defs)

end

end
