(* ===== verification/Rpc_Route.thy ===== *)
theory Rpc_Route
  imports Environment
begin

text \<open>
  \<open>backend/src/routes/rpc.ts\<close>: the proxy in front of the node's JSON-RPC server. The
  network is a function from the request \<open>fetch\<close> sends to what comes back; the handler returns
  its response with the requests it has sent, in order. Bodies are kept as values:
  \<open>JSON.stringify\<close> on one side and \<open>json()\<close> on the other leave \<^term>\<open>json_wire\<close> of
  what was sent.
\<close>

section \<open>fetch and Buffer\<close>

record fetch_request =
  fetch_url :: string
  fetch_method :: string
  fetch_headers :: "(string \<times> string) list"
  fetch_body :: jsval

text \<open>A rejected \<open>fetch\<close>, or a response: its status and what \<open>response.json()\<close> gives.\<close>

datatype fetch_result = FetchRejected | FetchResponse nat "js_error + jsval"

type_synonym network = "fetch_request \<Rightarrow> fetch_result"

text \<open>\<open>Buffer.from(s)\<close>: the UTF-8 bytes of a string of code points below U+0100.\<close>

definition utf8_char :: "char \<Rightarrow> nat list" where
  "utf8_char c =
     (let n = (of_char c :: nat) in if n < 128 then [n] else [192 + n div 64, 128 + n mod 64])"

definition utf8 :: "string \<Rightarrow> nat list" where
  "utf8 s = concat (map utf8_char s)"

definition base64_alphabet :: string where
  "base64_alphabet = ''ABCDEFGHIJKLMNOPQRSTUVWXYZabcdefghijklmnopqrstuvwxyz0123456789+/''"

definition base64_char :: "nat \<Rightarrow> char" where
  "base64_char n = base64_alphabet ! n"

text \<open>\<open>buffer.toString('base64')\<close> (RFC 4648, section 4): three bytes give four characters, and
  a last group of one or two bytes is padded.\<close>

fun base64_encode :: "nat list \<Rightarrow> string" where
  "base64_encode [] = []"
| "base64_encode [a] = [base64_char (a div 4), base64_char (a mod 4 * 16), CHR ''='', CHR ''='']"
| "base64_encode [a, b] =
     [base64_char (a div 4), base64_char (a mod 4 * 16 + b div 16),
      base64_char (b mod 16 * 4), CHR ''='']"
| "base64_encode (a # b # c # rest) =
     [base64_char (a div 4), base64_char (a mod 4 * 16 + b div 16),
      base64_char (b mod 16 * 4 + c div 64), base64_char (c mod 64)] @ base64_encode rest"

section \<open>The call\<close>

definition basic_auth :: "rpc_config \<Rightarrow> string" where
  "basic_auth rc = ''Basic '' @ base64_encode (utf8 (rpc_user rc @ '':'' @ rpc_pass rc))"

definition rpc_request :: "config \<Rightarrow> string \<Rightarrow> jsval \<Rightarrow> fetch_request" where
  "rpc_request cfg method params =
     \<lparr>fetch_url = rpc_url (cfg_hyliumRpc cfg),
      fetch_method = ''POST'',
      fetch_headers =
        [(''Content-Type'', ''application/json''),
         (''Authorization'', basic_auth (cfg_hyliumRpc cfg))],
      fetch_body = json_wire (JObj
        [jstr_field ''jsonrpc'' ''1.0'', jstr_field ''id'' ''hylium-web'',
         jstr_field ''method'' method, (''params'', params)])\<rparr>"

text \<open>A parameter with a default value: \<open>params: any[] = []\<close>.\<close>

definition default_params :: "jsval \<Rightarrow> jsval" where
  "default_params params = (if params = JUndefined then JArr [] else params)"

definition callRpc :: "config \<Rightarrow> network \<Rightarrow> string \<Rightarrow> jsval \<Rightarrow> js_error + jsval" where
  "callRpc cfg net method params =
     (case net (rpc_request cfg method (default_params params)) of
        FetchRejected \<Rightarrow> Inl NetworkFailure
      | FetchResponse _ data \<Rightarrow> data)"

section \<open>The proxy\<close>

definition ALLOWED_METHODS :: "string list" where
  "ALLOWED_METHODS =
     [''getblockchaininfo'', ''getblockcount'', ''getdifficulty'', ''getnetworkhashps'',
      ''getmininginfo'', ''getpeerinfo'', ''getnettotals'', ''getconnectioncount'',
      ''getbestblockhash'', ''getblock'', ''getblockhash'', ''getrawtransaction'',
      ''decoderawtransaction'']"

definition rpc_failed :: response where
  "rpc_failed = res_error 500 ''RPC call failed''"

definition rpc_handler :: "config \<Rightarrow> network \<Rightarrow> request \<Rightarrow> response \<times> fetch_request list" where
  "rpc_handler cfg net req =
     (case js_get (req_body req) ''method'' of
        Inl _ \<Rightarrow> (rpc_failed, [])
      | Inr method \<Rightarrow>
     (case js_get (req_body req) ''params'' of
        Inl _ \<Rightarrow> (rpc_failed, [])
      | Inr params \<Rightarrow>
     (case method of
        JStr m \<Rightarrow>
          if to_lower m \<notin> set ALLOWED_METHODS
          then (res_json 403 (JObj [jstr_field ''error'' ''Method not allowed'',
                  (''allowedMethods'', JArr (map JStr ALLOWED_METHODS))]), [])
          else (case callRpc cfg net m params of
                  Inl _ \<Rightarrow> (rpc_failed, [rpc_request cfg m (default_params params)])
                | Inr result \<Rightarrow> (res_json 200 result, [rpc_request cfg m (default_params params)]))
      | _ \<Rightarrow> (rpc_failed, []))))"

definition rpc_route ::
  "'db env \<Rightarrow> config \<Rightarrow> network \<Rightarrow> request \<Rightarrow> (js_error + response) \<times> fetch_request list" where
  "rpc_route E cfg net req =
     (case validate (zod_parse E) schemas_rpc req of
        Next r \<Rightarrow> (let (resp, sent) = rpc_handler cfg net r in (Inr resp, sent))
      | Done resp \<Rightarrow> (Inr resp, [])
      | Fail e \<Rightarrow> (Inl e, []))"

declare rpc_handler_def [handler_defs] rpc_route_def [handler_defs] callRpc_def [handler_defs]

text \<open>The method a request to the node asks for.\<close>

definition requested_method :: "fetch_request \<Rightarrow> jsval" where
  "requested_method f = js_opt_get (fetch_body f) ''method''"

lemma requested_method_rpc_request [simp]: "requested_method (rpc_request cfg m ps) = JStr m"
  by (simp add: requested_method_def rpc_request_def js_lookup_def)

lemma rpc_handler_sent:
  "rpc_handler cfg net req = (resp, sent) \<Longrightarrow>
     sent = [] \<or> (\<exists>m ps. sent = [rpc_request cfg m ps] \<and> to_lower m \<in> set ALLOWED_METHODS \<and>
       js_get (req_body req) ''method'' = Inr (JStr m))"
  by (auto simp: rpc_handler_def split: sum.splits jsval.splits if_splits)

lemma rpc_route_sent:
  "rpc_route E cfg net req = (r, sent) \<Longrightarrow> f \<in> set sent \<Longrightarrow>
     \<exists>m ps. f = rpc_request cfg m ps \<and> to_lower m \<in> set ALLOWED_METHODS"
  by (fastforce simp: rpc_route_def split: mw.splits prod.splits dest!: rpc_handler_sent)

lemma ALLOWED_METHODS_lower: "m \<in> set ALLOWED_METHODS \<Longrightarrow> to_lower m = m"
  unfolding ALLOWED_METHODS_def
  by (simp only: list.set insert_iff empty_iff, elim disjE)
     (simp_all add: to_lower_def char_lower_def)

end
