(* ===== verification/Stats_Route.thy ===== *)
theory Stats_Route
  imports Rpc_Route
begin

text \<open>
  \<open>backend/src/routes/stats.ts\<close>: the cached network statistics. The module's \<open>statsCache\<close>
  is an optional record; the handler takes the clock readings of its three \<open>Date\<close> calls
  (\<open>t0\<close> at the cache check, \<open>t1\<close> for \<open>lastUpdated\<close>, \<open>t2\<close> for the new timestamp)
  and returns its response, the new cache and the requests it has sent to the node.
\<close>

record stats_cache =
  cache_data :: jsval
  cache_timestamp :: int

definition CACHE_TTL :: int where
  "CACHE_TTL = 30000"

definition stats_callRpc :: "config \<Rightarrow> network \<Rightarrow> string \<Rightarrow> js_error + jsval" where
  "stats_callRpc cfg net method =
     (case net (rpc_request cfg method (JArr [])) of
        FetchRejected \<Rightarrow> Inl NetworkFailure
      | FetchResponse _ (Inl e) \<Rightarrow> Inl e
      | FetchResponse _ (Inr data) \<Rightarrow>
          (case js_get data ''error'' of
             Inl e \<Rightarrow> Inl e
           | Inr err \<Rightarrow>
               if js_truthy err
               then (case js_get err ''message'' of
                       Inl e \<Rightarrow> Inl e
                     | Inr msg \<Rightarrow> Inl (ThrownError (js_or msg (JStr ''RPC error''))))
               else js_get data ''result''))"

text \<open>\<open>promise.catch(() => null)\<close> and \<open>Promise.all\<close>.\<close>

definition catch_null :: "js_error + jsval \<Rightarrow> js_error + jsval" where
  "catch_null r = (case r of Inl _ \<Rightarrow> Inr JNull | Inr v \<Rightarrow> Inr v)"

fun promise_all :: "(js_error + jsval) list \<Rightarrow> js_error + jsval list" where
  "promise_all [] = Inr []"
| "promise_all (r # rs) =
     (case r of Inl e \<Rightarrow> Inl e
      | Inr v \<Rightarrow> (case promise_all rs of Inl e \<Rightarrow> Inl e | Inr vs \<Rightarrow> Inr (v # vs)))"

definition stats_methods :: "string list" where
  "stats_methods = [''getblockchaininfo'', ''getmininginfo'', ''getconnectioncount'']"

definition stats_object :: "jsval \<Rightarrow> jsval \<Rightarrow> jsval \<Rightarrow> int \<Rightarrow> jsval" where
  "stats_object blockchainInfo miningInfo connectionCount t = JObj
     [(''blockHeight'', js_or (js_opt_get blockchainInfo ''blocks'') (jint 0)),
      (''difficulty'', js_or (js_opt_get blockchainInfo ''difficulty'') (jint 0)),
      (''chain'', js_or (js_opt_get blockchainInfo ''chain'') (JStr ''unknown'')),
      (''networkHashrate'', js_or (js_opt_get miningInfo ''networkhashps'') (jint 0)),
      (''connections'', js_or connectionCount (jint 0)),
      jstr_field ''lastUpdated'' (iso_string t)]"

text \<open>The \<open>catch\<close> block.\<close>

definition stats_catch :: "stats_cache option \<Rightarrow> response" where
  "stats_catch cache =
     (case cache of
        Some c \<Rightarrow> res_json 200 (js_spread_put (cache_data c) ''stale'' (JBool True))
      | None \<Rightarrow> res_error 503 ''Unable to fetch network stats'')"

definition cache_fresh :: "int \<Rightarrow> stats_cache option \<Rightarrow> bool" where
  "cache_fresh t cache =
     (case cache of None \<Rightarrow> False | Some c \<Rightarrow> t - cache_timestamp c < CACHE_TTL)"

definition stats_handler ::
  "config \<Rightarrow> network \<Rightarrow> int \<Rightarrow> int \<Rightarrow> int \<Rightarrow> stats_cache option \<Rightarrow>
     response \<times> stats_cache option \<times> fetch_request list" where
  "stats_handler cfg net t0 t1 t2 cache =
     (if cache_fresh t0 cache
      then (res_json 200 (cache_data (the cache)), cache, [])
      else
        (let sent = map (\<lambda>m. rpc_request cfg m (JArr [])) stats_methods
         in case promise_all (map (\<lambda>m. catch_null (stats_callRpc cfg net m)) stats_methods) of
              Inr [blockchainInfo, miningInfo, connectionCount] \<Rightarrow>
                (let stats = stats_object blockchainInfo miningInfo connectionCount t1
                 in (res_json 200 stats, Some \<lparr>cache_data = stats, cache_timestamp = t2\<rparr>, sent))
            | _ \<Rightarrow> (stats_catch cache, cache, sent)))"

declare stats_handler_def [handler_defs] stats_callRpc_def [handler_defs]

section \<open>Single requests\<close>

abbreviation call_or_null :: "config \<Rightarrow> network \<Rightarrow> string \<Rightarrow> jsval" where
  "call_or_null cfg net m \<equiv> (case stats_callRpc cfg net m of Inl _ \<Rightarrow> JNull | Inr v \<Rightarrow> v)"

lemma promise_all_catch:
  "promise_all (map (\<lambda>m. catch_null (f m)) ms) =
     Inr (map (\<lambda>m. case f m of Inl _ \<Rightarrow> JNull | Inr v \<Rightarrow> v) ms)"
  by (induction ms) (auto simp: catch_null_def split: sum.splits)

lemma stats_handler_refresh:
  assumes "\<not> cache_fresh t0 cache"
  shows "stats_handler cfg net t0 t1 t2 cache =
    (let stats = stats_object (call_or_null cfg net ''getblockchaininfo'')
                   (call_or_null cfg net ''getmininginfo'')
                   (call_or_null cfg net ''getconnectioncount'') t1
     in (res_json 200 stats, Some \<lparr>cache_data = stats, cache_timestamp = t2\<rparr>,
         map (\<lambda>m. rpc_request cfg m (JArr [])) stats_methods))"
  using assms unfolding stats_handler_def promise_all_catch
  by (simp add: stats_methods_def Let_def)

lemma stats_handler_cached:
  "cache_fresh t0 cache \<Longrightarrow>
     stats_handler cfg net t0 t1 t2 cache = (res_json 200 (cache_data (the cache)), cache, [])"
  by (simp add: stats_handler_def)

section \<open>Sequences of requests\<close>

text \<open>Requests served one after the other: the load they put on the node.\<close>

record stats_event =
  ev_net :: network
  ev_t0 :: int
  ev_t1 :: int
  ev_t2 :: int

fun stats_run ::
  "config \<Rightarrow> stats_event list \<Rightarrow> stats_cache option \<Rightarrow> stats_cache option \<times> fetch_request list" where
  "stats_run cfg [] cache = (cache, [])"
| "stats_run cfg (e # es) cache =
     (let (_, cache', sent) = stats_handler cfg (ev_net e) (ev_t0 e) (ev_t1 e) (ev_t2 e) cache;
          (cache'', sent') = stats_run cfg es cache'
      in (cache'', sent @ sent'))"

text \<open>The clock does not run backwards.\<close>

fun clock_ok :: "int \<Rightarrow> stats_event list \<Rightarrow> bool" where
  "clock_ok t [] = True"
| "clock_ok t (e # es) = (t \<le> ev_t0 e \<and> ev_t0 e \<le> ev_t2 e \<and> clock_ok (ev_t2 e) es)"

text \<open>The earliest time the next refresh can happen at.\<close>

definition next_refresh :: "int \<Rightarrow> stats_cache option \<Rightarrow> int" where
  "next_refresh t cache =
     (case cache of None \<Rightarrow> t | Some c \<Rightarrow> max t (cache_timestamp c + CACHE_TTL))"

lemma cache_fresh_iff: "cache_fresh t cache \<longleftrightarrow> t < next_refresh t cache"
  by (auto simp: cache_fresh_def next_refresh_def split: option.splits)

lemma clock_ok_mono: "clock_ok t es \<Longrightarrow> s \<le> t \<Longrightarrow> clock_ok s es"
  by (cases es) auto

lemma clock_ok_last: "clock_ok t es \<Longrightarrow> es \<noteq> [] \<Longrightarrow> t \<le> ev_t0 (last es)"
proof (induction es arbitrary: t)
  case (Cons e es)
  then show ?case by (cases es) fastforce+
qed simp

lemma stats_run_load:
  assumes "clock_ok t es"
    and "int (length (snd (stats_run cfg es cache))) > 0"
  shows "es \<noteq> [] \<and> int (length (snd (stats_run cfg es cache))) * CACHE_TTL
           \<le> 3 * (CACHE_TTL + (ev_t0 (last es) - next_refresh t cache))"
  using assms
proof (induction es arbitrary: t cache)
  case Nil
  then show ?case by simp
next
  case (Cons e es)
  let ?sent = "\<lambda>c es. int (length (snd (stats_run cfg es c)))"
  have ok: "clock_ok (ev_t2 e) es" "t \<le> ev_t0 e" "ev_t0 e \<le> ev_t2 e" using Cons.prems by auto
  have last: "es \<noteq> [] \<Longrightarrow> ev_t0 (last (e # es)) = ev_t0 (last es)" by simp
  show ?case
  proof (cases "cache_fresh (ev_t0 e) cache")
    case True
    then have eq: "?sent cache (e # es) = ?sent cache es"
      by (simp add: stats_handler_cached split: prod.splits)
    from Cons.prems(2) have pos: "?sent cache es > 0" by (simp only: eq)
    from Cons.IH [OF ok(1) pos] have "es \<noteq> []"
      and "?sent cache es * CACHE_TTL \<le> 3 * (CACHE_TTL + (ev_t0 (last es) - next_refresh (ev_t2 e) cache))"
      by auto
    moreover have "next_refresh t cache \<le> next_refresh (ev_t2 e) cache"
      using ok by (auto simp: next_refresh_def split: option.splits)
    ultimately show ?thesis unfolding eq by simp
  next
    case False
    then have due: "next_refresh t cache \<le> ev_t0 e"
      using ok by (auto simp: cache_fresh_iff next_refresh_def split: option.splits)
    obtain data where cache':
      "fst (snd (stats_handler cfg (ev_net e) (ev_t0 e) (ev_t1 e) (ev_t2 e) cache)) =
         Some \<lparr>cache_data = data, cache_timestamp = ev_t2 e\<rparr>"
      using False by (simp add: stats_handler_refresh Let_def)
    let ?c = "Some \<lparr>cache_data = data, cache_timestamp = ev_t2 e\<rparr>"
    have eq: "?sent cache (e # es) = 3 + ?sent ?c es"
      using False cache' by (simp add: stats_handler_refresh Let_def stats_methods_def split: prod.splits)
    show ?thesis
    proof (cases "?sent ?c es > 0")
      case True
      from Cons.IH [OF ok(1) True] have "es \<noteq> []"
        and "?sent ?c es * CACHE_TTL \<le> 3 * (CACHE_TTL + (ev_t0 (last es) - next_refresh (ev_t2 e) ?c))"
        by auto
      then show ?thesis using eq last due ok
        by (simp add: next_refresh_def CACHE_TTL_def)
    next
      case no: False
      have "ev_t0 e \<le> ev_t0 (last (e # es))"
        using ok clock_ok_last [OF ok(1)] by (cases "es = []") auto
      with eq no due show ?thesis by (simp add: CACHE_TTL_def)
    qed
  qed
qed

text \<open>The statistics one event would fetch.\<close>

definition stats_of :: "config \<Rightarrow> stats_event \<Rightarrow> jsval" where
  "stats_of cfg e =
     stats_object (call_or_null cfg (ev_net e) ''getblockchaininfo'')
       (call_or_null cfg (ev_net e) ''getmininginfo'')
       (call_or_null cfg (ev_net e) ''getconnectioncount'') (ev_t1 e)"

abbreviation stats_serve ::
  "config \<Rightarrow> stats_event \<Rightarrow> stats_cache option \<Rightarrow> response \<times> stats_cache option \<times> fetch_request list" where
  "stats_serve cfg e \<equiv> stats_handler cfg (ev_net e) (ev_t0 e) (ev_t1 e) (ev_t2 e)"

lemma stats_serve_refresh:
  "\<not> cache_fresh (ev_t0 e) cache \<Longrightarrow>
     stats_serve cfg e cache =
       (res_json 200 (stats_of cfg e), Some \<lparr>cache_data = stats_of cfg e, cache_timestamp = ev_t2 e\<rparr>,
        map (\<lambda>m. rpc_request cfg m (JArr [])) stats_methods)"
  by (simp add: stats_handler_refresh stats_of_def Let_def)

lemma stats_run_snoc:
  "stats_run cfg (es @ [e]) cache =
     (let (c, sent) = stats_run cfg es cache; (_, c', sent') = stats_serve cfg e c
      in (c', sent @ sent'))"
  by (induction es arbitrary: cache) (auto simp: Let_def split: prod.splits)

text \<open>What the cache holds was fetched by one of the requests served so far.\<close>

lemma stats_run_cache:
  "fst (stats_run cfg es None) = Some c \<Longrightarrow>
     \<exists>e \<in> set es. c = \<lparr>cache_data = stats_of cfg e, cache_timestamp = ev_t2 e\<rparr>"
proof (induction es arbitrary: c rule: rev_induct)
  case (snoc e es)
  obtain c0 sent where run: "stats_run cfg es None = (c0, sent)" by (cases "stats_run cfg es None")
  show ?case
  proof (cases "cache_fresh (ev_t0 e) c0")
    case True
    with snoc.prems run have "fst (stats_run cfg es None) = Some c"
      by (simp add: stats_run_snoc stats_handler_cached)
    with snoc.IH show ?thesis by auto
  next
    case False
    with snoc.prems run show ?thesis by (simp add: stats_run_snoc stats_serve_refresh)
  qed
qed simp

section \<open>Properties\<close>

text \<open>The statistics a visitor sees are fresh: after any sequence of requests to a server that
  started with an empty cache, the next request is answered with the statistics that it, or an
  earlier request that stored them less than 30 seconds ago, fetched from the node.\<close>

theorem stats_fresh:
  "\<exists>e' \<in> set (es @ [e]).
     fst (stats_serve cfg e (fst (stats_run cfg es None))) = res_json 200 (stats_of cfg e') \<and>
     (e' = e \<or> ev_t0 e - ev_t2 e' < CACHE_TTL)"
proof (cases "cache_fresh (ev_t0 e) (fst (stats_run cfg es None))")
  case True
  then obtain c where c: "fst (stats_run cfg es None) = Some c" "ev_t0 e - cache_timestamp c < CACHE_TTL"
    by (auto simp: cache_fresh_def split: option.splits)
  from stats_run_cache [OF c(1)] obtain e' where
    e': "e' \<in> set es" "c = \<lparr>cache_data = stats_of cfg e', cache_timestamp = ev_t2 e'\<rparr>" by blast
  with c True show ?thesis by (intro bexI [of _ e']) (auto simp: stats_handler_cached)
next
  case False
  then show ?thesis by (intro bexI [of _ e]) (simp_all add: stats_serve_refresh)
qed

text \<open>C30: The load on the node is bounded by the clock, not by the visitors: a sequence of requests,
  served one after the other from any cache, makes at most three calls and three more for every 30
  seconds between its start and its last request.\<close>

theorem stats_load_bound:
  assumes "clock_ok t es" and "es \<noteq> []"
  shows "int (length (snd (stats_run cfg es cache))) * CACHE_TTL \<le>
           3 * (CACHE_TTL + (ev_t0 (last es) - t))"
proof (cases "length (snd (stats_run cfg es cache)) = 0")
  case True
  with clock_ok_last [OF assms] show ?thesis by (simp add: CACHE_TTL_def)
next
  case False
  then have "int (length (snd (stats_run cfg es cache))) > 0" by simp
  from stats_run_load [OF assms(1) this]
  have "int (length (snd (stats_run cfg es cache))) * CACHE_TTL \<le>
      3 * (CACHE_TTL + (ev_t0 (last es) - next_refresh t cache))" by blast
  moreover have "t \<le> next_refresh t cache" by (auto simp: next_refresh_def split: option.splits)
  ultimately show ?thesis by simp
qed

text \<open>Two visits, a second apart.\<close>

definition two_visits :: "stats_event list" where
  "two_visits =
     map (\<lambda>t. \<lparr>ev_net = (\<lambda>_. FetchRejected), ev_t0 = t, ev_t1 = t + 1, ev_t2 = t + 2\<rparr>) [0, 1000]"

theorem stats_load_bound_witness:
  "clock_ok 0 two_visits \<and> two_visits \<noteq> [] \<and>
   int (length (snd (stats_run (load_config (\<lambda>_. None)) two_visits None))) * CACHE_TTL \<le> 3 * (CACHE_TTL + 1000)"
  using stats_load_bound [of 0 two_visits "load_config (\<lambda>_. None)" None] by (simp add: two_visits_def)

text \<open>C39: The statistics route always answers 200: every call to the node is caught on its own, so
  the \<open>catch\<close> block with the stale data and the 503 is never reached. An outage while the cache
  has expired is answered with zeros, and the zeros replace the good data in the cache.\<close>

theorem stats_outage_zeros:
  assumes "\<not> cache_fresh t0 cache" and "\<forall>m. net m = FetchRejected"
  shows "stats_handler cfg net t0 t1 t2 cache =
    (let zeros = JObj [(''blockHeight'', jint 0), (''difficulty'', jint 0), jstr_field ''chain'' ''unknown'',
                       (''networkHashrate'', jint 0), (''connections'', jint 0),
                       jstr_field ''lastUpdated'' (iso_string t1)]
     in (res_json 200 zeros, Some \<lparr>cache_data = zeros, cache_timestamp = t2\<rparr>,
         map (\<lambda>m. rpc_request cfg m (JArr [])) stats_methods)) \<and>
    (\<forall>net' s0 s1 s2 c. resp_status (fst (stats_handler cfg net' s0 s1 s2 c)) = 200)"
proof
  have "call_or_null cfg net m = JNull" for m using assms(2) by (simp add: stats_callRpc_def)
  then show "stats_handler cfg net t0 t1 t2 cache =
    (let zeros = JObj [(''blockHeight'', jint 0), (''difficulty'', jint 0), jstr_field ''chain'' ''unknown'',
                       (''networkHashrate'', jint 0), (''connections'', jint 0),
                       jstr_field ''lastUpdated'' (iso_string t1)]
     in (res_json 200 zeros, Some \<lparr>cache_data = zeros, cache_timestamp = t2\<rparr>,
         map (\<lambda>m. rpc_request cfg m (JArr [])) stats_methods))"
    by (simp add: stats_handler_refresh [OF assms(1)] stats_object_def js_or_def)
  show "\<forall>net' s0 s1 s2 c. resp_status (fst (stats_handler cfg net' s0 s1 s2 c)) = 200"
  proof (intro allI)
    fix net' s0 s1 s2 c
    show "resp_status (fst (stats_handler cfg net' s0 s1 s2 c)) = 200"
      by (cases "cache_fresh s0 c")
        (simp_all add: stats_handler_cached stats_handler_refresh Let_def)
  qed
qed

theorem stats_outage_zeros_witness:
  "js_opt_get (resp_body (fst (stats_handler (load_config (\<lambda>_. None)) (\<lambda>_. FetchRejected) 60000 60001 60002
     (Some \<lparr>cache_data = JObj [(''blockHeight'', jint 812345)], cache_timestamp = 0\<rparr>)))) ''blockHeight'' = jint 0"
proof -
  let ?c = "Some \<lparr>cache_data = JObj [(''blockHeight'', jint 812345)], cache_timestamp = 0\<rparr>"
  have "\<not> cache_fresh 60000 ?c" by (simp add: cache_fresh_def CACHE_TTL_def)
  from stats_outage_zeros [OF this, of "\<lambda>_. FetchRejected" "load_config (\<lambda>_. None)" 60001 60002] show ?thesis
    by (simp add: Let_def js_lookup_def)
qed

end
