(* ===== verification/App.thy ===== *)
theory App
  imports Content_Routes Stats_Route
begin

text \<open>
  \<open>backend/src/index.ts\<close>: the application. One request runs through the middlewares in the
  order the file installs them (CORS, the rate limiter, the body parsers), then through the health
  check and the mounted routers, and ends in the 404 handler; an error passed to \<open>next\<close> ends in
  the error handler. What Express and its middlewares decide (whether a path matches a mount point
  or a route, whether CORS answers a preflight, whether the limiter admits a client, what a body
  parses to) is a parameter; \<open>helmet\<close> only sets response headers and has no part in the model.
\<close>

section \<open>Express and its middlewares\<close>

record 'rl express =
  cors_answers :: "string \<Rightarrow> request \<Rightarrow> response option"
  rate_limit :: "rate_limit_config \<Rightarrow> 'rl \<Rightarrow> string \<Rightarrow> int \<Rightarrow> bool \<times> 'rl"
  json_body :: "string \<Rightarrow> request \<Rightarrow> js_error + jsval"
  urlencoded_body :: "string \<Rightarrow> request \<Rightarrow> js_error + jsval"
  mount_match :: "string \<Rightarrow> string \<Rightarrow> string option"
  route_match :: "string \<Rightarrow> string \<Rightarrow> (string \<times> string) list option"

text \<open>The state of the server process.\<close>

record ('db, 'rl) server =
  srv_db :: 'db
  srv_statsCache :: "stats_cache option"
  srv_limiter :: 'rl
  srv_authLimiter :: 'rl

text \<open>What the environment supplies while a request is served: the clock, the salt of a hash, the
  answers of the network.\<close>

record world =
  w_now :: int
  w_t1 :: int
  w_t2 :: int
  w_salt :: string
  w_net :: network

type_synonym 's outcome = "(js_error + response) \<times> fetch_request list \<times> 's"
type_synonym 's route = "http_method \<times> string \<times> (request \<Rightarrow> 's \<Rightarrow> 's outcome)"

section \<open>Routers\<close>

text \<open>A route that works on the database.\<close>

definition on_db ::
  "(request \<Rightarrow> 'db \<Rightarrow> (js_error + response) \<times> 'db) \<Rightarrow> request \<Rightarrow> ('db, 'rl) server \<Rightarrow>
     ('db, 'rl) server outcome" where
  "on_db f req s = (let (r, d') = f req (srv_db s) in (r, [], s\<lparr>srv_db := d'\<rparr>))"

definition stats_action ::
  "config \<Rightarrow> world \<Rightarrow> request \<Rightarrow> ('db, 'rl) server \<Rightarrow> ('db, 'rl) server outcome" where
  "stats_action cfg w req s =
     (let (resp, cache', sent) =
        stats_handler cfg (w_net w) (w_now w) (w_t1 w) (w_t2 w) (srv_statsCache s)
      in (Inr resp, sent, s\<lparr>srv_statsCache := cache'\<rparr>))"

definition rpc_action ::
  "'db env \<Rightarrow> config \<Rightarrow> world \<Rightarrow> request \<Rightarrow> ('db, 'rl) server \<Rightarrow> ('db, 'rl) server outcome" where
  "rpc_action E cfg w req s = (let (r, sent) = rpc_route E cfg (w_net w) req in (r, sent, s))"

definition authRoutes :: "'db env \<Rightarrow> config \<Rightarrow> world \<Rightarrow> ('db, 'rl) server route list" where
  "authRoutes E cfg w =
     [(POST, ''/register'', on_db (register_route E (w_salt w))),
      (POST, ''/login'', on_db (login_route E cfg (w_now w))),
      (POST, ''/refresh'', on_db (refresh_route E cfg (w_now w))),
      (GET, ''/me'', on_db (me_route E cfg (w_now w)))]"

definition downloadsRoutes :: "'db env \<Rightarrow> config \<Rightarrow> world \<Rightarrow> ('db, 'rl) server route list" where
  "downloadsRoutes E cfg w =
     [(GET, ''/'', on_db (downloads_list_route E)),
      (POST, ''/'', on_db (downloads_add_route E cfg (w_now w))),
      (DELETE, ''/:id'', on_db (downloads_delete_route E cfg (w_now w)))]"

text \<open>A \<open>router.get\<close> route also serves \<open>HEAD\<close>.\<close>

definition verb_matches :: "http_method \<Rightarrow> http_method \<Rightarrow> bool" where
  "verb_matches route m = (m = route \<or> (route = GET \<and> m = HEAD))"

text \<open>The first route whose verb and pattern match handles the request; \<^term>\<open>None\<close> is a router
  that calls \<open>next()\<close>.\<close>

fun dispatch ::
  "'rl express \<Rightarrow> 's route list \<Rightarrow> string \<Rightarrow> request \<Rightarrow> 's \<Rightarrow> 's outcome option" where
  "dispatch X [] rest req s = None"
| "dispatch X ((verb, pat, h) # rs) rest req s =
     (if verb_matches verb (req_method req)
      then (case route_match X pat rest of
              Some params \<Rightarrow> Some (h (req\<lparr>req_params := params\<rparr>) s)
            | None \<Rightarrow> dispatch X rs rest req s)
      else dispatch X rs rest req s)"

section \<open>The application\<close>

definition too_many_requests :: response where
  "too_many_requests = res_error 429 ''Too many requests, please try again later''"

definition too_many_logins :: response where
  "too_many_logins = res_error 429 ''Too many login attempts, please try again later''"

text \<open>The stricter limit in front of the authentication routes: 10 attempts in 15 minutes.\<close>

definition auth_limit_config :: rate_limit_config where
  "auth_limit_config = \<lparr>rl_windowMs = Fin (15 * 60 * 1000), rl_max = Fin 10\<rparr>"

definition authLimiter ::
  "'rl express \<Rightarrow> world \<Rightarrow> request \<Rightarrow> ('db, 'rl) server \<Rightarrow> response option \<times> ('db, 'rl) server" where
  "authLimiter X w req s =
     (let (ok, rl') = rate_limit X auth_limit_config (srv_authLimiter s) (req_ip req) (w_now w)
      in (if ok then None else Some too_many_logins, s\<lparr>srv_authLimiter := rl'\<rparr>))"

definition limiter ::
  "'rl express \<Rightarrow> config \<Rightarrow> world \<Rightarrow> request \<Rightarrow> ('db, 'rl) server \<Rightarrow>
     response option \<times> ('db, 'rl) server" where
  "limiter X cfg w req s =
     (let (ok, rl') = rate_limit X (cfg_rateLimit cfg) (srv_limiter s) (req_ip req) (w_now w)
      in (if ok then None else Some too_many_requests, s\<lparr>srv_limiter := rl'\<rparr>))"

definition no_limit :: "request \<Rightarrow> 's \<Rightarrow> response option \<times> 's" where
  "no_limit req s = (None, s)"

text \<open>The mounted routers, in the order of the file, each with what runs in front of it.\<close>

definition mounts ::
  "'rl express \<Rightarrow> 'db env \<Rightarrow> config \<Rightarrow> world \<Rightarrow>
     (string \<times> (request \<Rightarrow> ('db, 'rl) server \<Rightarrow> response option \<times> ('db, 'rl) server) \<times>
      ('db, 'rl) server route list) list" where
  "mounts X E cfg w =
     [(''/api/auth'', authLimiter X w, authRoutes E cfg w),
      (''/api/stats'', no_limit, [(GET, ''/'', stats_action cfg w)]),
      (''/api/newsletter'', no_limit, [(POST, ''/'', on_db (newsletter_route E))]),
      (''/api/contact'', no_limit, [(POST, ''/'', on_db (contact_route E))]),
      (''/api/downloads'', no_limit, downloadsRoutes E cfg w),
      (''/api/rpc'', no_limit, [(POST, ''/'', rpc_action E cfg w)])]"

definition not_found :: response where
  "not_found = res_error 404 ''Not found''"

fun run_mounts ::
  "'rl express \<Rightarrow>
     (string \<times> (request \<Rightarrow> 's \<Rightarrow> response option \<times> 's) \<times> 's route list) list \<Rightarrow>
     request \<Rightarrow> 's \<Rightarrow> 's outcome" where
  "run_mounts X [] req s = (Inr not_found, [], s)"
| "run_mounts X ((prefix, front, rs) # ms) req s =
     (case mount_match X prefix (req_path req) of
        None \<Rightarrow> run_mounts X ms req s
      | Some rest \<Rightarrow>
          (case front req s of
             (Some resp, s') \<Rightarrow> (Inr resp, [], s')
           | (None, s') \<Rightarrow>
               (case dispatch X rs rest req s' of
                  Some out \<Rightarrow> out
                | None \<Rightarrow> run_mounts X ms req s')))"

text \<open>The health check in front of the API routes.\<close>

definition health :: "world \<Rightarrow> response" where
  "health w = res_json 200 (JObj [jstr_field ''status'' ''ok'',
                                 jstr_field ''timestamp'' (iso_string (w_now w))])"

definition routed ::
  "'rl express \<Rightarrow> 'db env \<Rightarrow> config \<Rightarrow> world \<Rightarrow> request \<Rightarrow> ('db, 'rl) server \<Rightarrow>
     ('db, 'rl) server outcome" where
  "routed X E cfg w req s =
     (if verb_matches GET (req_method req) \<and> route_match X ''/health'' (req_path req) \<noteq> None
      then (Inr (health w), [], s)
      else run_mounts X (mounts X E cfg w) req s)"

text \<open>The two body parsers: a request whose body the first has parsed is left alone by the
  second, since the two read different content types.\<close>

definition parse_body :: "'rl express \<Rightarrow> request \<Rightarrow> js_error + request" where
  "parse_body X req =
     (case json_body X ''10kb'' req of
        Inl e \<Rightarrow> Inl e
      | Inr v \<Rightarrow>
          (case urlencoded_body X ''10kb'' (req\<lparr>req_body := v\<rparr>) of
             Inl e \<Rightarrow> Inl e
           | Inr v' \<Rightarrow> Inr (req\<lparr>req_body := v'\<rparr>)))"

text \<open>The error handler: whatever the error, the response is a 500.\<close>

definition error_handler :: "js_error \<Rightarrow> response" where
  "error_handler err = internal_error"

definition handle_request ::
  "'rl express \<Rightarrow> 'db env \<Rightarrow> config \<Rightarrow> world \<Rightarrow> request \<Rightarrow> ('db, 'rl) server \<Rightarrow>
     response \<times> fetch_request list \<times> ('db, 'rl) server" where
  "handle_request X E cfg w req s =
     (case cors_answers X (cfg_cors_origin cfg) req of
        Some resp \<Rightarrow> (resp, [], s)
      | None \<Rightarrow>
          (case limiter X cfg w req s of
             (Some resp, s') \<Rightarrow> (resp, [], s')
           | (None, s') \<Rightarrow>
               (case parse_body X req of
                  Inl e \<Rightarrow> (error_handler e, [], s')
                | Inr req' \<Rightarrow>
                    (case routed X E cfg w req' s' of
                       (Inr resp, sent, s'') \<Rightarrow> (resp, sent, s'')
                     | (Inl e, sent, s'') \<Rightarrow> (error_handler e, sent, s'')))))"

lemmas app_defs = routed_def mounts_def authRoutes_def downloadsRoutes_def

declare handle_request_def [handler_defs] app_defs [handler_defs]

section \<open>A rule for every request\<close>

text \<open>Two servers that differ in the state of the limiters only.\<close>

definition quiet :: "('db, 'rl) server \<Rightarrow> ('db, 'rl) server \<Rightarrow> bool" where
  "quiet s t \<longleftrightarrow> srv_db t = srv_db s \<and> srv_statsCache t = srv_statsCache s"

text \<open>Two requests of one client: the body the parsers have filled in and the parameters of the
  route aside, the actions see the request that came in.\<close>

definition same_client :: "request \<Rightarrow> request \<Rightarrow> bool" where
  "same_client r req \<longleftrightarrow> req_authorization r = req_authorization req \<and> req_ip r = req_ip req"

text \<open>
  The contract of a relation between the server before a request, what the request sends to the
  node, and the server after it: it allows doing nothing and does not look at the limiters. Such a
  relation holds of every request if it holds of every action of the routers.
\<close>

locale request_relation =
  fixes R :: "('db, 'rl) server \<Rightarrow> fetch_request list \<Rightarrow> ('db, 'rl) server \<Rightarrow> bool"
  assumes idle: "R s [] s"
    and limiters: "quiet s t \<Longrightarrow> R t sent u \<Longrightarrow> R s sent u"
begin

definition action_ok :: "(request \<Rightarrow> ('db, 'rl) server \<Rightarrow> ('db, 'rl) server outcome) \<Rightarrow> request \<Rightarrow> bool" where
  "action_ok h req \<longleftrightarrow> (\<forall>r s. same_client r req \<longrightarrow> R s (fst (snd (h r s))) (snd (snd (h r s))))"

definition router_ok :: "('db, 'rl) server route list \<Rightarrow> request \<Rightarrow> bool" where
  "router_ok rs req \<longleftrightarrow> (\<forall>route \<in> set rs. action_ok (snd (snd route)) req)"

definition front_ok :: "(request \<Rightarrow> ('db, 'rl) server \<Rightarrow> response option \<times> ('db, 'rl) server) \<Rightarrow> bool" where
  "front_ok f \<longleftrightarrow> (\<forall>req s. quiet s (snd (f req s)))"

lemma quiet_idle: "quiet s t \<Longrightarrow> R s [] t"
  using limiters idle by blast

lemma dispatch_ok:
  "router_ok rs req \<Longrightarrow> same_client r req \<Longrightarrow> dispatch X rs rest r s = Some (x, sent, t) \<Longrightarrow>
     R s sent t"
proof (induction rs)
  case (Cons route rs)
  obtain verb pat h where route: "route = (verb, pat, h)" by (cases route)
  from Cons.prems(1) have rest: "router_ok rs req" and "action_ok h req"
    by (auto simp: router_ok_def route)
  moreover have "same_client (r\<lparr>req_params := ps\<rparr>) req" for ps
    using Cons.prems(2) by (simp add: same_client_def)
  ultimately have act: "R s (fst (snd (h (r\<lparr>req_params := ps\<rparr>) s))) (snd (snd (h (r\<lparr>req_params := ps\<rparr>) s)))"
    for ps by (auto simp: action_ok_def)
  show ?case
  proof (cases "verb_matches verb (req_method r) \<and> route_match X pat rest \<noteq> None")
    case True
    with Cons.prems(3) obtain ps where "h (r\<lparr>req_params := ps\<rparr>) s = (x, sent, t)"
      by (auto simp: route)
    with act [of ps] show ?thesis by simp
  next
    case False
    with Cons.prems(3) have "dispatch X rs rest r s = Some (x, sent, t)"
      by (auto simp: route split: if_splits)
    with Cons.IH [OF rest Cons.prems(2)] show ?thesis by blast
  qed
qed simp

lemma run_mounts_ok:
  "(\<forall>m \<in> set ms. front_ok (fst (snd m)) \<and> router_ok (snd (snd m)) req) \<Longrightarrow> same_client r req \<Longrightarrow>
     run_mounts X ms r s = (x, sent, t) \<Longrightarrow> R s sent t"
proof (induction ms arbitrary: s)
  case Nil
  then show ?case by (simp add: idle)
next
  case (Cons m ms)
  obtain prefix front rs where m: "m = (prefix, front, rs)" by (cases m)
  have ok: "front_ok front" "router_ok rs req"
    and IH: "run_mounts X ms r u = (x, sent, t) \<Longrightarrow> R u sent t" for u
    using Cons by (auto simp: m)
  show ?case
  proof (cases "mount_match X prefix (req_path r)")
    case None
    with Cons.prems(3) IH show ?thesis by (simp add: m)
  next
    case (Some rest)
    obtain ro u where u: "front r s = (ro, u)" by (cases "front r s")
    with ok(1) have q: "quiet s u" unfolding front_ok_def by (metis snd_conv)
    show ?thesis
    proof (cases ro)
      case None
      with Cons.prems(3) Some u have "(case dispatch X rs rest r u of Some out \<Rightarrow> out
          | None \<Rightarrow> run_mounts X ms r u) = (x, sent, t)" by (simp add: m)
      then have "R u sent t"
        using dispatch_ok [OF ok(2) Cons.prems(2)] IH by (auto split: option.splits)
      with q show ?thesis by (rule limiters)
    next
      case (Some resp)
      with Cons.prems(3) u \<open>mount_match X prefix (req_path r) = Some rest\<close> q show ?thesis
        by (auto simp: m intro: quiet_idle)
    qed
  qed
qed

lemma fronts_ok: "front_ok (authLimiter X w)" "front_ok no_limit"
  by (auto simp: front_ok_def authLimiter_def no_limit_def quiet_def Let_def split: prod.splits)

lemma limiter_quiet: "limiter X cfg w req s = (r, t) \<Longrightarrow> quiet s t"
  by (auto simp: limiter_def quiet_def Let_def split: prod.splits)

lemma parse_body_client: "parse_body X req = Inr req' \<Longrightarrow> same_client req' req"
  by (auto simp: parse_body_def same_client_def split: sum.splits)

lemma routed_ok:
  assumes "\<forall>m \<in> set (mounts X E cfg w). router_ok (snd (snd m)) req"
    and "same_client r req" and "routed X E cfg w r s = (x, sent, t)"
  shows "R s sent t"
proof (cases "verb_matches GET (req_method r) \<and> route_match X ''/health'' (req_path r) \<noteq> None")
  case True
  with assms(3) show ?thesis by (auto simp: routed_def idle)
next
  case False
  with assms(3) have "run_mounts X (mounts X E cfg w) r s = (x, sent, t)"
    by (auto simp: routed_def)
  moreover have "\<forall>m \<in> set (mounts X E cfg w). front_ok (fst (snd m))"
    using fronts_ok by (simp add: mounts_def)
  ultimately show ?thesis using run_mounts_ok assms(1,2) by blast
qed

lemma handle_request_ok:
  assumes "\<forall>m \<in> set (mounts X E cfg w). router_ok (snd (snd m)) req"
    and "handle_request X E cfg w req s = (resp, sent, t)"
  shows "R s sent t"
proof (cases "cors_answers X (cfg_cors_origin cfg) req")
  case (Some r)
  with assms(2) show ?thesis by (auto simp: handle_request_def idle)
next
  case None
  obtain ro u where u: "limiter X cfg w req s = (ro, u)" by (cases "limiter X cfg w req s")
  then have q: "quiet s u" by (rule limiter_quiet)
  have run: "parse_body X req = Inr req' \<Longrightarrow> routed X E cfg w req' u = (x, sent, t) \<Longrightarrow> R u sent t"
    for req' x using routed_ok [OF assms(1)] parse_body_client by blast
  have "R u sent t \<or> (sent = [] \<and> t = u)"
    using assms(2) None u
    by (auto simp: handle_request_def dest: run split: option.splits sum.splits prod.splits)
  with q show ?thesis using limiters quiet_idle by blast
qed

end

end
