(* ===== verification/App_Safety.thy ===== *)
theory App_Safety
  imports App
begin

text \<open>
  What holds of every request to the application and of every sequence of requests: the database
  follows the abstract specification, the downloads change for administrators only, the node is
  asked for whitelisted methods only, and no sequence of requests creates an administrator.
\<close>

section \<open>The relations\<close>

definition db_rel ::
  "'db env \<Rightarrow> (string \<Rightarrow> bool) \<Rightarrow> (string \<Rightarrow> bool) \<Rightarrow> ('db \<Rightarrow> tables) \<Rightarrow> bool \<Rightarrow>
     ('db, 'rl) server \<Rightarrow> fetch_request list \<Rightarrow> ('db, 'rl) server \<Rightarrow> bool" where
  "db_rel E em ur view ok s sent t \<longleftrightarrow>
     (\<exists>eff. table_step E em ur (view (srv_db s)) eff (view (srv_db t)) \<and> (admin_effect eff \<longrightarrow> ok))"

definition whitelisted :: "fetch_request \<Rightarrow> bool" where
  "whitelisted f \<longleftrightarrow>
     (case requested_method f of JStr m \<Rightarrow> to_lower m \<in> set ALLOWED_METHODS | _ \<Rightarrow> False)"

definition sent_rel ::
  "('db, 'rl) server \<Rightarrow> fetch_request list \<Rightarrow> ('db, 'rl) server \<Rightarrow> bool" where
  "sent_rel s sent t \<longleftrightarrow> list_all whitelisted sent"

interpretation db: request_relation "db_rel E em ur view ok"
  for E :: "'db env" and em ur :: "string \<Rightarrow> bool" and view :: "'db \<Rightarrow> tables" and ok :: bool
proof unfold_locales
  fix s :: "('db, 'rl) server"
  show "db_rel E em ur view ok s [] s"
    unfolding db_rel_def by (intro exI [of _ NoEffect]) simp
next
  fix s t u :: "('db, 'rl) server" and sent
  assume "quiet s t" and "db_rel E em ur view ok t sent u"
  then show "db_rel E em ur view ok s sent u" by (simp add: db_rel_def quiet_def)
qed

interpretation sent: request_relation sent_rel
  by unfold_locales (auto simp: sent_rel_def)

section \<open>Every action\<close>

lemma claims_admin_client:
  "same_client r req \<Longrightarrow> claims_admin E cfg now r = claims_admin E cfg now req"
  by (simp add: claims_admin_def token_claims_def same_client_def)

lemma on_db_rel:
  assumes "\<And>r d x d'. same_client r req \<Longrightarrow> f r d = (x, d') \<Longrightarrow>
    \<exists>eff. table_step E em ur (view d) eff (view d') \<and> (admin_effect eff \<longrightarrow> ok)"
  shows "db.action_ok E em ur view ok (on_db f) req"
  unfolding db.action_ok_def
proof (intro allI impI)
  fix r and s :: "('a, 'b) server"
  assume "same_client r req"
  obtain x d' where "f r (srv_db s) = (x, d')" by (cases "f r (srv_db s)")
  with assms [OF \<open>same_client r req\<close> this]
  show "db_rel E em ur view ok s (fst (snd (on_db f r s))) (snd (snd (on_db f r s)))"
    by (simp add: db_rel_def on_db_def)
qed

lemma keeps_db_rel:
  assumes "\<And>r s. srv_db (snd (snd (h r s))) = srv_db s"
  shows "db.action_ok E em ur view ok h req"
  using assms by (auto simp: db.action_ok_def db_rel_def intro!: exI [of _ NoEffect])

lemma on_db_reading:
  "(\<And>r d. snd (f r d) = d) \<Longrightarrow> srv_db (snd (snd (on_db f r s))) = srv_db s"
  by (simp add: on_db_def Let_def case_prod_beta)

lemma mounts_db_rel:
  assumes be: "backend E view em ur"
  shows "\<forall>m \<in> set (mounts X E cfg w).
    db.router_ok E em ur view (claims_admin E cfg (w_now w) req) (snd (snd m)) req"
proof -
  let ?ok = "claims_admin E cfg (w_now w) req"
  note acts =
    on_db_rel [where ok = ?ok and req = req] keeps_db_rel [where ok = ?ok and req = req]
  have a1: "db.action_ok E em ur view ?ok (on_db (register_route E (w_salt w))) req"
    by (rule acts(1)) (blast dest: backend.register_route_step [OF be])
  have a2: "db.action_ok E em ur view ?ok (on_db (login_route E cfg (w_now w))) req"
    "db.action_ok E em ur view ?ok (on_db (refresh_route E cfg (w_now w))) req"
    "db.action_ok E em ur view ?ok (on_db (me_route E cfg (w_now w))) req"
    "db.action_ok E em ur view ?ok (on_db (downloads_list_route E)) req"
    by (intro acts(2) on_db_reading
        backend.read_routes_db [OF be] backend.downloads_list_db [OF be])+
  have a3: "db.action_ok E em ur view ?ok (on_db (newsletter_route E)) req"
    by (rule acts(1)) (blast dest: backend.newsletter_route_step [OF be])
  have a4: "db.action_ok E em ur view ?ok (on_db (contact_route E)) req"
    by (rule acts(1)) (blast dest: backend.contact_route_step [OF be])
  have a5: "db.action_ok E em ur view ?ok (on_db (downloads_add_route E cfg (w_now w))) req"
    by (rule acts(1))
      (drule backend.downloads_add_step [OF be], simp add: claims_admin_client [of _ req])
  have a6: "db.action_ok E em ur view ?ok (on_db (downloads_delete_route E cfg (w_now w))) req"
    by (rule acts(1))
      (drule backend.downloads_delete_step [OF be], simp add: claims_admin_client [of _ req])
  have a7: "db.action_ok E em ur view ?ok (stats_action cfg w) req"
    by (rule acts(2)) (simp add: stats_action_def Let_def split: prod.splits)
  have a8: "db.action_ok E em ur view ?ok (rpc_action E cfg w) req"
    by (rule acts(2)) (simp add: rpc_action_def Let_def split: prod.splits)
  show ?thesis
    using a1 a2 a3 a4 a5 a6 a7 a8
    by (simp add: mounts_def authRoutes_def downloadsRoutes_def db.router_ok_def)
qed

lemma request_effect:
  assumes "backend E view em ur" and "handle_request X E cfg w req s = (resp, sent, t)"
  shows "\<exists>eff. table_step E em ur (view (srv_db s)) eff (view (srv_db t)) \<and>
           (admin_effect eff \<longrightarrow> claims_admin E cfg (w_now w) req)"
  using db.handle_request_ok [OF mounts_db_rel [OF assms(1)] assms(2)] by (simp add: db_rel_def)

lemma on_db_sent: "sent.action_ok (on_db f) req"
  by (simp add: sent.action_ok_def sent_rel_def on_db_def Let_def split: prod.splits)

lemma whitelisted_request: "to_lower m \<in> set ALLOWED_METHODS \<Longrightarrow> whitelisted (rpc_request cfg m ps)"
  by (simp add: whitelisted_def)

lemma stats_methods_allowed: "m \<in> set stats_methods \<Longrightarrow> to_lower m \<in> set ALLOWED_METHODS"
  by (auto simp: stats_methods_def ALLOWED_METHODS_def to_lower_def char_lower_def)

lemma stats_sent: "sent.action_ok (stats_action cfg w) req"
proof -
  have "list_all whitelisted (map (\<lambda>m. rpc_request cfg m (JArr [])) stats_methods)"
    by (auto simp: list_all_iff intro: whitelisted_request stats_methods_allowed)
  then have "list_all whitelisted (snd (snd (stats_handler cfg net t0 t1 t2 cache)))"
    for net t0 t1 t2 cache
    by (cases "cache_fresh t0 cache")
      (simp_all add: stats_handler_cached stats_handler_refresh Let_def)
  then show ?thesis
    by (simp add: sent.action_ok_def sent_rel_def stats_action_def Let_def case_prod_beta)
qed

lemma rpc_sent: "sent.action_ok (rpc_action E cfg w) req"
  unfolding sent.action_ok_def sent_rel_def list_all_iff
proof (intro allI impI ballI)
  fix r and s :: "('a, 'b) server" and f
  assume "f \<in> set (fst (snd (rpc_action E cfg w r s)))"
  moreover obtain x sent where "rpc_route E cfg (w_net w) r = (x, sent)"
    by (cases "rpc_route E cfg (w_net w) r")
  ultimately show "whitelisted f"
    using rpc_route_sent whitelisted_request by (fastforce simp: rpc_action_def)
qed

lemma request_sends_whitelisted:
  assumes "handle_request X E cfg w req s = (resp, sent, t)"
  shows "list_all whitelisted sent"
proof -
  have "\<forall>m \<in> set (mounts X E cfg w). sent.router_ok (snd (snd m)) req"
    by (simp add: mounts_def authRoutes_def downloadsRoutes_def sent.router_ok_def
        on_db_sent stats_sent rpc_sent)
  from sent.handle_request_ok [OF this assms] show ?thesis by (simp add: sent_rel_def)
qed

section \<open>Sequences of requests\<close>

text \<open>
  The tokens the server could sign for the users it has: an access token and a refresh token for
  each. An attacker is granted all of them, from every point in time so far; what no attacker can
  do is present a token that verifies and was never signed.
\<close>

definition issuable :: "'db env \<Rightarrow> config \<Rightarrow> int \<Rightarrow> tables \<Rightarrow> string set" where
  "issuable E cfg now t =
     {tok. \<exists>u \<in> set (users t).
        jwt_sign E (access_claims u) (jwt_secret (cfg_jwt cfg)) ''15m'' now = Inr tok \<or>
        jwt_sign E (refresh_claims u) (jwt_refreshSecret (cfg_jwt cfg)) ''7d'' now = Inr tok}"

definition feasible :: "'db env \<Rightarrow> config \<Rightarrow> int \<Rightarrow> string set \<Rightarrow> request \<Rightarrow> bool" where
  "feasible E cfg now known req \<longleftrightarrow>
     (\<forall>h p. req_authorization req = Some h \<longrightarrow> token_claims E cfg now req = Some p \<longrightarrow>
        (\<exists>tok \<in> known. bearer_token h = JStr tok))"

inductive api_run ::
  "'rl express \<Rightarrow> 'db env \<Rightarrow> config \<Rightarrow> ('db \<Rightarrow> tables) \<Rightarrow> ('db, 'rl) server \<Rightarrow>
     ('db, 'rl) server \<Rightarrow> string set \<Rightarrow> bool"
  for X :: "'rl express" and E :: "'db env" and cfg :: config and view :: "'db \<Rightarrow> tables"
    and s0 :: "('db, 'rl) server" where
  start: "api_run X E cfg view s0 s0 {}"
| request:
    "api_run X E cfg view s0 s known \<Longrightarrow>
     known' = known \<union> issuable E cfg (w_now w) (view (srv_db s)) \<Longrightarrow>
     feasible E cfg (w_now w) known' req \<Longrightarrow>
     handle_request X E cfg w req s = (resp, sent, t) \<Longrightarrow>
     api_run X E cfg view s0 t known'"

definition signed_for_users :: "'db env \<Rightarrow> tables \<Rightarrow> string set \<Rightarrow> bool" where
  "signed_for_users E t known \<longleftrightarrow>
     (\<forall>tok \<in> known. \<exists>u \<in> set (users t). \<exists>c s x now.
        (c = access_claims u \<or> c = refresh_claims u) \<and> jwt_sign E c s x now = Inr tok)"

lemma signed_for_users_issuable: "signed_for_users E t (issuable E cfg now t)"
  unfolding signed_for_users_def issuable_def by blast

lemma signed_for_users_mono:
  "signed_for_users E t known \<Longrightarrow> set (users t) \<subseteq> set (users t') \<Longrightarrow> signed_for_users E t' known"
  unfolding signed_for_users_def by (intro ballI) (drule bspec, assumption, erule bexE, rule bexI, auto)

lemma signed_for_users_Un:
  "signed_for_users E t (A \<union> B) \<longleftrightarrow> signed_for_users E t A \<and> signed_for_users E t B"
  unfolding signed_for_users_def by (rule ball_Un)

lemma api_run_signed:
  assumes "backend E view em ur" and "api_run X E cfg view s0 s known"
  shows "signed_for_users E (view (srv_db s)) known"
  using assms(2)
proof induction
  case start
  then show ?case by (simp add: signed_for_users_def)
next
  case (request s known known' w req resp sent t)
  from request_effect [OF assms(1) request.hyps(4)] obtain eff where
    "table_step E em ur (view (srv_db s)) eff (view (srv_db t))" by blast
  note users = table_step_users [OF this]
  have "signed_for_users E (view (srv_db s)) known'"
    using request.IH request.hyps(2) by (simp add: signed_for_users_Un signed_for_users_issuable)
  then show ?case using users by (rule signed_for_users_mono)
qed

text \<open>The claims of a feasible request are those of a user the table has.\<close>

lemma feasible_admin:
  assumes "jwt_faithful E" and "feasible E cfg now known req"
    and "signed_for_users E t known" and "claims_admin E cfg now req"
  shows "\<exists>u \<in> set (users t). user_role u = ''ADMIN'' \<and>
           (\<exists>p. token_claims E cfg now req = Some p \<and> js_opt_get p ''userId'' = JStr (user_id u))"
proof -
  from assms(4) obtain p where p: "token_claims E cfg now req = Some p"
    and role: "js_opt_get p ''role'' = JStr ''ADMIN''" by (auto simp: claims_admin_def)
  then obtain h where h: "req_authorization req = Some h"
    and ver: "jwt_verify E (bearer_token h) (jwt_secret (cfg_jwt cfg)) now = Inr p"
    by (auto simp: token_claims_def split: option.splits if_splits sum.splits)
  from assms(2) h p obtain tok where tok: "tok \<in> known" "bearer_token h = JStr tok"
    by (auto simp: feasible_def)
  from assms(3) tok(1) obtain u c s x t0 where u: "u \<in> set (users t)"
    and c: "c = access_claims u \<or> c = refresh_claims u" and sg: "jwt_sign E c s x t0 = Inr tok"
    unfolding signed_for_users_def by blast
  from ver tok(2) have "jwt_verify E (JStr tok) (jwt_secret (cfg_jwt cfg)) now = Inr p" by simp
  from assms(1) [unfolded jwt_faithful_def, rule_format, OF sg this]
  have eq: "js_opt_get p ''userId'' = js_opt_get c ''userId''"
      "js_opt_get p ''role'' = js_opt_get c ''role''" by auto
  from eq(2) role c have "c = access_claims u" "user_role u = ''ADMIN''"
    by (auto simp: access_claims_def refresh_claims_def js_lookup_def)
  with u p eq(1) show ?thesis by (auto simp: access_claims_def js_lookup_def)
qed

lemma api_run_inv:
  assumes "backend E view em ur" and "api_run X E cfg view s0 s known"
    and "db_inv E em ur (view (srv_db s0))"
  shows "db_inv E em ur (view (srv_db s))"
  using assms(2)
proof induction
  case (request s known known' w req resp sent t)
  from request_effect [OF assms(1) request.hyps(4)] obtain eff where
    "table_step E em ur (view (srv_db s)) eff (view (srv_db t))" by blast
  from table_step_inv [OF this request.IH] show ?case .
qed (rule assms(3))

lemma api_run_admins:
  assumes "backend E view em ur" and "api_run X E cfg view s0 s known"
  shows "admins (view (srv_db s)) = admins (view (srv_db s0))"
  using assms(2)
proof induction
  case (request s known known' w req resp sent t)
  from request_effect [OF assms(1) request.hyps(4)] obtain eff where
    "table_step E em ur (view (srv_db s)) eff (view (srv_db t))" by blast
  from table_step_admins [OF this] request.IH show ?case by simp
qed simp

lemma api_run_downloads:
  assumes be: "backend E view em ur" and jwt: "jwt_faithful E"
    and "api_run X E cfg view s0 s known" and none: "admins (view (srv_db s0)) = {}"
  shows "downloads (view (srv_db s)) = downloads (view (srv_db s0))"
  using assms(3)
proof induction
  case (request s known known' w req resp sent t)
  from request_effect [OF be request.hyps(4)] obtain eff where
    eff: "table_step E em ur (view (srv_db s)) eff (view (srv_db t))"
    and adm: "admin_effect eff \<longrightarrow> claims_admin E cfg (w_now w) req" by blast
  have "\<not> claims_admin E cfg (w_now w) req"
  proof
    assume "claims_admin E cfg (w_now w) req"
    moreover have "signed_for_users E (view (srv_db s)) known'"
      using api_run_signed [OF be request.hyps(1)] request.hyps(2)
      by (simp add: signed_for_users_Un signed_for_users_issuable)
    ultimately obtain u where "u \<in> admins (view (srv_db s))"
      using feasible_admin [OF jwt request.hyps(3)] by (auto simp: admins_def)
    with api_run_admins [OF be request.hyps(1)] none show False by simp
  qed
  with adm have "\<not> admin_effect eff" by blast
  with table_step_downloads [OF eff] request.IH show ?case by simp
qed simp

end
