(* ===== verification/Reference_Env.thy ===== *)
theory Reference_Env
  imports App_Safety
begin

text \<open>
  Concrete libraries that satisfy what the development assumes of them, so that the assumptions
  can hold together and the model can be run: the in-memory store, the reference Zod parser, a
  token scheme with the claims, the secret and the expiry in the token, a hash that keeps the
  password, and an Express with literal path matching and a fixed-window limiter.
\<close>

section \<open>Tokens\<close>

text \<open>A string as letters only, two per character.\<close>

definition nibbles :: "string \<Rightarrow> string" where
  "nibbles s = concat (map (\<lambda>c. let n = (of_char c :: nat)
                                in [char_of (97 + n div 16), char_of (97 + n mod 16)]) s)"

fun unnibbles :: "string \<Rightarrow> string" where
  "unnibbles (a # b # s) =
     char_of (16 * ((of_char a :: nat) - 97) + ((of_char b :: nat) - 97)) # unnibbles s"
| "unnibbles _ = []"

definition ref_expiry :: "string \<Rightarrow> int \<Rightarrow> nat" where
  "ref_expiry x t = nat (t div 1000 + span_seconds x)"

definition ref_token :: "string list \<Rightarrow> string" where
  "ref_token fs = join_with ''.'' (map nibbles fs)"

definition ref_sign :: "jsval \<Rightarrow> string \<Rightarrow> string \<Rightarrow> int \<Rightarrow> js_error + string" where
  "ref_sign p s x t =
     (if t < 0 \<or> s = [] then Inl (LibraryError ''sign'')
      else case p of
        JObj [(k1, JStr u), (k2, JStr r)] \<Rightarrow>
          if k1 = ''userId'' \<and> k2 = ''role'' then Inr (ref_token [show_nat (ref_expiry x t), s, u, r])
          else Inl (LibraryError ''sign'')
      | JObj [(k1, JStr u)] \<Rightarrow>
          if k1 = ''userId'' then Inr (ref_token [show_nat (ref_expiry x t), s, u])
          else Inl (LibraryError ''sign'')
      | _ \<Rightarrow> Inl (LibraryError ''sign''))"

definition ref_verify :: "jsval \<Rightarrow> string \<Rightarrow> int \<Rightarrow> js_error + jsval" where
  "ref_verify v s now =
     (case v of
        JStr tok \<Rightarrow>
          (case map unnibbles (split_on (CHR ''.'') tok) of
             expiry # s' # u # rest \<Rightarrow>
               if s' \<noteq> s \<or> int (digits_value expiry) \<le> now div 1000
               then Inl (LibraryError ''JsonWebTokenError'')
               else Inr (JObj (jstr_field ''userId'' u #
                      (case rest of r # _ \<Rightarrow> [jstr_field ''role'' r] | [] \<Rightarrow> [])))
           | _ \<Rightarrow> Inl (LibraryError ''JsonWebTokenError''))
      | _ \<Rightarrow> Inl (LibraryError ''JsonWebTokenError''))"

section \<open>Hashes\<close>

definition ref_hash :: "jsval \<Rightarrow> nat \<Rightarrow> string \<Rightarrow> js_error + string" where
  "ref_hash v rounds salt =
     (case v of JStr p \<Rightarrow> Inr (nibbles salt @ ''$'' @ nibbles p)
      | _ \<Rightarrow> Inl (LibraryError ''Illegal arguments''))"

definition ref_compare :: "jsval \<Rightarrow> string \<Rightarrow> js_error + bool" where
  "ref_compare v h =
     (case v of JStr p \<Rightarrow> Inr (dropWhile (\<lambda>c. c \<noteq> CHR ''$'') h = ''$'' @ nibbles p)
      | _ \<Rightarrow> Inl (LibraryError ''Illegal arguments''))"

text \<open>Texts with an at sign are addresses, texts that start with the scheme are URLs.\<close>

definition ref_email :: "string \<Rightarrow> bool" where
  "ref_email s = (CHR ''@'' \<in> set s)"

definition ref_url :: "string \<Rightarrow> bool" where
  "ref_url s = starts_with s ''https://''"

definition ref_env :: "mem env" where
  "ref_env =
     \<lparr>prisma = mem_prisma, zod_parse = zod_reference ref_email ref_url,
      bcrypt_hash = ref_hash, bcrypt_compare = ref_compare,
      jwt_sign = ref_sign, jwt_verify = ref_verify\<rparr>"

section \<open>Express\<close>

type_synonym windows = "(string \<times> int \<times> nat) list"

text \<open>A fixed window per client: it opens with the first hit and closes after its length.\<close>

definition ref_limit :: "rate_limit_config \<Rightarrow> windows \<Rightarrow> string \<Rightarrow> int \<Rightarrow> bool \<times> windows" where
  "ref_limit cfg ws ip now =
     (let inside = (\<lambda>opened. case rl_windowMs cfg of Fin q \<Rightarrow> of_int (now - opened) < q | _ \<Rightarrow> True);
          allowed = (\<lambda>n. case rl_max cfg of Fin q \<Rightarrow> of_nat n \<le> q | _ \<Rightarrow> True);
          (opened, hits) = (case map_of ws ip of
             Some (opened, n) \<Rightarrow> if inside opened then (opened, n + 1) else (now, 1)
           | None \<Rightarrow> (now, 1))
      in (allowed hits, AList.update ip (opened, hits) ws))"

definition ref_mount :: "string \<Rightarrow> string \<Rightarrow> string option" where
  "ref_mount prefix path =
     (if starts_with path prefix
      then (case drop (length prefix) path of
              [] \<Rightarrow> Some ''/'' | c # cs \<Rightarrow> if c = CHR ''/'' then Some (c # cs) else None)
      else None)"

definition ref_route :: "string \<Rightarrow> string \<Rightarrow> (string \<times> string) list option" where
  "ref_route pat path =
     (if pat = ''/:id''
      then (case path of c # cs \<Rightarrow>
              if c = CHR ''/'' \<and> cs \<noteq> [] \<and> CHR ''/'' \<notin> set cs then Some [(''id'', cs)] else None
            | [] \<Rightarrow> None)
      else if path = pat then Some [] else None)"

definition ref_express :: "windows express" where
  "ref_express =
     \<lparr>cors_answers = (\<lambda>origin req. if req_method req = OPTIONS then Some (res_json 204 JUndefined) else None),
      rate_limit = ref_limit,
      json_body = (\<lambda>limit req. if req_raw req = ''{'' then Inl SyntaxError else Inr (req_body req)),
      urlencoded_body = (\<lambda>limit req. Inr (req_body req)),
      mount_match = ref_mount, route_match = ref_route\<rparr>"

lemma ref_env_sel [env_simps]:
  "prisma ref_env = mem_prisma" "zod_parse ref_env = zod_reference ref_email ref_url"
  "bcrypt_hash ref_env = ref_hash" "bcrypt_compare ref_env = ref_compare"
  "jwt_sign ref_env = ref_sign" "jwt_verify ref_env = ref_verify"
  by (simp_all add: ref_env_def)

lemmas ref_defs =
  ref_express_def ref_hash_def ref_compare_def ref_sign_def ref_verify_def ref_email_def
  ref_url_def ref_limit_def ref_mount_def ref_route_def zod_reference_def

declare ref_defs [env_simps]

section \<open>They satisfy the assumptions\<close>

lemma unnibbles_nibbles [simp]: "unnibbles (nibbles s) = s"
proof (induction s)
  case (Cons c s)
  have "of_char c div 16 < (16::nat)"
    using of_char_less [of c] by (intro less_mult_imp_div_less) simp
  then have "unnibbles (nibbles (c # s)) = char_of (of_char c :: nat) # unnibbles (nibbles s)"
    by (simp add: nibbles_def Let_def)
  with Cons show ?case by simp
qed (simp add: nibbles_def)

lemma nibbles_letters:
  assumes "c \<in> set (nibbles s)"
  shows "97 \<le> (of_char c :: nat)"
proof -
  from assms obtain d where d: "c = char_of (97 + (of_char d :: nat) div 16) \<or>
      c = char_of (97 + (of_char d :: nat) mod 16)"
    by (auto simp: nibbles_def Let_def)
  have "(of_char d :: nat) div 16 < 16"
    using of_char_less [of d] by (intro less_mult_imp_div_less) simp
  with d show ?thesis by auto
qed

lemma nibbles_clean: "CHR ''.'' \<notin> set (nibbles s)" "CHR '' '' \<notin> set (nibbles s)"
    "CHR ''$'' \<notin> set (nibbles s)"
  using nibbles_letters by fastforce+

lemma split_ref_token:
  "fs \<noteq> [] \<Longrightarrow> map unnibbles (split_on (CHR ''.'') (ref_token fs)) = fs"
proof (induction fs rule: list_nonempty_induct)
  case (single f)
  have "c \<notin> set w \<Longrightarrow> split_on c w = [w]" for c and w :: string by (induction w) auto
  then show ?case by (simp add: ref_token_def nibbles_clean)
next
  case (cons f fs)
  have "c \<notin> set w \<Longrightarrow> split_on c (w @ c # v) = w # split_on c v" for c and w v :: string
    by (induction w) auto
  with cons show ?case
    by (cases fs) (simp_all add: ref_token_def nibbles_clean)
qed

lemma ref_token_no_space: "CHR '' '' \<notin> set (ref_token fs)"
  unfolding ref_token_def
  by (induction fs rule: induct_list012) (auto simp: nibbles_clean)

lemma ref_sign_cases:
  assumes "ref_sign p s x t = Inr tok"
  obtains u r where "p = JObj [jstr_field ''userId'' u, jstr_field ''role'' r]" "0 \<le> t"
      "tok = ref_token [show_nat (ref_expiry x t), s, u, r]"
  | u where "p = JObj [jstr_field ''userId'' u]" "0 \<le> t"
      "tok = ref_token [show_nat (ref_expiry x t), s, u]"
  using assms that
  by (auto simp: ref_sign_def split: if_splits jsval.splits list.splits prod.splits)

lemma span_seconds_nonneg: "0 \<le> span_seconds x"
  by (simp add: span_seconds_def)

lemma ref_verify_signed:
  assumes "ref_sign p s x t = Inr tok"
  shows "ref_verify (JStr tok) s' t' =
    (if s' = s \<and> t' div 1000 < t div 1000 + span_seconds x then Inr p
     else Inl (LibraryError ''JsonWebTokenError''))"
  using assms
proof (cases rule: ref_sign_cases)
  case (1 u r)
  then have "0 \<le> t div 1000 + span_seconds x" using span_seconds_nonneg [of x] by simp
  with 1 show ?thesis by (auto simp: ref_verify_def split_ref_token ref_expiry_def)
next
  case (2 u)
  then have "0 \<le> t div 1000 + span_seconds x" using span_seconds_nonneg [of x] by simp
  with 2 show ?thesis by (auto simp: ref_verify_def split_ref_token ref_expiry_def)
qed

lemma ref_jwt_faithful [simp]: "jwt_faithful ref_env"
  unfolding jwt_faithful_def
  by (auto simp: ref_env_def ref_verify_signed split: if_splits)

lemma ref_jwt_expires [simp]: "jwt_expires ref_env"
  unfolding jwt_expires_def
  by (auto simp: ref_env_def ref_verify_signed split: if_splits)

lemma ref_jwt_lives [simp]: "jwt_lives ref_env"
proof -
  have "ref_sign p s x t = Inr tok \<Longrightarrow> \<exists>ps. p = JObj ps" for p s x t tok
    by (erule ref_sign_cases) auto
  moreover have "\<lbrakk>0 \<le> t; s \<noteq> []\<rbrakk> \<Longrightarrow>
      (\<exists>tok. ref_sign (JObj [jstr_field ''userId'' uid, jstr_field ''role'' rl]) s x t = Inr tok) \<and>
      (\<exists>tok. ref_sign (JObj [jstr_field ''userId'' uid]) s x t = Inr tok)" for uid rl s x t
    by (simp add: ref_sign_def)
  ultimately show ?thesis
    by (simp add: jwt_lives_def ref_env_def ref_verify_signed)
qed

lemma ref_jwt_compact [simp]: "jwt_compact ref_env"
  unfolding jwt_compact_def
  by (auto simp: ref_env_def ref_token_no_space elim!: ref_sign_cases)

lemma ref_bcrypt_correct [simp]: "bcrypt_correct ref_env"
proof -
  have "dropWhile (\<lambda>c. c \<noteq> CHR ''$'') (nibbles s @ CHR ''$'' # w) = CHR ''$'' # w" for s w
    using nibbles_clean(3) [of s] by (subst dropWhile_append2) auto
  then show ?thesis
    unfolding bcrypt_correct_def by (auto simp: ref_env_def ref_hash_def ref_compare_def)
qed

interpretation ref: backend ref_env mem_tables ref_email ref_url
  by unfold_locales (simp_all add: ref_env_def mem.prisma_client_axioms [unfolded prisma_client_def])

section \<open>Sample data\<close>

definition sample_config :: config where
  "sample_config = load_config (\<lambda>_. None)"

definition sample_user :: "string \<Rightarrow> string \<Rightarrow> user" where
  "sample_user i rl =
     \<lparr>user_id = i, user_email = i @ ''@hylium.org'', user_password = ''$'' @ nibbles ''correct horse'',
      user_role = rl, user_createdAt = 0, user_updatedAt = 0\<rparr>"

definition sample_download :: download where
  "sample_download =
     \<lparr>dl_id = ''d1'', dl_name = ''Hylium Core'', dl_version = ''1.0'', dl_platform = ''linux'',
      dl_url = ''https://hylium.org/dl'', dl_checksum = None, dl_createdAt = 0, dl_updatedAt = 0\<rparr>"

definition sample_mem :: "user list \<Rightarrow> mem" where
  "sample_mem us =
     \<lparr>mem_tables = empty_tables\<lparr>users := us, downloads := [sample_download]\<rparr>, mem_clock = 0\<rparr>"

definition sample_server :: "user list \<Rightarrow> (mem, windows) server" where
  "sample_server us =
     \<lparr>srv_db = sample_mem us, srv_statsCache = None, srv_limiter = [], srv_authLimiter = []\<rparr>"

definition sample_world :: world where
  "sample_world =
     \<lparr>w_now = 1000000, w_t1 = 1000001, w_t2 = 1000002, w_salt = ''salt'', w_net = (\<lambda>_. FetchRejected)\<rparr>"

definition sample_request :: "http_method \<Rightarrow> string \<Rightarrow> jsval \<Rightarrow> request" where
  "sample_request m path body =
     \<lparr>req_method = m, req_path = path, req_ip = ''127.0.0.1'', req_authorization = None, req_raw = [],
      req_body = body, req_params = [], req_userId = JUndefined, req_userRole = JUndefined\<rparr>"

lemmas sample_defs =
  sample_config_def sample_user_def sample_download_def sample_mem_def sample_server_def
  sample_world_def sample_request_def load_config_def env_or_def

declare sample_defs [env_simps]

end
