(* ===== verification/Session_Life.thy ===== *)
theory Session_Life
  imports Reference_Env
begin

text \<open>
  The life of a session: what a registration, a login, a refresh and the use of a token amount to
  together. The locale \<open>live_backend\<close> adds to \<open>backend\<close> that the libraries are
  available: the database answers, a hash can be checked against its password, a token can be
  signed and verifies until it expires.
\<close>

locale live_backend = backend E view em ur + prisma_available "prisma E" view
  for E :: "'db env" and view :: "'db \<Rightarrow> tables" and em ur :: "string \<Rightarrow> bool" +
  assumes hashing: "bcrypt_correct E"
    and tokens_live: "jwt_lives E"
    and tokens_faithful: "jwt_faithful E"
    and tokens_compact: "jwt_compact E"

text \<open>The body of a registration or a login.\<close>

definition credentials :: "string \<Rightarrow> string \<Rightarrow> jsval" where
  "credentials e p = JObj [jstr_field ''email'' e, jstr_field ''password'' p]"

lemma credentials_fields [simp]:
  "js_get (credentials e p) ''email'' = Inr (JStr e)"
  "js_get (credentials e p) ''password'' = Inr (JStr p)"
  by (simp_all add: credentials_def js_lookup_def)

lemma credentials_register:
  "zod_accepts em ur schemas_register (credentials e p) \<longleftrightarrow> em e \<and> 8 \<le> length p"
  by (auto simp: accepts_register credentials_def js_lookup_def)

lemma credentials_login:
  "zod_accepts em ur schemas_login (credentials e p) \<longleftrightarrow> em e \<and> p \<noteq> []"
  by (auto simp: accepts_login credentials_def js_lookup_def)

text \<open>The secrets of a configuration are never empty.\<close>

lemma load_config_secrets [simp]:
  "jwt_secret (cfg_jwt (load_config penv)) \<noteq> []"
  "jwt_refreshSecret (cfg_jwt (load_config penv)) \<noteq> []"
  by (auto simp: load_config_def env_or_def split: option.splits)

text \<open>A request that presents a token.\<close>

definition with_token :: "request \<Rightarrow> string \<Rightarrow> request" where
  "with_token req tok = req\<lparr>req_authorization := Some (''Bearer '' @ tok)\<rparr>"

lemma token_claims_with_token:
  "CHR '' '' \<notin> set tok \<Longrightarrow>
     token_claims E cfg now (with_token req tok) =
       (case jwt_verify E (JStr tok) (jwt_secret (cfg_jwt cfg)) now of
          Inl _ \<Rightarrow> None | Inr p \<Rightarrow> if js_nullish p then None else Some p)"
  by (simp add: token_claims_def with_token_def bearer_token_header [simplified])

text \<open>A refused token ends the request with a 401.\<close>

lemma me_route_refused:
  "token_claims E cfg now req = None \<Longrightarrow>
     \<exists>msg. me_route E cfg now req d = (Inr (res_error 401 msg), d)"
  by (cases rule: authenticate_cases [of E cfg now req]) (auto simp: me_route_def run_route_def)

lemma me_route_claims:
  assumes "token_claims E cfg now req = Some p"
  shows "me_route E cfg now req d =
    (Inr (me_handler E (req\<lparr>req_userId := js_opt_get p ''userId'', req_userRole := js_opt_get p ''role''\<rparr>) d), d)"
  using assms by (cases rule: authenticate_cases [of E cfg now req])
    (auto simp: me_route_def run_route_def reading_def)

context live_backend
begin

text \<open>Tokens can be signed, and a lookup by a unique key finds what the table has.\<close>

lemma access_signed:
  assumes "0 \<le> now" and "s \<noteq> []"
  shows "\<exists>tok. jwt_sign E (access_claims u) s ''15m'' now = Inr tok"
  using tokens_live [unfolded jwt_lives_def, THEN conjunct1, rule_format, OF assms]
  by (simp add: access_claims_def)

lemma refresh_signed:
  assumes "0 \<le> now" and "s \<noteq> []"
  shows "\<exists>tok. jwt_sign E (refresh_claims u) s ''7d'' now = Inr tok"
  using tokens_live [unfolded jwt_lives_def, THEN conjunct1, rule_format, OF assms]
  by (simp add: refresh_claims_def)

lemma find_email_eq:
  "user_findUnique_email (prisma E) (JStr e) d = Inr (find (\<lambda>u. user_email u = e) (users (view d)))"
  using user_find_email_total [of e d] by (auto dest: user_find_email)

lemma find_id_eq:
  "user_findUnique_id (prisma E) (JStr i) d = Inr (find (\<lambda>u. user_id u = i) (users (view d)))"
  using user_find_id_total [of i d] by (auto dest: user_find_id)

text \<open>A fresh address registers.\<close>

lemma register_fresh:
  assumes "req_body req = credentials e p" and "em e" and "8 \<le> length p"
    and new: "e \<notin> user_email ` set (users (view d))"
  obtains u d' where
    "register_route E salt req d =
       (Inr (res_json 201 (JObj [jstr_field ''message'' ''User created successfully'',
                                 jstr_field ''userId'' (user_id u)])), d')"
    "user_email u = e" "user_role u = ''USER''"
    "bcrypt_compare E (JStr p) (user_password u) = Inr True"
    "user_id u \<notin> user_id ` set (users (view d))"
    "view d' = (view d)\<lparr>users := users (view d) @ [u]\<rparr>"
proof -
  obtain h where h: "bcrypt_hash E (JStr p) 12 salt = Inr h"
    using hashing unfolding bcrypt_correct_def by blast
  obtain u d' where c: "user_create (prisma E) (JStr e) h d = (Inr u, d')"
    using user_create_total [OF new] by blast
  have "find (\<lambda>u. user_email u = e) (users (view d)) = None"
    using new by (auto simp: find_None_iff)
  then have f: "user_findUnique_email (prisma E) (JStr e) d = Inr None"
    by (simp add: find_email_eq)
  have "zod_accepts em ur schemas_register (req_body req)"
    using assms by (simp add: credentials_register)
  then have "validate (zod_parse E) schemas_register req = Next req"
    by (rule validate_accepts [OF zod])
  with assms(1) h c f have "register_route E salt req d =
       (Inr (res_json 201 (JObj [jstr_field ''message'' ''User created successfully'',
                                 jstr_field ''userId'' (user_id u)])), d')"
    by (simp add: register_route_def run_route_def register_handler_def)
  moreover have "bcrypt_compare E (JStr p) h = Inr True"
    using hashing h by (auto simp: bcrypt_correct_def)
  ultimately show thesis using user_create_Inr [OF c] by (intro that [of u d']) auto
qed

lemma register_taken:
  assumes "req_body req = credentials e p" and "em e" and "8 \<le> length p"
    and "e \<in> user_email ` set (users (view d))"
  shows "register_route E salt req d = (Inr (res_error 400 ''Email already registered''), d)"
proof -
  have "validate (zod_parse E) schemas_register req = Next req"
    using assms by (intro validate_accepts [OF zod]) (simp add: credentials_register)
  moreover obtain u where "find (\<lambda>u. user_email u = e) (users (view d)) = Some u"
    using assms(4) find_None_map [of user_email e "users (view d)"]
    by (cases "find (\<lambda>u. user_email u = e) (users (view d))") auto
  ultimately show ?thesis
    using assms(1) by (simp add: register_route_def run_route_def register_handler_def find_email_eq)
qed

text \<open>The right password of a known address logs in.\<close>

lemma login_known:
  assumes "req_body req = credentials e p" and "em e" and "p \<noteq> []"
    and u: "find (\<lambda>u. user_email u = e) (users (view d)) = Some u"
    and pw: "bcrypt_compare E (JStr p) (user_password u) = Inr True" and "0 \<le> now"
  obtains acc ref where
    "login_route E (load_config penv) now req d =
       (Inr (res_json 200 (JObj [jstr_field ''accessToken'' acc, jstr_field ''refreshToken'' ref])), d)"
    "jwt_sign E (access_claims u) (jwt_secret (cfg_jwt (load_config penv))) ''15m'' now = Inr acc"
    "jwt_sign E (refresh_claims u) (jwt_refreshSecret (cfg_jwt (load_config penv))) ''7d'' now = Inr ref"
proof -
  let ?cfg = "load_config penv"
  have "user_findUnique_email (prisma E) (JStr e) d = Inr (Some u)"
    using u by (simp add: find_email_eq)
  moreover obtain acc where
    acc: "jwt_sign E (access_claims u) (jwt_secret (cfg_jwt ?cfg)) ''15m'' now = Inr acc"
    using access_signed [OF assms(6) load_config_secrets(1)] by blast
  moreover obtain ref where
    ref: "jwt_sign E (refresh_claims u) (jwt_refreshSecret (cfg_jwt ?cfg)) ''7d'' now = Inr ref"
    using refresh_signed [OF assms(6) load_config_secrets(2)] by blast
  moreover have "validate (zod_parse E) schemas_login req = Next req"
    using assms(1-3) by (intro validate_accepts [OF zod]) (simp add: credentials_login)
  ultimately have "login_route E ?cfg now req d =
      (Inr (res_json 200 (JObj [jstr_field ''accessToken'' acc, jstr_field ''refreshToken'' ref])), d)"
    using assms(1) pw by (simp add: login_route_def run_route_def reading_def login_handler_def)
  with acc ref show thesis by (intro that) auto
qed

text \<open>An access token opens the user's own record for fifteen minutes.\<close>

lemma me_with_access_token:
  assumes "jwt_sign E (access_claims u) (jwt_secret (cfg_jwt cfg)) ''15m'' now = Inr acc"
    and u: "find (\<lambda>x. user_id x = user_id u) (users (view d)) = Some u"
    and "now \<le> now'" and "now' div 1000 < now div 1000 + 900"
  shows "me_route E cfg now' (with_token req acc) d = (Inr (res_json 200 (user_public u)), d)"
proof -
  have "now' div 1000 < now div 1000 + span_seconds ''15m''"
    using assms(4) by (simp add: span_seconds_def)
  from tokens_live [unfolded jwt_lives_def, THEN conjunct2, rule_format, OF assms(1,3) this]
  obtain ps where
    ver: "jwt_verify E (JStr acc) (jwt_secret (cfg_jwt cfg)) now' = Inr (JObj ps)" by blast
  from tokens_faithful [unfolded jwt_faithful_def, rule_format, OF assms(1) ver]
  have "js_opt_get (JObj ps) ''userId'' = JStr (user_id u)"
    by (simp add: access_claims_def js_lookup_def)
  moreover have "CHR '' '' \<notin> set acc" using tokens_compact assms(1) by (auto simp: jwt_compact_def)
  then have "token_claims E cfg now' (with_token req acc) = Some (JObj ps)"
    using ver by (simp add: token_claims_with_token js_nullish_def)
  moreover have "user_findUnique_id (prisma E) (JStr (user_id u)) d = Inr (Some u)"
    using u by (simp add: find_id_eq)
  ultimately show ?thesis by (simp add: me_route_claims me_handler_def)
qed

end

interpretation live: live_backend ref_env mem_tables ref_email ref_url
  by unfold_locales
    (simp_all add: ref_env_def [THEN arg_cong [where f = prisma]] mem.user_find_email_total
      mem.user_find_id_total mem.user_create_total mem.newsletter_find_total
      mem.newsletter_create_total mem.contact_create_total mem.download_findMany_total
      mem.download_create_total mem.download_delete_total)

section \<open>What a successful login and refresh prove\<close>

definition login_tokens :: "string \<Rightarrow> string \<Rightarrow> response" where
  "login_tokens acc ref =
     res_json 200 (JObj [jstr_field ''accessToken'' acc, jstr_field ''refreshToken'' ref])"

lemma login_tokens_inj [simp]: "login_tokens a r = login_tokens a' r' \<longleftrightarrow> a = a' \<and> r = r'"
  by (simp add: login_tokens_def res_json_def)

lemma login_handler_200:
  assumes "resp_status (login_handler E cfg now req d) = 200"
  obtains e p u acc ref where
    "js_get (req_body req) ''email'' = Inr e" "js_get (req_body req) ''password'' = Inr p"
    "user_findUnique_email (prisma E) e d = Inr (Some u)"
    "bcrypt_compare E p (user_password u) = Inr True"
    "jwt_sign E (access_claims u) (jwt_secret (cfg_jwt cfg)) ''15m'' now = Inr acc"
    "jwt_sign E (refresh_claims u) (jwt_refreshSecret (cfg_jwt cfg)) ''7d'' now = Inr ref"
    "login_handler E cfg now req d = login_tokens acc ref"
  using assms that
  by (auto simp: login_handler_def login_tokens_def split: sum.splits option.splits if_splits)

lemma login_route_200:
  assumes "zod_conforms (zod_parse E) em ur" and "login_route E cfg now req d = (Inr resp, d')"
    and "resp_status resp = 200"
  shows "resp = login_handler E cfg now req d \<and> zod_accepts em ur schemas_login (req_body req)"
  using assms validate_Next [OF assms(1), of schemas_login req]
  by (auto simp: login_route_def run_route_def reading_def validation_failed_def validate_def
      split: mw.splits zod_result.splits)

lemma refresh_handler_200:
  assumes "resp_status (refresh_handler E cfg now req d) = 200"
  obtains tok v i u acc where
    "js_get (req_body req) ''refreshToken'' = Inr tok"
    "jwt_verify E tok (jwt_refreshSecret (cfg_jwt cfg)) now = Inr v"
    "js_get v ''userId'' = Inr i" "user_findUnique_id (prisma E) i d = Inr (Some u)"
    "jwt_sign E (access_claims u) (jwt_secret (cfg_jwt cfg)) ''15m'' now = Inr acc"
    "refresh_handler E cfg now req d = res_json 200 (JObj [jstr_field ''accessToken'' acc])"
  using assms that
  by (auto simp: refresh_handler_def Let_def split: sum.splits option.splits if_splits)

section \<open>A sample login\<close>

abbreviation ann :: user where
  "ann \<equiv> sample_user ''ann'' ''USER''"

abbreviation ann_login :: "string \<Rightarrow> request" where
  "ann_login p \<equiv> sample_request POST ''/login'' (credentials ''ann@hylium.org'' p)"

lemma ann_password:
  "bcrypt_compare ref_env (JStr p) (user_password ann) = Inr (p = ''correct horse'')"
proof -
  have "nibbles ''correct horse'' = nibbles p \<longleftrightarrow> p = ''correct horse''"
    by (metis unnibbles_nibbles)
  then show ?thesis by (simp add: ref_env_def ref_compare_def sample_user_def)
qed

lemma ann_logs_in:
  obtains acc ref where
    "login_route ref_env sample_config 5000 (ann_login ''correct horse'') (sample_mem [ann]) =
       (Inr (login_tokens acc ref), sample_mem [ann])"
    "ref_sign (refresh_claims ann) ''change-me-refresh'' ''7d'' 5000 = Inr ref"
proof -
  have "req_body (ann_login ''correct horse'') = credentials ''ann@hylium.org'' ''correct horse''"
    "ref_email ''ann@hylium.org''" "''correct horse'' \<noteq> []"
    "find (\<lambda>u. user_email u = ''ann@hylium.org'') (users (mem_tables (sample_mem [ann]))) = Some ann"
    "bcrypt_compare ref_env (JStr ''correct horse'') (user_password ann) = Inr True" "(0::int) \<le> 5000"
    by (simp_all only: ann_password) (simp_all add: sample_defs ref_email_def)
  from live.login_known [OF this, of "\<lambda>_. None"] show thesis
    using that unfolding login_tokens_def by (auto simp: ref_env_def sample_defs)
qed

text \<open>The tokens of a plain user and of an administrator, and a request with one of them for the
  deletion of the one download.\<close>

definition ann_token :: string where
  "ann_token = (case ref_sign (access_claims ann) ''change-me'' ''15m'' 1000000 of Inr tok \<Rightarrow> tok | Inl _ \<Rightarrow> [])"

definition root_token :: string where
  "root_token = (case ref_sign (access_claims (sample_user ''root'' ''ADMIN'')) ''change-me'' ''15m'' 1000000
                 of Inr tok \<Rightarrow> tok | Inl _ \<Rightarrow> [])"

abbreviation delete_request :: "string \<Rightarrow> request" where
  "delete_request tok \<equiv> with_token (sample_request DELETE ''/api/downloads/d1'' JUndefined) tok"

lemma sample_signed:
  "jwt_sign ref_env (access_claims (sample_user i rl)) (jwt_secret (cfg_jwt sample_config)) ''15m'' 1000000 =
     Inr (ref_token [show_nat 1900, ''change-me'', i, rl])"
  by (simp add: ref_env_def ref_sign_def access_claims_def sample_defs ref_expiry_def span_seconds_def)

lemma sample_tokens:
  "ann_token = ref_token [show_nat 1900, ''change-me'', ''ann'', ''USER'']"
  "root_token = ref_token [show_nat 1900, ''change-me'', ''root'', ''ADMIN'']"
  by (simp_all add: ann_token_def root_token_def ref_sign_def access_claims_def sample_user_def
      ref_expiry_def span_seconds_def)

lemma sample_limits: "cfg_rateLimit sample_config = \<lparr>rl_windowMs = Fin 900000, rl_max = Fin 100\<rparr>"
  by (simp add: sample_defs parse_int_def is_js_space_def is_digit_def digits_value_def digit_val_def
      double_of_nat_def)

lemma sample_claims:
  "token_claims ref_env sample_config 1000000
     (with_token req (ref_token [show_nat 1900, ''change-me'', i, rl])) = Some (access_claims (sample_user i rl))"
proof -
  let ?tok = "ref_token [show_nat 1900, ''change-me'', i, rl]"
  have "ref_sign (access_claims (sample_user i rl)) ''change-me'' ''15m'' 1000000 = Inr ?tok"
    by (simp add: ref_sign_def access_claims_def sample_user_def ref_expiry_def span_seconds_def)
  from ref_verify_signed [OF this, of "''change-me''" 1000000]
  have "ref_verify (JStr ?tok) ''change-me'' 1000000 = Inr (access_claims (sample_user i rl))"
    by (simp add: span_seconds_def)
  moreover have "jwt_secret (cfg_jwt sample_config) = ''change-me''" by (simp add: sample_defs)
  ultimately show ?thesis
    by (simp add: token_claims_with_token ref_token_no_space ref_env_def access_claims_def js_nullish_def)
qed

section \<open>Properties\<close>

text \<open>C9: Register, log in, look: a fresh address with a valid password registers as a plain user,
  the same credentials then log in, and for fifteen minutes the access token of that login opens
  exactly the record the registration has stored.\<close>

theorem session_roundtrip:
  assumes "live_backend E view em ur"
    and "req_body req = credentials e p" and "em e" and "8 \<le> length p"
    and "e \<notin> user_email ` set (users (view d))" and "0 \<le> now"
  shows "\<exists>u d' acc ref.
    register_route E salt req d =
      (Inr (res_json 201 (JObj [jstr_field ''message'' ''User created successfully'',
                                jstr_field ''userId'' (user_id u)])), d') \<and>
    view d' = (view d)\<lparr>users := users (view d) @ [u]\<rparr> \<and>
    user_email u = e \<and> user_role u = ''USER'' \<and>
    login_route E (load_config penv) now req d' = (Inr (login_tokens acc ref), d') \<and>
    (\<forall>now' req'. now \<le> now' \<longrightarrow> now' div 1000 < now div 1000 + 900 \<longrightarrow>
       me_route E (load_config penv) now' (with_token req' acc) d' =
         (Inr (res_json 200 (user_public u)), d'))"
proof -
  from live_backend.register_fresh [OF assms(1-5), of salt] obtain u d' where
    reg: "register_route E salt req d =
      (Inr (res_json 201 (JObj [jstr_field ''message'' ''User created successfully'',
                                jstr_field ''userId'' (user_id u)])), d')"
    and u: "user_email u = e" "user_role u = ''USER''"
      "bcrypt_compare E (JStr p) (user_password u) = Inr True"
      "user_id u \<notin> user_id ` set (users (view d))"
    and v: "view d' = (view d)\<lparr>users := users (view d) @ [u]\<rparr>" by blast
  have "p \<noteq> []" using assms(4) by auto
  moreover have fe: "find (\<lambda>x. user_email x = e) (users (view d')) = Some u"
    using assms(5) v find_snoc_new [of user_email u "users (view d)"] by (simp add: u(1))
  moreover have fi: "find (\<lambda>x. user_id x = user_id u) (users (view d')) = Some u"
    using u(4) v by (simp add: find_snoc_new)
  ultimately obtain acc ref where
    log: "login_route E (load_config penv) now req d' = (Inr (login_tokens acc ref), d')"
    and acc: "jwt_sign E (access_claims u) (jwt_secret (cfg_jwt (load_config penv))) ''15m'' now = Inr acc"
    using live_backend.login_known [OF assms(1-3) _ fe u(3) assms(6), of penv]
    unfolding login_tokens_def by blast
  have "me_route E (load_config penv) now' (with_token req' acc) d' =
      (Inr (res_json 200 (user_public u)), d')"
    if "now \<le> now'" "now' div 1000 < now div 1000 + 900" for now' req'
    by (rule live_backend.me_with_access_token [OF assms(1) acc fi that])
  with reg u v log show ?thesis by blast
qed

theorem session_roundtrip_witness:
  "\<exists>u d' acc ref.
    register_route ref_env ''salt'' (sample_request POST ''/'' (credentials ''eve@hylium.org'' ''password'')) (sample_mem []) =
      (Inr (res_json 201 (JObj [jstr_field ''message'' ''User created successfully'',
                                jstr_field ''userId'' (user_id u)])), d') \<and>
    users (mem_tables d') = [u] \<and>
    login_route ref_env sample_config 5000 (sample_request POST ''/'' (credentials ''eve@hylium.org'' ''password'')) d' =
      (Inr (login_tokens acc ref), d') \<and>
    me_route ref_env sample_config 904000 (with_token (sample_request GET ''/'' JUndefined) acc) d' =
      (Inr (res_json 200 (user_public u)), d')"
proof -
  let ?r = "sample_request POST ''/'' (credentials ''eve@hylium.org'' ''password'')"
  have "req_body ?r = credentials ''eve@hylium.org'' ''password''" "ref_email ''eve@hylium.org''"
    "8 \<le> length ''password''"
    "''eve@hylium.org'' \<notin> user_email ` set (users (mem_tables (sample_mem [])))" "(0::int) \<le> 5000"
    by (simp_all add: sample_request_def ref_email_def sample_mem_def empty_tables_def)
  from session_roundtrip [OF live.live_backend_axioms this, of "''salt''" "\<lambda>_. None"]
  obtain u d' acc ref where r: "register_route ref_env ''salt'' ?r (sample_mem []) =
      (Inr (res_json 201 (JObj [jstr_field ''message'' ''User created successfully'',
                                jstr_field ''userId'' (user_id u)])), d')"
      "mem_tables d' = (mem_tables (sample_mem []))\<lparr>users := users (mem_tables (sample_mem [])) @ [u]\<rparr>"
      "login_route ref_env sample_config 5000 ?r d' = (Inr (login_tokens acc ref), d')"
      "\<forall>now' req'. 5000 \<le> now' \<longrightarrow> now' div 1000 < 5000 div 1000 + 900 \<longrightarrow>
         me_route ref_env sample_config now' (with_token req' acc) d' =
           (Inr (res_json 200 (user_public u)), d')"
    unfolding sample_config_def by blast
  from r(2) have "users (mem_tables d') = [u]" by (simp add: sample_mem_def empty_tables_def)
  moreover from r(4) have "me_route ref_env sample_config 904000
      (with_token (sample_request GET ''/'' JUndefined) acc) d' = (Inr (res_json 200 (user_public u)), d')"
    by simp
  ultimately show ?thesis using r(1,3) by blast
qed

text \<open>C31: A login that answers 200 had a valid body, an address that is in the user table and a
  password that compares equal to that user's hash, and the tokens it returns are signed for that
  user with the role the database has, the access token for 15 minutes under the access secret and
  the refresh token for 7 days under the refresh secret; no login writes.\<close>

theorem login_sound:
  assumes "backend E view em ur" and "login_route E cfg now req d = (Inr resp, d')"
    and "resp_status resp = 200"
  shows "d' = d \<and> (\<exists>u e p acc ref. u \<in> set (users (view d)) \<and>
    js_get (req_body req) ''email'' = Inr (JStr e) \<and> em e \<and> user_email u = e \<and>
    js_get (req_body req) ''password'' = Inr (JStr p) \<and>
    bcrypt_compare E (JStr p) (user_password u) = Inr True \<and>
    jwt_sign E (access_claims u) (jwt_secret (cfg_jwt cfg)) ''15m'' now = Inr acc \<and>
    jwt_sign E (refresh_claims u) (jwt_refreshSecret (cfg_jwt cfg)) ''7d'' now = Inr ref \<and>
    resp = login_tokens acc ref)"
proof -
  from login_route_200 [OF backend.zod [OF assms(1)] assms(2,3)]
  have resp: "resp = login_handler E cfg now req d"
    and "zod_accepts em ur schemas_login (req_body req)" by auto
  then obtain ps e p where b: "req_body req = JObj ps" "js_lookup ps ''email'' = JStr e"
      "js_lookup ps ''password'' = JStr p" "em e" by (auto simp: accepts_login)
  from resp assms(3) have "resp_status (login_handler E cfg now req d) = 200" by simp
  then show ?thesis
  proof (rule login_handler_200)
    fix e' p' u acc ref
    assume h: "js_get (req_body req) ''email'' = Inr e'" "js_get (req_body req) ''password'' = Inr p'"
      "user_findUnique_email (prisma E) e' d = Inr (Some u)"
      "bcrypt_compare E p' (user_password u) = Inr True"
      "jwt_sign E (access_claims u) (jwt_secret (cfg_jwt cfg)) ''15m'' now = Inr acc"
      "jwt_sign E (refresh_claims u) (jwt_refreshSecret (cfg_jwt cfg)) ''7d'' now = Inr ref"
      "login_handler E cfg now req d = login_tokens acc ref"
    from h(1,2) b have "e' = JStr e" "p' = JStr p" by auto
    moreover from this prisma_client.user_find_email [OF backend.axioms(1) [OF assms(1)] h(3)]
    have "u \<in> set (users (view d)) \<and> user_email u = e"
      by (auto dest: find_Some_iff_mem [OF sym])
    moreover have "d' = d"
      using assms(2) backend.read_routes_db(1) [OF assms(1), of cfg now req d] by simp
    ultimately show ?thesis using h b(4) resp by blast
  qed
qed

theorem login_sound_witness:
  "\<exists>resp. login_route ref_env sample_config 5000 (ann_login ''correct horse'') (sample_mem [ann]) =
      (Inr resp, sample_mem [ann]) \<and>
    (\<exists>acc ref. resp = login_tokens acc ref \<and>
       ref_sign (access_claims ann) (jwt_secret (cfg_jwt sample_config)) ''15m'' 5000 = Inr acc)"
proof (rule ann_logs_in)
  fix acc ref
  assume l: "login_route ref_env sample_config 5000 (ann_login ''correct horse'') (sample_mem [ann]) =
    (Inr (login_tokens acc ref), sample_mem [ann])"
  from login_sound [OF ref.backend_axioms l] show ?thesis
    using l by (auto simp: login_tokens_def ref_env_def sample_mem_def)
qed

text \<open>An unknown address and a wrong password are refused with one and the same response, so a
  login does not tell which addresses have an account.\<close>

theorem login_refusal_uniform:
  assumes "live_backend E view em ur" and "req_body req = credentials e p" and "em e" and "p \<noteq> []"
    and "\<forall>u \<in> set (users (view d)). user_email u = e \<longrightarrow>
           bcrypt_compare E (JStr p) (user_password u) = Inr False"
  shows "login_route E cfg now req d = (Inr (res_error 401 ''Invalid credentials''), d)"
proof -
  have v: "validate (zod_parse E) schemas_login req = Next req"
    using assms(2-4)
    by (intro validate_accepts [OF backend.zod [OF live_backend.axioms(1) [OF assms(1)]]])
      (simp add: credentials_login)
  show ?thesis
    using v assms(2) live_backend.find_email_eq [OF assms(1), of e d] assms(5)
    by (auto simp: login_route_def run_route_def reading_def login_handler_def
        split: option.splits dest!: find_Some_iff_mem)
qed

theorem login_refusal_uniform_witness:
  "login_route ref_env sample_config 5000 (ann_login ''wrong'') (sample_mem [ann]) =
     (Inr (res_error 401 ''Invalid credentials''), sample_mem [ann]) \<and>
   login_route ref_env sample_config 5000 (ann_login ''wrong'') (sample_mem []) =
     (Inr (res_error 401 ''Invalid credentials''), sample_mem [])"
proof -
  have p: "req_body (ann_login ''wrong'') = credentials ''ann@hylium.org'' ''wrong''"
    "ref_email ''ann@hylium.org''" "''wrong'' \<noteq> []"
    by (simp_all add: sample_request_def ref_email_def)
  have "\<forall>u \<in> set (users (mem_tables (sample_mem [ann]))). user_email u = ''ann@hylium.org'' \<longrightarrow>
      bcrypt_compare ref_env (JStr ''wrong'') (user_password u) = Inr False"
    using ann_password [of "''wrong''"] by (simp add: sample_mem_def)
  moreover have "\<forall>u \<in> set (users (mem_tables (sample_mem []))). user_email u = ''ann@hylium.org'' \<longrightarrow>
      bcrypt_compare ref_env (JStr ''wrong'') (user_password u) = Inr False"
    by (simp add: sample_mem_def)
  ultimately show ?thesis
    using login_refusal_uniform [OF live.live_backend_axioms p] by blast
qed

text \<open>C33: A refresh that answers 200 was given a token that verifies under the refresh secret and
  names a user the database still has, and the new access token carries the role the database has
  now, not the one of an earlier token; a refresh does not write.\<close>

theorem refresh_sound:
  assumes "backend E view em ur" and "refresh_route E cfg now req d = (Inr resp, d')"
    and "resp_status resp = 200"
  shows "d' = d \<and> (\<exists>tok v u acc. u \<in> set (users (view d)) \<and>
    js_get (req_body req) ''refreshToken'' = Inr tok \<and>
    jwt_verify E tok (jwt_refreshSecret (cfg_jwt cfg)) now = Inr v \<and>
    js_get v ''userId'' = Inr (JStr (user_id u)) \<and>
    jwt_sign E (access_claims u) (jwt_secret (cfg_jwt cfg)) ''15m'' now = Inr acc \<and>
    resp = res_json 200 (JObj [jstr_field ''accessToken'' acc]))"
proof -
  from assms(2) have resp: "resp = refresh_handler E cfg now req d" "d' = d"
    by (auto simp: refresh_route_def run_route_def reading_def)
  with assms(3) have "resp_status (refresh_handler E cfg now req d) = 200" by simp
  then show ?thesis
  proof (rule refresh_handler_200)
    fix tok v i u acc
    assume h: "js_get (req_body req) ''refreshToken'' = Inr tok"
      "jwt_verify E tok (jwt_refreshSecret (cfg_jwt cfg)) now = Inr v"
      "js_get v ''userId'' = Inr i" "user_findUnique_id (prisma E) i d = Inr (Some u)"
      "jwt_sign E (access_claims u) (jwt_secret (cfg_jwt cfg)) ''15m'' now = Inr acc"
      "refresh_handler E cfg now req d = res_json 200 (JObj [jstr_field ''accessToken'' acc])"
    from prisma_client.user_find_id [OF backend.axioms(1) [OF assms(1)] h(4)]
    have "u \<in> set (users (view d)) \<and> i = JStr (user_id u)"
      by (auto dest: find_Some_iff_mem [OF sym])
    with h resp show ?thesis by blast
  qed
qed

theorem refresh_sound_witness:
  "\<exists>ref resp. refresh_route ref_env sample_config 6000
       (sample_request POST ''/refresh'' (JObj [jstr_field ''refreshToken'' ref])) (sample_mem [ann]) =
      (Inr resp, sample_mem [ann]) \<and>
    (\<exists>acc. ref_sign (access_claims ann) (jwt_secret (cfg_jwt sample_config)) ''15m'' 6000 = Inr acc \<and>
       resp = res_json 200 (JObj [jstr_field ''accessToken'' acc]))"
proof (rule ann_logs_in)
  fix acc ref
  assume sg: "ref_sign (refresh_claims ann) ''change-me-refresh'' ''7d'' 5000 = Inr ref"
  let ?req = "sample_request POST ''/refresh'' (JObj [jstr_field ''refreshToken'' ref])"
  have "ref \<noteq> []" using sg by (auto simp: ref_sign_def refresh_claims_def ref_token_def)
  moreover have "ref_verify (JStr ref) ''change-me-refresh'' 6000 = Inr (refresh_claims ann)"
    using ref_verify_signed [OF sg] by (simp add: span_seconds_def)
  ultimately have "\<exists>resp. refresh_route ref_env sample_config 6000 ?req (sample_mem [ann]) =
      (Inr resp, sample_mem [ann]) \<and> resp_status resp = 200"
    by (simp add: refresh_route_def run_route_def reading_def refresh_handler_def sample_defs
        js_lookup_def ref_env_def refresh_claims_def access_claims_def mem_defs ref_sign_def)
  then obtain resp where r: "refresh_route ref_env sample_config 6000 ?req (sample_mem [ann]) =
      (Inr resp, sample_mem [ann])" "resp_status resp = 200" by blast
  from refresh_sound [OF ref.backend_axioms r] r(1) show ?thesis
    by (auto simp: ref_env_def sample_mem_def)
qed



end
