(* ===== verification/Content_Life.thy ===== *)
theory Content_Life
  imports Session_Life
begin

text \<open>
  What the content routes amount to over several requests: subscriptions are idempotent, a
  stored download is listed and a deleted one is not, an invalid body has no effect, and the proxy
  relays exactly the whitelisted calls.
\<close>

section \<open>Newsletter and contact\<close>

definition subscription :: "string \<Rightarrow> jsval" where
  "subscription e = JObj [jstr_field ''email'' e]"

definition contact_form :: "string \<Rightarrow> string \<Rightarrow> string \<Rightarrow> jsval" where
  "contact_form e s m =
     JObj [jstr_field ''email'' e, jstr_field ''subject'' s, jstr_field ''message'' m]"

lemma subscription_accepted: "zod_accepts em ur schemas_newsletter (subscription e) \<longleftrightarrow> em e"
  by (auto simp: accepts_newsletter subscription_def js_lookup_def)

lemma contact_form_accepted:
  "zod_accepts em ur schemas_contact (contact_form e s m) \<longleftrightarrow>
     em e \<and> 1 \<le> length s \<and> length s \<le> 200 \<and> 10 \<le> length m \<and> length m \<le> 5000"
  by (auto simp: accepts_contact contact_form_def js_lookup_def)

context live_backend
begin

lemma newsletter_find_eq:
  "newsletter_findUnique (prisma E) (JStr e) d =
     Inr (find (\<lambda>n. nl_email n = e) (newsletters (view d)))"
  using newsletter_find_total [of e d] by (auto dest: newsletter_find)

lemma subscribe_new:
  assumes "req_body req = subscription e" and "em e" and "e \<notin> nl_email ` set (newsletters (view d))"
  obtains n d' where "newsletter_route E req d = (Inr (res_message 201 ''Subscribed successfully''), d')"
    "nl_email n = e" "view d' = (view d)\<lparr>newsletters := newsletters (view d) @ [n]\<rparr>"
proof -
  have "validate (zod_parse E) schemas_newsletter req = Next req"
    using assms by (intro validate_accepts [OF zod]) (simp add: subscription_accepted)
  moreover have "find (\<lambda>n. nl_email n = e) (newsletters (view d)) = None"
    using assms(3) by (simp add: find_None_map)
  moreover obtain n d' where c: "newsletter_create (prisma E) (JStr e) d = (Inr n, d')"
    using newsletter_create_total [OF assms(3)] by blast
  ultimately have "newsletter_route E req d = (Inr (res_message 201 ''Subscribed successfully''), d')"
    using assms(1)
    by (simp add: newsletter_route_def run_route_def newsletter_handler_def newsletter_find_eq
        subscription_def js_lookup_def)
  with newsletter_create_Inr [OF c] show thesis by (intro that [of d' n]) auto
qed

lemma subscribe_known:
  assumes "req_body req = subscription e" and "em e" and "e \<in> nl_email ` set (newsletters (view d))"
  shows "newsletter_route E req d = (Inr (res_message 200 ''Already subscribed''), d)"
proof -
  have "validate (zod_parse E) schemas_newsletter req = Next req"
    using assms by (intro validate_accepts [OF zod]) (simp add: subscription_accepted)
  moreover obtain n where "find (\<lambda>n. nl_email n = e) (newsletters (view d)) = Some n"
    using assms(3) by (cases "find (\<lambda>n. nl_email n = e) (newsletters (view d))")
      (auto simp: find_None_map)
  ultimately show ?thesis
    using assms(1)
    by (simp add: newsletter_route_def run_route_def newsletter_handler_def newsletter_find_eq
        subscription_def js_lookup_def)
qed

text \<open>What an administrator adds is stored as it was sent.\<close>

lemma add_download:
  assumes "claims_admin E cfg now req" and "zod_accepts em ur schemas_download (req_body req)"
  obtains dl d' where "downloads_add_route E cfg now req d = (Inr (res_json 201 (download_json dl)), d')"
    "view d' = (view d)\<lparr>downloads := downloads (view d) @ [dl]\<rparr>"
    "js_get (req_body req) ''name'' = Inr (JStr (dl_name dl))"
    "js_get (req_body req) ''version'' = Inr (JStr (dl_version dl))"
    "js_get (req_body req) ''platform'' = Inr (JStr (dl_platform dl))"
    "js_get (req_body req) ''url'' = Inr (JStr (dl_url dl))"
proof -
  from assms(2) obtain ps n w p u where b: "req_body req = JObj ps" "js_lookup ps ''name'' = JStr n"
      "js_lookup ps ''version'' = JStr w" "js_lookup ps ''platform'' = JStr p"
      "js_lookup ps ''url'' = JStr u"
      "js_lookup ps ''checksum'' = JUndefined \<or> (\<exists>c. js_lookup ps ''checksum'' = JStr c)"
    unfolding accepts_download by blast
  from b(6) have "opt_column (js_lookup ps ''checksum'') \<noteq> None" by auto
  from download_create_total [OF this] obtain dl d' where
    c: "download_create (prisma E) (JStr n) (JStr w) (JStr p) (JStr u) (js_lookup ps ''checksum'') d =
      (Inr dl, d')" by blast
  from assms(1) obtain q where q: "token_claims E cfg now req = Some q" "js_opt_get q ''role'' = JStr ''ADMIN''"
    by (auto simp: claims_admin_def)
  let ?r = "req\<lparr>req_userId := js_opt_get q ''userId'', req_userRole := js_opt_get q ''role''\<rparr>"
  have "authenticate E cfg now req = Next ?r" using q(1) by (simp add: authenticate_Next_iff)
  moreover have "requireAdmin ?r = Next ?r" using q(2) by (simp add: requireAdmin_def)
  moreover have "validate (zod_parse E) schemas_download ?r = Next ?r"
    using assms(2) by (intro validate_accepts [OF zod]) simp
  ultimately have "downloads_add_route E cfg now req d = (Inr (res_json 201 (download_json dl)), d')"
    using b c by (simp add: downloads_add_route_def run_route_def downloads_add_handler_def)
  with download_create_Inr [OF c] b show thesis by (intro that [of dl d']) auto
qed

lemma delete_download:
  assumes "claims_admin E cfg now req" and "map_of (req_params req) ''id'' = Some i"
  shows "if i \<in> dl_id ` set (downloads (view d))
    then \<exists>d'. downloads_delete_route E cfg now req d = (Inr (res_message 200 ''Download deleted''), d') \<and>
      view d' = (view d)\<lparr>downloads := filter (\<lambda>x. dl_id x \<noteq> i) (downloads (view d))\<rparr>
    else \<exists>d'. downloads_delete_route E cfg now req d = (Inr internal_error, d') \<and> view d' = view d"
proof -
  from assms(1) obtain q where q: "token_claims E cfg now req = Some q" "js_opt_get q ''role'' = JStr ''ADMIN''"
    by (auto simp: claims_admin_def)
  let ?r = "req\<lparr>req_userId := js_opt_get q ''userId'', req_userRole := js_opt_get q ''role''\<rparr>"
  have "authenticate E cfg now req = Next ?r" using q(1) by (simp add: authenticate_Next_iff)
  moreover have "requireAdmin ?r = Next ?r" using q(2) by (simp add: requireAdmin_def)
  ultimately have route: "downloads_delete_route E cfg now req d =
      (let (resp, d') = downloads_delete_handler E ?r d in (Inr resp, d'))"
    by (simp add: downloads_delete_route_def run_route_def)
  show ?thesis
  proof (cases "download_delete (prisma E) i d")
    case (Pair r d')
    show ?thesis
    proof (cases r)
      case (Inl e)
      with Pair download_delete_total [of i d] have "i \<notin> dl_id ` set (downloads (view d))" by auto
      with Inl Pair assms(2) download_delete_Inl [of i d e d'] show ?thesis
        by (simp add: route downloads_delete_handler_def)
    next
      case (Inr dl)
      with Pair have "download_delete (prisma E) i d = (Inr dl, d')" by simp
      from download_delete_Inr [OF this] Inr Pair assms(2) show ?thesis
        by (auto simp: route downloads_delete_handler_def)
    qed
  qed
qed

lemma list_downloads:
  obtains ds where "downloads_list_route E req d = (Inr (res_json 200 (JArr (map download_json ds))), d)"
    "mset ds = mset (downloads (view d))" "sorted_wrt (\<lambda>a b. dl_createdAt b \<le> dl_createdAt a) ds"
proof -
  obtain ds where ds: "download_findMany (prisma E) d = Inr ds" using download_findMany_total by blast
  then have "downloads_list_route E req d = (Inr (res_json 200 (JArr (map download_json ds))), d)"
    by (simp add: downloads_list_route_def run_route_def reading_def downloads_list_handler_def)
  with download_findMany [OF ds] that show thesis by blast
qed

end

section \<open>Properties\<close>

text \<open>Subscribing is idempotent: the first request of an address answers 201 exactly if the
  address was not subscribed, every further one answers 200 and writes nothing, and the address has
  exactly one row.\<close>

theorem newsletter_idempotent:
  assumes "live_backend E view em ur" and "req_body req = subscription e" and "em e"
    and "tables_wf (view d)"
  shows "\<exists>resp d'. newsletter_route E req d = (Inr resp, d') \<and>
    (resp_status resp = 201 \<longleftrightarrow> e \<notin> nl_email ` set (newsletters (view d))) \<and>
    newsletter_route E req d' = (Inr (res_message 200 ''Already subscribed''), d') \<and>
    length (filter (\<lambda>n. nl_email n = e) (newsletters (view d'))) = 1"
proof -
  have one: "distinct (map f xs) \<Longrightarrow> k \<in> f ` set xs \<Longrightarrow> length (filter (\<lambda>n. f n = k) xs) = 1"
    for f :: "newsletter \<Rightarrow> string" and xs k
    by (induction xs) (auto simp: filter_empty_conv, metis imageI)
  note again = live_backend.subscribe_known [OF assms(1-3)]
  show ?thesis
  proof (cases "e \<in> nl_email ` set (newsletters (view d))")
    case True
    with again [OF this] one [of nl_email "newsletters (view d)" e] assms(4) show ?thesis
      by (auto simp: tables_wf_def)
  next
    case False
    then have filter_none: "filter (\<lambda>n. nl_email n = e) (newsletters (view d)) = []"
      by (auto simp: filter_empty_conv)
    from live_backend.subscribe_new [OF assms(1-3) False] obtain n d' where
      n: "newsletter_route E req d = (Inr (res_message 201 ''Subscribed successfully''), d')"
      "nl_email n = e" "view d' = (view d)\<lparr>newsletters := newsletters (view d) @ [n]\<rparr>" by blast
    have "length (filter (\<lambda>n. nl_email n = e) (newsletters (view d'))) = 1"
      using filter_none n(2,3) by simp
    moreover have "newsletter_route E req d' = (Inr (res_message 200 ''Already subscribed''), d')"
      by (rule again) (simp add: n(2,3))
    ultimately show ?thesis using n(1) False by auto
  qed
qed

theorem newsletter_idempotent_witness:
  "\<exists>d'. newsletter_route ref_env (sample_request POST ''/'' (subscription ''bob@hylium.org'')) (sample_mem []) =
      (Inr (res_message 201 ''Subscribed successfully''), d') \<and>
    newsletter_route ref_env (sample_request POST ''/'' (subscription ''bob@hylium.org'')) d' =
      (Inr (res_message 200 ''Already subscribed''), d')"
proof -
  let ?r = "sample_request POST ''/'' (subscription ''bob@hylium.org'')"
  have p: "req_body ?r = subscription ''bob@hylium.org''" "ref_email ''bob@hylium.org''"
    "tables_wf (mem_tables (sample_mem []))"
    by (simp_all add: sample_defs ref_email_def tables_wf_def empty_tables_def)
  obtain d' where d': "newsletter_route ref_env ?r (sample_mem []) =
      (Inr (res_message 201 ''Subscribed successfully''), d')"
    using live.subscribe_new [OF p(1,2), of "sample_mem []"]
    by (auto simp: sample_mem_def empty_tables_def)
  with newsletter_idempotent [OF live.live_backend_axioms p] show ?thesis by auto
qed

text \<open>What an administrator publishes is what everybody sees: a valid download sent with an
  administrator's token is stored as sent and answered with a 201, and the public list then shows
  every stored download once, the new one among them, the latest first.\<close>

theorem published_download_is_listed:
  assumes "live_backend E view em ur" and "claims_admin E cfg now req"
    and "zod_accepts em ur schemas_download (req_body req)"
  shows "\<exists>dl d' ds. downloads_add_route E cfg now req d = (Inr (res_json 201 (download_json dl)), d') \<and>
    view d' = (view d)\<lparr>downloads := downloads (view d) @ [dl]\<rparr> \<and>
    js_get (req_body req) ''name'' = Inr (JStr (dl_name dl)) \<and>
    js_get (req_body req) ''version'' = Inr (JStr (dl_version dl)) \<and>
    js_get (req_body req) ''platform'' = Inr (JStr (dl_platform dl)) \<and>
    js_get (req_body req) ''url'' = Inr (JStr (dl_url dl)) \<and>
    downloads_list_route E req' d' = (Inr (res_json 200 (JArr (map download_json ds))), d') \<and>
    mset ds = add_mset dl (mset (downloads (view d))) \<and>
    sorted_wrt (\<lambda>a b. dl_createdAt b \<le> dl_createdAt a) ds"
proof (rule live_backend.add_download [OF assms, of d])
  fix dl d'
  assume add: "downloads_add_route E cfg now req d = (Inr (res_json 201 (download_json dl)), d')"
    "view d' = (view d)\<lparr>downloads := downloads (view d) @ [dl]\<rparr>"
    "js_get (req_body req) ''name'' = Inr (JStr (dl_name dl))"
    "js_get (req_body req) ''version'' = Inr (JStr (dl_version dl))"
    "js_get (req_body req) ''platform'' = Inr (JStr (dl_platform dl))"
    "js_get (req_body req) ''url'' = Inr (JStr (dl_url dl))"
  obtain ds where
    "downloads_list_route E req' d' = (Inr (res_json 200 (JArr (map download_json ds))), d')"
    "mset ds = mset (downloads (view d'))" "sorted_wrt (\<lambda>a b. dl_createdAt b \<le> dl_createdAt a) ds"
    by (rule live_backend.list_downloads [OF assms(1)])
  moreover have "mset (downloads (view d')) = add_mset dl (mset (downloads (view d)))"
    using add(2) by simp
  ultimately show ?thesis using add by metis
qed

definition sample_upload :: jsval where
  "sample_upload =
     JObj [jstr_field ''name'' ''Hylium Core'', jstr_field ''version'' ''1.1'',
           jstr_field ''platform'' ''linux'', jstr_field ''url'' ''https://hylium.org/dl11'']"

lemma root_claims_admin:
  "claims_admin ref_env sample_config 1000000 (with_token req root_token)"
  unfolding claims_admin_def sample_tokens sample_claims
  by (simp add: access_claims_def sample_user_def js_lookup_def)

theorem published_download_is_listed_witness:
  "\<exists>dl d' ds. downloads_add_route ref_env sample_config 1000000
      (with_token (sample_request POST ''/'' sample_upload) root_token) (sample_mem []) =
      (Inr (res_json 201 (download_json dl)), d') \<and>
    downloads_list_route ref_env (sample_request GET ''/'' JUndefined) d' =
      (Inr (res_json 200 (JArr (map download_json ds))), d') \<and>
    mset ds = {#dl, sample_download#} \<and> dl_version dl = ''1.1''"
proof -
  let ?r = "with_token (sample_request POST ''/'' sample_upload) root_token"
  have "zod_accepts ref_email ref_url schemas_download (req_body ?r)"
    by (auto simp: accepts_download with_token_def sample_request_def sample_upload_def js_lookup_def ref_url_def)
  from published_download_is_listed [OF live.live_backend_axioms root_claims_admin this,
      of "sample_mem []" "sample_request GET ''/'' JUndefined"]
  obtain dl d' ds where r: "downloads_add_route ref_env sample_config 1000000 ?r (sample_mem []) =
      (Inr (res_json 201 (download_json dl)), d')"
    "js_get (req_body ?r) ''version'' = Inr (JStr (dl_version dl))"
    "downloads_list_route ref_env (sample_request GET ''/'' JUndefined) d' =
      (Inr (res_json 200 (JArr (map download_json ds))), d')"
    "mset ds = add_mset dl (mset (downloads (mem_tables (sample_mem []))))" by blast
  from r(2) have "dl_version dl = ''1.1''"
    by (simp add: with_token_def sample_request_def sample_upload_def js_lookup_def)
  with r show ?thesis
    by (intro exI [of _ dl] exI [of _ d'] exI [of _ ds]) (simp add: sample_mem_def)
qed

text \<open>Deleting a download with an administrator's token removes exactly the row with that
  identifier and answers 200; an identifier that is not in the table changes nothing and is answered
  with a 500.\<close>

theorem deleted_download_is_gone:
  assumes "live_backend E view em ur" and "claims_admin E cfg now req"
    and "map_of (req_params req) ''id'' = Some i"
  shows "if i \<in> dl_id ` set (downloads (view d))
    then \<exists>d'. downloads_delete_route E cfg now req d = (Inr (res_message 200 ''Download deleted''), d') \<and>
      view d' = (view d)\<lparr>downloads := filter (\<lambda>x. dl_id x \<noteq> i) (downloads (view d))\<rparr>
    else \<exists>d'. downloads_delete_route E cfg now req d = (Inr internal_error, d') \<and> view d' = view d"
  using assms by (rule live_backend.delete_download)

theorem deleted_download_is_gone_witness:
  "\<exists>d'. downloads_delete_route ref_env sample_config 1000000
      ((delete_request root_token)\<lparr>req_params := [(''id'', ''d1'')]\<rparr>) (sample_mem []) =
      (Inr (res_message 200 ''Download deleted''), d') \<and> downloads (mem_tables d') = []"
proof -
  let ?r = "(delete_request root_token)\<lparr>req_params := [(''id'', ''d1'')]\<rparr>"
  have "?r = with_token (sample_request DELETE ''/api/downloads/d1'' JUndefined\<lparr>req_params := [(''id'', ''d1'')]\<rparr>) root_token"
    by (simp add: with_token_def)
  then have a: "claims_admin ref_env sample_config 1000000 ?r" by (simp only: root_claims_admin)
  have "map_of (req_params ?r) ''id'' = Some ''d1''" by simp
  from deleted_download_is_gone [OF live.live_backend_axioms a this, of "sample_mem []"]
  show ?thesis by (auto simp: sample_mem_def sample_download_def)
qed

text \<open>A body its schema does not accept is answered with a 400 by every validated route, and
  nothing else happens: the database stays and the node is not called.\<close>

theorem invalid_body_is_inert:
  assumes "backend E view em ur"
  shows "(\<not> zod_accepts em ur schemas_register (req_body req) \<longrightarrow>
      (\<exists>is. is \<noteq> [] \<and> register_route E salt req d = (Inr (validation_failed is), d))) \<and>
    (\<not> zod_accepts em ur schemas_login (req_body req) \<longrightarrow>
      (\<exists>is. is \<noteq> [] \<and> login_route E cfg now req d = (Inr (validation_failed is), d))) \<and>
    (\<not> zod_accepts em ur schemas_newsletter (req_body req) \<longrightarrow>
      (\<exists>is. is \<noteq> [] \<and> newsletter_route E req d = (Inr (validation_failed is), d))) \<and>
    (\<not> zod_accepts em ur schemas_contact (req_body req) \<longrightarrow>
      (\<exists>is. is \<noteq> [] \<and> contact_route E req d = (Inr (validation_failed is), d))) \<and>
    (\<not> zod_accepts em ur schemas_rpc (req_body req) \<longrightarrow>
      (\<exists>is. is \<noteq> [] \<and> rpc_route E cfg net req = (Inr (validation_failed is), [])))"
proof -
  note rejects = validate_rejects [OF backend.zod [OF assms], of _ req]
  have "\<not> zod_accepts em ur sc (req_body req) \<Longrightarrow>
      \<exists>is. is \<noteq> [] \<and> validate (zod_parse E) sc req = Done (validation_failed is)" for sc
    using rejects by blast
  then show ?thesis
    unfolding register_route_def login_route_def newsletter_route_def contact_route_def rpc_route_def
      run_route_def by (intro conjI impI) fastforce+
qed

theorem invalid_body_is_inert_witness:
  "(\<exists>is. is \<noteq> [] \<and> contact_route ref_env
      (sample_request POST ''/'' (contact_form ''bob@hylium.org'' ''Hi'' ''short'')) (sample_mem []) =
      (Inr (validation_failed is), sample_mem []))"
  using invalid_body_is_inert [OF ref.backend_axioms,
      of "sample_request POST ''/'' (contact_form ''bob@hylium.org'' ''Hi'' ''short'')" _ "sample_mem []"]
  by (simp add: sample_request_def contact_form_accepted)




end
