(* ===== verification/Api_Properties.thy ===== *)
theory Api_Properties
  imports Content_Life
begin

text \<open>
  The properties of the application as a whole: of one request through all of \<open>index.ts\<close> and
  of every sequence of requests an attacker may send.
\<close>

section \<open>Sample runs\<close>

lemmas http_simps = limiter_def authLimiter_def no_limit_def parse_body_def verb_matches_def on_db_def
  run_route_def reading_def

lemma sample_feasible:
  assumes "tok \<in> known" and "CHR '' '' \<notin> set tok"
  shows "feasible E cfg now known (with_token req tok)"
  using assms by (auto simp: feasible_def with_token_def bearer_token_header [simplified])

lemma sample_issuable:
  "sample_user i rl \<in> set us \<Longrightarrow>
     ref_token [show_nat 1900, ''change-me'', i, rl] \<in>
       issuable ref_env sample_config (w_now sample_world) (mem_tables (srv_db (sample_server us)))"
  using sample_signed [of i rl]
  by (auto simp: issuable_def sample_server_def sample_mem_def sample_world_def)

text \<open>One request in the sample server with a token of one of its users.\<close>

lemma sample_run:
  assumes "sample_user i rl \<in> set us"
  obtains resp sent t known where
    "handle_request ref_express ref_env sample_config sample_world
       (delete_request (ref_token [show_nat 1900, ''change-me'', i, rl])) (sample_server us) = (resp, sent, t)"
    "api_run ref_express ref_env sample_config mem_tables (sample_server us) t known"
proof -
  let ?tok = "ref_token [show_nat 1900, ''change-me'', i, rl]"
  let ?known = "{} \<union> issuable ref_env sample_config (w_now sample_world)
    (mem_tables (srv_db (sample_server us)))"
  obtain resp sent t where h: "handle_request ref_express ref_env sample_config sample_world
      (delete_request ?tok) (sample_server us) = (resp, sent, t)"
    by (cases "handle_request ref_express ref_env sample_config sample_world
      (delete_request ?tok) (sample_server us)")
  have "feasible ref_env sample_config (w_now sample_world) ?known (delete_request ?tok)"
    using sample_issuable [OF assms] by (intro sample_feasible) (auto simp: ref_token_no_space)
  from api_run.request [OF api_run.start _ this h] h show thesis by (intro that) auto
qed

lemma sample_authenticate:
  assumes "req_authorization r = Some (''Bearer '' @ ref_token [show_nat 1900, ''change-me'', i, rl])"
  shows "authenticate ref_env sample_config 1000000 r =
    Next (r\<lparr>req_userId := JStr i, req_userRole := JStr rl\<rparr>)"
proof -
  have "r = with_token r (ref_token [show_nat 1900, ''change-me'', i, rl])"
    using assms by (simp add: with_token_def)
  with sample_claims [of r i rl]
  have "token_claims ref_env sample_config 1000000 r = Some (access_claims (sample_user i rl))" by simp
  then show ?thesis
    by (simp add: authenticate_Next_iff access_claims_def sample_user_def js_lookup_def)
qed

lemma root_deletes:
  "handle_request ref_express ref_env sample_config sample_world (delete_request root_token)
     (sample_server [sample_user ''root'' ''ADMIN'']) =
     (res_message 200 ''Download deleted'', [],
      (sample_server [sample_user ''root'' ''ADMIN''])
        \<lparr>srv_db := (sample_mem [sample_user ''root'' ''ADMIN''])
           \<lparr>mem_tables := empty_tables\<lparr>users := [sample_user ''root'' ''ADMIN'']\<rparr>\<rparr>,
         srv_limiter := [(''127.0.0.1'', 1000000, 1)]\<rparr>)"
  by (simp add: handler_defs http_simps sample_limits sample_authenticate sample_tokens
      sample_world_def sample_server_def with_token_def sample_request_def sample_mem_def
      sample_download_def requireAdmin_def ref_express_def ref_limit_def ref_mount_def ref_route_def
      ref_env_sel mem_defs empty_tables_def)

section \<open>Authorization\<close>

text \<open>C2: No sequence of requests escalates: if the database has no administrator, then whatever
  requests an attacker sends, in any order, with any token the server could have signed for its
  users so far, there never is an administrator and the download list never changes.\<close>

theorem downloads_no_escalation:
  assumes "backend E view em ur" and "jwt_faithful E"
    and "api_run X E cfg view s0 s known" and "admins (view (srv_db s0)) = {}"
  shows "admins (view (srv_db s)) = {} \<and> downloads (view (srv_db s)) = downloads (view (srv_db s0))"
  using api_run_admins [OF assms(1,3)] api_run_downloads [OF assms] assms(4) by simp

theorem downloads_no_escalation_witness:
  "\<exists>resp sent t. handle_request ref_express ref_env sample_config sample_world (delete_request ann_token)
     (sample_server [ann]) = (resp, sent, t) \<and> downloads (mem_tables (srv_db t)) = [sample_download]"
proof -
  have "ann \<in> set [ann]" by simp
  then obtain resp sent t known where h:
    "handle_request ref_express ref_env sample_config sample_world (delete_request ann_token)
       (sample_server [ann]) = (resp, sent, t)"
    "api_run ref_express ref_env sample_config mem_tables (sample_server [ann]) t known"
    unfolding sample_tokens by (rule sample_run)
  have "admins (mem_tables (srv_db (sample_server [ann]))) = {}"
    by (simp add: admins_def sample_defs)
  from downloads_no_escalation [OF ref.backend_axioms ref_jwt_faithful h(2) this] h(1)
  show ?thesis by (auto simp: sample_server_def sample_mem_def)
qed

text \<open>C5: In every sequence of requests, a request that changes the download list carries a token
  whose claims name a user that was an administrator of the database from the start.\<close>

theorem downloads_change_by_admin:
  assumes "backend E view em ur" and "jwt_faithful E"
    and "api_run X E cfg view s0 s known"
    and "known' = known \<union> issuable E cfg (w_now w) (view (srv_db s))"
    and "feasible E cfg (w_now w) known' req"
    and "handle_request X E cfg w req s = (resp, sent, t)"
    and "downloads (view (srv_db t)) \<noteq> downloads (view (srv_db s))"
  shows "\<exists>u \<in> admins (view (srv_db s0)). \<exists>p.
    token_claims E cfg (w_now w) req = Some p \<and> js_opt_get p ''userId'' = JStr (user_id u) \<and>
    js_opt_get p ''role'' = JStr ''ADMIN''"
proof -
  from request_effect [OF assms(1,6)] obtain eff where
    eff: "table_step E em ur (view (srv_db s)) eff (view (srv_db t))"
    and adm: "admin_effect eff \<longrightarrow> claims_admin E cfg (w_now w) req" by blast
  have "admin_effect eff" using table_step_downloads [OF eff] assms(7) by blast
  with adm have c: "claims_admin E cfg (w_now w) req" by blast
  have "signed_for_users E (view (srv_db s)) known'"
    using api_run_signed [OF assms(1,3)]
    by (simp add: assms(4) signed_for_users_Un signed_for_users_issuable)
  from feasible_admin [OF assms(2,5) this c] obtain u p where
    "u \<in> admins (view (srv_db s))" "token_claims E cfg (w_now w) req = Some p"
    "js_opt_get p ''userId'' = JStr (user_id u)" by (auto simp: admins_def)
  moreover from this(2) c have "js_opt_get p ''role'' = JStr ''ADMIN''" by (auto simp: claims_admin_def)
  ultimately show ?thesis using api_run_admins [OF assms(1,3)] by blast
qed

theorem downloads_change_by_admin_witness:
  "\<exists>resp sent t. handle_request ref_express ref_env sample_config sample_world (delete_request root_token)
     (sample_server [sample_user ''root'' ''ADMIN'']) = (resp, sent, t) \<and>
   downloads (mem_tables (srv_db t)) = [] \<and>
   (\<exists>p. token_claims ref_env sample_config 1000000 (delete_request root_token) = Some p \<and>
      js_opt_get p ''userId'' = JStr ''root'' \<and> js_opt_get p ''role'' = JStr ''ADMIN'')"
proof -
  let ?root = "sample_user ''root'' ''ADMIN''"
  let ?s = "sample_server [?root]"
  let ?known = "{} \<union> issuable ref_env sample_config (w_now sample_world) (mem_tables (srv_db ?s))"
  obtain resp sent t where h: "handle_request ref_express ref_env sample_config sample_world
      (delete_request root_token) ?s = (resp, sent, t)" "downloads (mem_tables (srv_db t)) = []"
    unfolding root_deletes by (simp add: empty_tables_def)
  have f: "feasible ref_env sample_config (w_now sample_world) ?known (delete_request root_token)"
    using sample_issuable [of "''root''" "''ADMIN''" "[?root]"]
    by (intro sample_feasible) (auto simp: sample_tokens ref_token_no_space)
  have ch: "downloads (mem_tables (srv_db t)) \<noteq> downloads (mem_tables (srv_db ?s))"
    using h(2) by (simp add: sample_server_def sample_mem_def)
  from downloads_change_by_admin [OF ref.backend_axioms ref_jwt_faithful api_run.start _ f h(1) ch] h
  show ?thesis by (auto simp: admins_def sample_server_def sample_mem_def sample_world_def sample_user_def)
qed

text \<open>The two routes that write the download list answer 401 to a request without a valid
  token and 403 to a valid token of a role other than \<open>ADMIN\<close>, before they look at the body, and
  leave the database as it is.\<close>

theorem admin_gate_responses:
  "(token_claims E cfg now req = None \<longrightarrow>
      (\<exists>msg. downloads_add_route E cfg now req d = (Inr (res_error 401 msg), d) \<and>
             downloads_delete_route E cfg now req d = (Inr (res_error 401 msg), d))) \<and>
   (\<forall>p. token_claims E cfg now req = Some p \<longrightarrow> js_opt_get p ''role'' \<noteq> JStr ''ADMIN'' \<longrightarrow>
      downloads_add_route E cfg now req d = (Inr (res_error 403 ''Admin access required''), d) \<and>
      downloads_delete_route E cfg now req d = (Inr (res_error 403 ''Admin access required''), d))"
  by (cases rule: authenticate_cases [of E cfg now req])
    (auto simp: downloads_add_route_def downloads_delete_route_def run_route_def requireAdmin_def)

theorem admin_gate_responses_witness:
  "(\<exists>msg. downloads_delete_route ref_env sample_config 1000000 (sample_request DELETE ''/d1'' JUndefined)
     (sample_mem [ann]) = (Inr (res_error 401 msg), sample_mem [ann])) \<and>
   downloads_delete_route ref_env sample_config 1000000 (delete_request ann_token) (sample_mem [ann]) =
     (Inr (res_error 403 ''Admin access required''), sample_mem [ann])"
proof -
  note gate = admin_gate_responses [of ref_env sample_config 1000000 _ "sample_mem [ann]"]
  have "token_claims ref_env sample_config 1000000 (sample_request DELETE ''/d1'' JUndefined) = None"
    by (simp add: token_claims_def sample_request_def)
  moreover have "token_claims ref_env sample_config 1000000 (delete_request ann_token) =
      Some (access_claims ann)"
    unfolding sample_tokens by (rule sample_claims)
  moreover have "js_opt_get (access_claims ann) ''role'' \<noteq> JStr ''ADMIN''"
    by (simp add: access_claims_def sample_user_def js_lookup_def)
  ultimately show ?thesis using gate by blast
qed

section \<open>The database\<close>

text \<open>C6: Every request is at most one step of the abstract specification of the database: it does
  nothing, or it adds one validated row with fresh unique keys, or it deletes one download; and a
  step on the downloads needs a token that claims the role \<open>ADMIN\<close>.\<close>

theorem request_refines_spec:
  assumes "backend E view em ur"
  shows "\<exists>eff. table_step E em ur (view (srv_db s)) eff
           (view (srv_db (snd (snd (handle_request X E cfg w req s))))) \<and>
         (admin_effect eff \<longrightarrow> claims_admin E cfg (w_now w) req)"
  using request_effect [OF assms, of X cfg w req s "fst (handle_request X E cfg w req s)"
      "fst (snd (handle_request X E cfg w req s))"] by simp

theorem request_refines_spec_witness:
  "\<exists>eff. table_step ref_env ref_email ref_url
       (mem_tables (sample_mem [sample_user ''root'' ''ADMIN''])) eff
       (empty_tables\<lparr>users := [sample_user ''root'' ''ADMIN'']\<rparr>) \<and>
     (admin_effect eff \<longrightarrow> claims_admin ref_env sample_config 1000000 (delete_request root_token))"
  using request_refines_spec [OF ref.backend_axioms, of "sample_server [sample_user ''root'' ''ADMIN'']"
      ref_express sample_config sample_world "delete_request root_token"]
  unfolding root_deletes by (simp add: sample_server_def sample_world_def)

text \<open>C7: No sequence of requests breaks the database: identifiers and addresses stay unique, and
  every row keeps having passed its validation (an address Zod accepts, a bcrypt hash of a password
  of at least eight characters, the length limits of a message, a known platform and a URL).\<close>

theorem database_invariant:
  assumes "backend E view em ur" and "api_run X E cfg view s0 s known"
    and "db_inv E em ur (view (srv_db s0))"
  shows "db_inv E em ur (view (srv_db s))"
  using assms by (rule api_run_inv)

theorem database_invariant_witness:
  "db_inv ref_env ref_email ref_url (mem_tables (srv_db (snd (snd (handle_request ref_express ref_env
     sample_config sample_world (delete_request root_token)
     (sample_server [sample_user ''root'' ''ADMIN'']))))))"
proof -
  let ?root = "sample_user ''root'' ''ADMIN''"
  have "?root \<in> set [?root]" by simp
  then obtain resp sent t known where h:
    "handle_request ref_express ref_env sample_config sample_world (delete_request root_token)
       (sample_server [?root]) = (resp, sent, t)"
    "api_run ref_express ref_env sample_config mem_tables (sample_server [?root]) t known"
    unfolding sample_tokens by (rule sample_run)
  have "user_valid ref_env ref_email ?root"
    unfolding user_valid_def
    by (rule conjI, simp add: ref_email_def sample_user_def, rule exI [of _ "''correct horse''"],
        rule exI [of _ "[]"], simp add: sample_user_def ref_env_sel ref_hash_def nibbles_def)
  then have "db_inv ref_env ref_email ref_url (mem_tables (srv_db (sample_server [?root])))"
    by (simp add: db_inv_def tables_wf_def rows_valid_def sample_server_def sample_mem_def
        empty_tables_def download_valid_def sample_download_def ref_url_def)
  from database_invariant [OF ref.backend_axioms h(2) this] h(1) show ?thesis by simp
qed

section \<open>What leaves the server\<close>

text \<open>Whatever the request, every call it makes to the node asks for a method of the
  whitelist.\<close>

theorem node_calls_whitelisted:
  shows "list_all whitelisted (fst (snd (handle_request X E cfg w req s)))"
  using request_sends_whitelisted [of X E cfg w req s "fst (handle_request X E cfg w req s)"
      _ "snd (snd (handle_request X E cfg w req s))"] by simp

section \<open>Requests that do not get through\<close>

text \<open>C38: A request a rate limiter refuses is answered with a 429 and has no other effect: the
  database and the statistics cache stay, the node is not asked. The general limiter stands in front
  of everything but CORS preflights, the stricter one in front of the authentication routes.\<close>

theorem limited_requests_are_inert:
  assumes "handle_request X E cfg w req s = (resp, sent, t)"
    and "cors_answers X (cfg_cors_origin cfg) req = None"
    and "\<not> fst (rate_limit X (cfg_rateLimit cfg) (srv_limiter s) (req_ip req) (w_now w)) \<or>
      (parse_body X req = Inr r \<and>
       \<not> (verb_matches GET (req_method req) \<and> route_match X ''/health'' (req_path req) \<noteq> None) \<and>
       mount_match X ''/api/auth'' (req_path req) = Some rest \<and>
       \<not> fst (rate_limit X auth_limit_config (srv_authLimiter s) (req_ip req) (w_now w)))"
  shows "resp_status resp = 429 \<and> sent = [] \<and> quiet s t"
proof (cases "fst (rate_limit X (cfg_rateLimit cfg) (srv_limiter s) (req_ip req) (w_now w))")
  case False
  then have "limiter X cfg w req s = (Some too_many_requests, snd (limiter X cfg w req s))"
    and "quiet s (snd (limiter X cfg w req s))"
    by (simp_all add: limiter_def quiet_def Let_def case_prod_beta)
  with assms(1,2) show ?thesis
    by (auto simp: handle_request_def too_many_requests_def split: prod.splits)
next
  case True
  then obtain s1 where l: "limiter X cfg w req s = (None, s1)" and q: "quiet s s1"
    and al: "srv_authLimiter s1 = srv_authLimiter s"
    by (simp_all add: limiter_def quiet_def Let_def case_prod_beta)
  from True assms(3) have p: "parse_body X req = Inr r"
    and h: "\<not> (verb_matches GET (req_method req) \<and> route_match X ''/health'' (req_path req) \<noteq> None)"
    and m: "mount_match X ''/api/auth'' (req_path req) = Some rest"
    and a: "\<not> fst (rate_limit X auth_limit_config (srv_authLimiter s) (req_ip req) (w_now w))"
    by blast+
  from p have r: "req_method r = req_method req" "req_path r = req_path req" "req_ip r = req_ip req"
    by (auto simp: parse_body_def split: sum.splits)
  have "routed X E cfg w r s1 = (Inr too_many_logins, [], snd (authLimiter X w r s1))"
    using h m a al by (auto simp: routed_def mounts_def authLimiter_def Let_def case_prod_beta r)
  moreover have "quiet s (snd (authLimiter X w r s1))"
    using q by (simp add: authLimiter_def quiet_def Let_def case_prod_beta)
  ultimately show ?thesis
    using assms(1,2) l p by (auto simp: handle_request_def too_many_logins_def)
qed

theorem limited_requests_are_inert_witness:
  "resp_status (fst (handle_request ref_express ref_env sample_config sample_world
     (ann_login ''correct horse''\<lparr>req_path := ''/api/auth/login''\<rparr>)
     ((sample_server [ann])\<lparr>srv_authLimiter := [(''127.0.0.1'', 999999, 10)]\<rparr>))) = 429"
proof -
  let ?req = "ann_login ''correct horse''\<lparr>req_path := ''/api/auth/login''\<rparr>"
  let ?s = "(sample_server [ann])\<lparr>srv_authLimiter := [(''127.0.0.1'', 999999, 10)]\<rparr>"
  have "cors_answers ref_express (cfg_cors_origin sample_config) ?req = None"
    by (simp add: ref_express_def sample_request_def)
  note cors = this
  have "parse_body ref_express ?req = Inr ?req \<and>
      \<not> (verb_matches GET (req_method ?req) \<and> route_match ref_express ''/health'' (req_path ?req) \<noteq> None) \<and>
      mount_match ref_express ''/api/auth'' (req_path ?req) = Some ''/login'' \<and>
      \<not> fst (rate_limit ref_express auth_limit_config (srv_authLimiter ?s) (req_ip ?req) (w_now sample_world))"
    by (simp add: ref_express_def parse_body_def verb_matches_def ref_mount_def ref_limit_def
        auth_limit_config_def sample_request_def sample_server_def sample_world_def)
  from limited_requests_are_inert [OF _ cors disjI2 [OF this]] show ?thesis
    by (cases "handle_request ref_express ref_env sample_config sample_world ?req ?s") simp
qed

text \<open>A body the JSON parser rejects (malformed, or larger than 10 kB) is answered with the 500 of
  the error handler and changes nothing but the limiter: the handler does not look at the status the
  parser's error carries.\<close>

theorem malformed_body_500:
  assumes "handle_request X E cfg w req s = (resp, sent, t)" and "cors_answers X (cfg_cors_origin cfg) req = None"
    and "fst (rate_limit X (cfg_rateLimit cfg) (srv_limiter s) (req_ip req) (w_now w))"
    and "json_body X ''10kb'' req = Inl e"
  shows "resp = internal_error \<and> sent = [] \<and> quiet s t"
  using assms
  by (auto simp: handle_request_def limiter_def parse_body_def error_handler_def quiet_def
      split: if_splits prod.splits)

theorem malformed_body_500_witness:
  "fst (handle_request ref_express ref_env sample_config sample_world
     ((sample_request POST ''/api/newsletter'' JUndefined)\<lparr>req_raw := ''{''\<rparr>) (sample_server [])) = internal_error"
proof -
  let ?req = "(sample_request POST ''/api/newsletter'' JUndefined)\<lparr>req_raw := ''{''\<rparr>"
  have "cors_answers ref_express (cfg_cors_origin sample_config) ?req = None"
    "fst (rate_limit ref_express (cfg_rateLimit sample_config) (srv_limiter (sample_server [])) (req_ip ?req)
      (w_now sample_world))"
    "json_body ref_express ''10kb'' ?req = Inl SyntaxError"
    by (simp_all add: ref_express_def ref_limit_def sample_limits sample_server_def sample_request_def)
  from malformed_body_500 [OF _ this] show ?thesis
    by (cases "handle_request ref_express ref_env sample_config sample_world ?req (sample_server [])") simp
qed

section \<open>Settings without effect\<close>

text \<open>A configuration with other token lifetimes.\<close>

definition with_lifetimes :: "string \<Rightarrow> string \<Rightarrow> config \<Rightarrow> config" where
  "with_lifetimes a r cfg =
     cfg\<lparr>cfg_jwt := (cfg_jwt cfg)\<lparr>jwt_expiresIn := a, jwt_refreshExpiresIn := r\<rparr>\<rparr>"

lemma with_lifetimes_sel [simp]:
  "jwt_secret (cfg_jwt (with_lifetimes a r cfg)) = jwt_secret (cfg_jwt cfg)"
  "jwt_refreshSecret (cfg_jwt (with_lifetimes a r cfg)) = jwt_refreshSecret (cfg_jwt cfg)"
  "cfg_hyliumRpc (with_lifetimes a r cfg) = cfg_hyliumRpc cfg"
  "cfg_cors_origin (with_lifetimes a r cfg) = cfg_cors_origin cfg"
  "cfg_rateLimit (with_lifetimes a r cfg) = cfg_rateLimit cfg"
  by (simp_all add: with_lifetimes_def)

lemma with_lifetimes_handlers:
  "authenticate E (with_lifetimes a r cfg) = authenticate E cfg"
  "login_handler E (with_lifetimes a r cfg) = login_handler E cfg"
  "refresh_handler E (with_lifetimes a r cfg) = refresh_handler E cfg"
  "rpc_request (with_lifetimes a r cfg) = rpc_request cfg"
  by (intro ext; unfold authenticate_def login_handler_def refresh_handler_def rpc_request_def
      with_lifetimes_sel; rule refl)+

lemma with_lifetimes_rpc:
  "rpc_handler (with_lifetimes a r cfg) = rpc_handler cfg"
  "stats_handler (with_lifetimes a r cfg) = stats_handler cfg"
  by (intro ext; unfold rpc_handler_def callRpc_def stats_handler_def stats_callRpc_def
      with_lifetimes_handlers; rule refl)+

text \<open>The settings \<open>JWT_EXPIRES_IN\<close> and \<open>JWT_REFRESH_EXPIRES_IN\<close> have no effect: with any
  other values of them every request is served in the same way, since the routes sign with the
  lifetimes they have written out.\<close>

theorem lifetime_settings_ignored:
  "handle_request X E (with_lifetimes a r cfg) w req s = handle_request X E cfg w req s"
proof -
  have "mounts X E (with_lifetimes a r cfg) w = mounts X E cfg w"
    unfolding mounts_def authRoutes_def downloadsRoutes_def login_route_def refresh_route_def
      me_route_def downloads_add_route_def downloads_delete_route_def stats_action_def rpc_action_def
      rpc_route_def with_lifetimes_handlers with_lifetimes_rpc by (rule refl)
  then show ?thesis
    unfolding handle_request_def routed_def limiter_def with_lifetimes_sel by (rule ssubst) (rule refl)
qed

end
