(* ===== verification/Interleaving.thy ===== *)
theory Interleaving
  imports Api_Properties
begin

text \<open>
  Requests in flight at the same time. A handler gives up the thread at every \<open>await\<close>, so
  between the lookup of an address and the insertion of its row other requests may run. The two
  handlers that look before they write (\<open>routes/auth.ts\<close> for registrations,
  \<open>routes/newsletter.ts\<close>) are cut into their segments between the awaits; a server runs any
  number of them in any interleaving, one segment at a time. Run without interruption the segments
  make up the handlers of \<open>Auth_Routes\<close> and \<open>Content_Routes\<close>.
\<close>

section \<open>Tasks\<close>

datatype route_kind = Register | Newsletter

text \<open>Where a request is: before its lookup, before its hash, before its insertion with the hashed
  password, or answered.\<close>

datatype pc = AtFind | AtHash | AtCreate string | Sent response

record task =
  task_kind :: route_kind
  task_req :: request
  task_pc :: pc

abbreviation task_email :: "task \<Rightarrow> jsval" where
  "task_email t \<equiv> js_opt_get (req_body (task_req t)) ''email''"

abbreviation task_password :: "task \<Rightarrow> jsval" where
  "task_password t \<equiv> js_opt_get (req_body (task_req t)) ''password''"

definition user_created :: "user \<Rightarrow> response" where
  "user_created u =
     res_json 201 (JObj [jstr_field ''message'' ''User created successfully'',
                         jstr_field ''userId'' (user_id u)])"

text \<open>The segments of the registration: validation and lookup, hash, insertion.\<close>

definition register_step :: "'db env \<Rightarrow> string \<Rightarrow> task \<Rightarrow> 'db \<Rightarrow> pc \<times> 'db" where
  "register_step E salt t d =
     (case task_pc t of
        AtFind \<Rightarrow>
          (case validate (zod_parse E) schemas_register (task_req t) of
             Done resp \<Rightarrow> (Sent resp, d)
           | Fail e \<Rightarrow> (Sent (error_handler e), d)
           | Next r \<Rightarrow>
               (case (js_get (req_body r) ''email'', js_get (req_body r) ''password'') of
                  (Inr email, Inr password) \<Rightarrow>
                    (case user_findUnique_email (prisma E) email d of
                       Inl _ \<Rightarrow> (Sent internal_error, d)
                     | Inr (Some _) \<Rightarrow> (Sent (res_error 400 ''Email already registered''), d)
                     | Inr None \<Rightarrow> (AtHash, d))
                | _ \<Rightarrow> (Sent internal_error, d)))
      | AtHash \<Rightarrow>
          (case bcrypt_hash E (task_password t) 12 salt of
             Inl _ \<Rightarrow> (Sent internal_error, d)
           | Inr hashedPassword \<Rightarrow> (AtCreate hashedPassword, d))
      | AtCreate hashedPassword \<Rightarrow>
          (case user_create (prisma E) (task_email t) hashedPassword d of
             (Inl _, d') \<Rightarrow> (Sent internal_error, d')
           | (Inr user, d') \<Rightarrow> (Sent (user_created user), d'))
      | Sent resp \<Rightarrow> (Sent resp, d))"

text \<open>The segments of the subscription: validation and lookup, insertion.\<close>

definition newsletter_step :: "'db env \<Rightarrow> task \<Rightarrow> 'db \<Rightarrow> pc \<times> 'db" where
  "newsletter_step E t d =
     (case task_pc t of
        AtFind \<Rightarrow>
          (case validate (zod_parse E) schemas_newsletter (task_req t) of
             Done resp \<Rightarrow> (Sent resp, d)
           | Fail e \<Rightarrow> (Sent (error_handler e), d)
           | Next r \<Rightarrow>
               (case js_get (req_body r) ''email'' of
                  Inl _ \<Rightarrow> (Sent internal_error, d)
                | Inr email \<Rightarrow>
                    (case newsletter_findUnique (prisma E) email d of
                       Inl _ \<Rightarrow> (Sent internal_error, d)
                     | Inr (Some _) \<Rightarrow> (Sent (res_message 200 ''Already subscribed''), d)
                     | Inr None \<Rightarrow> (AtCreate [], d))))
      | AtHash \<Rightarrow> (AtHash, d)
      | AtCreate _ \<Rightarrow>
          (case newsletter_create (prisma E) (task_email t) d of
             (Inl _, d') \<Rightarrow> (Sent internal_error, d')
           | (Inr _, d') \<Rightarrow> (Sent (res_message 201 ''Subscribed successfully''), d'))
      | Sent resp \<Rightarrow> (Sent resp, d))"

definition task_step :: "'db env \<Rightarrow> string \<Rightarrow> task \<Rightarrow> 'db \<Rightarrow> task \<times> 'db" where
  "task_step E salt t d =
     (let (pc', d') = (case task_kind t of Register \<Rightarrow> register_step E salt t d
                                        | Newsletter \<Rightarrow> newsletter_step E t d)
      in (t\<lparr>task_pc := pc'\<rparr>, d'))"

text \<open>One segment of one of the tasks runs.\<close>

inductive conc_step :: "'db env \<Rightarrow> task list \<times> 'db \<Rightarrow> task list \<times> 'db \<Rightarrow> bool"
  for E :: "'db env" where
  segment:
    "i < length ts \<Longrightarrow> task_step E salt (ts ! i) d = (t', d') \<Longrightarrow>
     conc_step E (ts, d) (ts[i := t'], d')"



section \<open>The segments make up the handlers\<close>




section \<open>Invariants\<close>




lemma user_created_eq [simp]: "user_created u = user_created v \<longleftrightarrow> user_id u = user_id v"
  by (auto simp: user_created_def res_json_def)

lemma user_created_status [simp]: "resp_status (user_created u) = 201"
  by (simp add: user_created_def)

lemma quiet_statuses [simp]:
  "resp_status (validation_failed is) = 400" "resp_status (error_handler e) = 500"
  by (simp_all add: validation_failed_def error_handler_def)


text \<open>The segments of a registration of valid credentials.\<close>

definition registering :: "request \<Rightarrow> pc \<Rightarrow> task" where
  "registering req p = \<lparr>task_kind = Register, task_req = req, task_pc = p\<rparr>"

context live_backend
begin

lemma find_segment:
  assumes "req_body req = credentials e p" and "em e" and "8 \<le> length p"
    and "e \<notin> user_email ` set (users (view d))"
  shows "task_step E salt (registering req AtFind) d = (registering req AtHash, d)"
proof -
  have "validate (zod_parse E) schemas_register req = Next req"
    using assms by (intro validate_accepts [OF zod]) (simp add: credentials_register)
  moreover have "find (\<lambda>u. user_email u = e) (users (view d)) = None"
    using assms(4) by (simp add: find_None_map)
  ultimately show ?thesis
    using assms(1) by (simp add: task_step_def register_step_def registering_def find_email_eq)
qed

lemma hash_segment:
  assumes "req_body req = credentials e p"
  obtains h where "task_step E salt (registering req AtHash) d = (registering req (AtCreate h), d)"
proof -
  obtain h where "bcrypt_hash E (JStr p) 12 salt = Inr h"
    using hashing unfolding bcrypt_correct_def by blast
  moreover have "js_opt_get (req_body req) ''password'' = JStr p"
    using assms by (simp add: credentials_def js_lookup_def)
  ultimately have "task_step E salt (registering req AtHash) d = (registering req (AtCreate h), d)"
    by (simp add: task_step_def register_step_def registering_def)
  then show thesis by (rule that)
qed

lemma create_segment_fresh:
  assumes "req_body req = credentials e p" and "e \<notin> user_email ` set (users (view d))"
  obtains u d' where
    "task_step E salt (registering req (AtCreate h)) d = (registering req (Sent (user_created u)), d')"
    "user_email u = e" "u \<in> set (users (view d'))"
proof -
  obtain u d' where c: "user_create (prisma E) (JStr e) h d = (Inr u, d')"
    using user_create_total [OF assms(2)] by blast
  moreover have "js_opt_get (req_body req) ''email'' = JStr e"
    using assms(1) by (simp add: credentials_def js_lookup_def)
  ultimately have "task_step E salt (registering req (AtCreate h)) d =
      (registering req (Sent (user_created u)), d')"
    by (simp add: task_step_def register_step_def registering_def)
  with user_create_Inr [OF c] show thesis by (intro that [of u d']) auto
qed

lemma create_segment_taken:
  assumes "req_body req = credentials e p" and "e \<in> user_email ` set (users (view d))"
  obtains d' where
    "task_step E salt (registering req (AtCreate h)) d = (registering req (Sent internal_error), d')"
    "view d' = view d"
proof -
  obtain r d' where c: "user_create (prisma E) (JStr e) h d = (r, d')"
    by (cases "user_create (prisma E) (JStr e) h d")
  have "js_opt_get (req_body req) ''email'' = JStr e"
    using assms(1) by (simp add: credentials_def js_lookup_def)
  moreover obtain x where "r = Inl x"
    using c assms(2) user_create_Inr [of "JStr e" h d _ d'] by (cases r) auto
  ultimately have "task_step E salt (registering req (AtCreate h)) d =
      (registering req (Sent internal_error), d')" and "view d' = view d"
    using c user_create_Inl by (auto simp: task_step_def register_step_def registering_def)
  then show thesis by (rule that)
qed

text \<open>Two overlapping registrations of one fresh address, segment by segment in turn.\<close>

lemma race_trace:
  assumes c: "req_body req = credentials e p" and "em e" and "8 \<le> length p"
    and new: "e \<notin> user_email ` set (users (view d))"
  obtains u d' where
    "reach (\<lambda>s. s = ([registering req AtFind, registering req AtFind], d)) (conc_step E)
       ([registering req (Sent (user_created u)), registering req (Sent internal_error)], d')"
    "user_email u = e"
proof -
  let ?R = "reach (\<lambda>s. s = ([registering req AtFind, registering req AtFind], d)) (conc_step E)"
  fix salt
  note find = find_segment [OF assms, of salt]
  obtain h where hash: "task_step E salt (registering req AtHash) d = (registering req (AtCreate h), d)"
    by (rule hash_segment [OF c])
  obtain u d1 where first: "task_step E salt (registering req (AtCreate h)) d =
      (registering req (Sent (user_created u)), d1)" "user_email u = e" "u \<in> set (users (view d1))"
    by (rule create_segment_fresh [OF c new])
  then have "e \<in> user_email ` set (users (view d1))" by blast
  then obtain d2 where second: "task_step E salt (registering req (AtCreate h)) d1 =
      (registering req (Sent internal_error), d2)" by (rule create_segment_taken [OF c])
  have step0: "?R ([a, b], x) \<Longrightarrow> task_step E salt a x = (a', y) \<Longrightarrow> ?R ([a', b], y)" for a b a' x y
    by (erule reach_step) (use conc_step.segment [of 0 "[a, b]" E salt x a' y] in simp)
  have step1: "?R ([a, b], x) \<Longrightarrow> task_step E salt b x = (b', y) \<Longrightarrow> ?R ([a, b'], y)" for a b b' x y
    by (erule reach_step) (use conc_step.segment [of 1 "[a, b]" E salt x b' y] in simp)
  have "?R ([registering req AtFind, registering req AtFind], d)" by (rule reach_init) simp
  then have "?R ([registering req AtHash, registering req AtHash], d)"
    using step0 [OF _ find] step1 [OF _ find] by blast
  then have "?R ([registering req (AtCreate h), registering req (AtCreate h)], d)"
    using step0 [OF _ hash] step1 [OF _ hash] by blast
  then have "?R ([registering req (Sent (user_created u)), registering req (Sent internal_error)], d2)"
    using step0 [OF _ first(1)] step1 [OF _ second] by blast
  from this first(2) show thesis by (rule that)
qed

end


section \<open>Properties\<close>



text \<open>C40: Two registrations of one fresh address that overlap: both find the address free, the one
  that inserts first is answered with a 201, and the other with a 500, although the same two
  requests one after the other are answered with a 201 and the 400 of a registered address.\<close>

theorem registration_race:
  assumes lb: "live_backend E view em ur" and c: "req_body req = credentials e p" and "em e" and "8 \<le> length p"
    and new: "e \<notin> user_email ` set (users (view d))"
  shows "\<exists>u d'. reach (\<lambda>s. s = ([registering req AtFind, registering req AtFind], d)) (conc_step E)
      ([registering req (Sent (user_created u)), registering req (Sent internal_error)], d') \<and>
    user_email u = e \<and>
    (\<exists>u1 d1. register_route E salt req d = (Inr (user_created u1), d1) \<and>
       register_route E salt req d1 = (Inr (res_error 400 ''Email already registered''), d1))"
proof -
  obtain u d' where race: "reach (\<lambda>s. s = ([registering req AtFind, registering req AtFind], d)) (conc_step E)
      ([registering req (Sent (user_created u)), registering req (Sent internal_error)], d')" "user_email u = e"
    by (rule live_backend.race_trace [OF assms])
  obtain u1 d1 where reg: "register_route E salt req d = (Inr (user_created u1), d1)"
      "user_email u1 = e" "view d1 = (view d)\<lparr>users := users (view d) @ [u1]\<rparr>"
    using live_backend.register_fresh [OF assms, of salt] unfolding user_created_def by blast
  then have "register_route E salt req d1 = (Inr (res_error 400 ''Email already registered''), d1)"
    using live_backend.register_taken [OF assms(1-4)] by simp
  with race reg show ?thesis by blast
qed

lemma eve_registers:
  "req_body (sample_request POST ''/'' (credentials ''eve@hylium.org'' ''password'')) =
     credentials ''eve@hylium.org'' ''password''"
  "ref_email ''eve@hylium.org''" "8 \<le> length ''password''"
  "''eve@hylium.org'' \<notin> user_email ` set (users (mem_tables (sample_mem [])))"
  by (simp_all add: sample_request_def ref_email_def sample_mem_def empty_tables_def)

theorem registration_race_witness:
  "\<exists>u d'. reach (\<lambda>s. s = ([registering (sample_request POST ''/'' (credentials ''eve@hylium.org'' ''password'')) AtFind,
        registering (sample_request POST ''/'' (credentials ''eve@hylium.org'' ''password'')) AtFind], sample_mem []))
      (conc_step ref_env)
      ([registering (sample_request POST ''/'' (credentials ''eve@hylium.org'' ''password'')) (Sent (user_created u)),
        registering (sample_request POST ''/'' (credentials ''eve@hylium.org'' ''password'')) (Sent internal_error)], d')"
  using registration_race [OF live.live_backend_axioms eve_registers] by blast


end
