(* ===== verification/Website_Api.thy ===== *)
theory Website_Api
  imports Rpc_Route
begin

text \<open>
  \<open>website/src/services/api.ts\<close>: the calls the website makes to the backend. The network is
  the same kind of function as in \<open>Rpc_Route\<close>; the promise of a call is the value it resolves
  to, and no call rejects, since \<open>fetchApi\<close> catches what \<open>fetch\<close> and
  \<open>json()\<close> throw.
\<close>

definition API_BASE :: string where
  "API_BASE = ''http://localhost:3001/api''"

text \<open>\<open>ApiResponse\<close>: an absent field is \<^term>\<open>JUndefined\<close>.\<close>

record api_response =
  api_data :: jsval
  api_error :: jsval

text \<open>The parts of \<open>RequestInit\<close> the callers give: the method and the body.\<close>

record request_init =
  init_method :: string
  init_body :: jsval

definition api_request :: "string \<Rightarrow> request_init option \<Rightarrow> fetch_request" where
  "api_request endpoint options =
     \<lparr>fetch_url = API_BASE @ endpoint,
      fetch_method = (case options of None \<Rightarrow> ''GET'' | Some i \<Rightarrow> init_method i),
      fetch_headers = [(''Content-Type'', ''application/json'')],
      fetch_body = (case options of None \<Rightarrow> JUndefined | Some i \<Rightarrow> init_body i)\<rparr>"

text \<open>\<open>response.ok\<close>.\<close>

definition response_ok :: "nat \<Rightarrow> bool" where
  "response_ok st = (200 \<le> st \<and> st \<le> 299)"

definition fetchApi :: "network \<Rightarrow> string \<Rightarrow> request_init option \<Rightarrow> api_response" where
  "fetchApi net endpoint options =
     (let network_error = \<lparr>api_data = JUndefined, api_error = JStr ''Network error''\<rparr>
      in case net (api_request endpoint options) of
           FetchRejected \<Rightarrow> network_error
         | FetchResponse _ (Inl _) \<Rightarrow> network_error
         | FetchResponse st (Inr data) \<Rightarrow>
             if \<not> response_ok st
             then (case js_get data ''error'' of
                     Inl _ \<Rightarrow> network_error
                   | Inr err \<Rightarrow>
                       \<lparr>api_data = JUndefined, api_error = js_or err (JStr ''Request failed'')\<rparr>)
             else \<lparr>api_data = data, api_error = JUndefined\<rparr>)"

definition getStats :: "network \<Rightarrow> api_response" where
  "getStats net = fetchApi net ''/stats'' None"

definition subscribeNewsletter :: "network \<Rightarrow> string \<Rightarrow> api_response" where
  "subscribeNewsletter net email =
     fetchApi net ''/newsletter''
       (Some \<lparr>init_method = ''POST'', init_body = json_wire (JObj [jstr_field ''email'' email])\<rparr>)"

definition submitContact :: "network \<Rightarrow> string \<Rightarrow> string \<Rightarrow> string \<Rightarrow> api_response" where
  "submitContact net email subject message =
     fetchApi net ''/contact''
       (Some \<lparr>init_method = ''POST'',
             init_body = json_wire (JObj [jstr_field ''email'' email, jstr_field ''subject'' subject,
                                          jstr_field ''message'' message])\<rparr>)"

definition getDownloads :: "network \<Rightarrow> api_response" where
  "getDownloads net = fetchApi net ''/downloads'' None"

lemma js_or_truthy: "js_truthy w \<Longrightarrow> js_truthy (js_or v w)"
  by (simp add: js_or_def)

section \<open>Properties\<close>

text \<open>A call never rejects, and its outcome is unambiguous: it reports an error, which is then
  truthy and without data, exactly if the request failed, the answer was no JSON or the status was
  not in the 200s; otherwise it carries the answer and no error.\<close>

theorem fetchApi_outcome:
  "(js_truthy (api_error (fetchApi net endpoint options)) \<and>
      api_data (fetchApi net endpoint options) = JUndefined \<and>
      (\<nexists>st data. net (api_request endpoint options) = FetchResponse st (Inr data) \<and> response_ok st)) \<or>
   (api_error (fetchApi net endpoint options) = JUndefined \<and>
      (\<exists>st. response_ok st \<and>
         net (api_request endpoint options) = FetchResponse st (Inr (api_data (fetchApi net endpoint options)))))"
  by (auto simp: fetchApi_def Let_def js_or_truthy split: fetch_result.splits sum.splits)

end
