(* ===== verification/Website_Page.thy ===== *)
theory Website_Page
  imports Prelude
begin

text \<open>
  The static components of the website (\<open>website/src/components\<close>) as functions from their
  state to the tree they render. A tree keeps what the JSX says about structure and behaviour: tags,
  texts, identifiers, links, sources, form attributes and event handlers (by the name of the
  function or of the state update they call), conditional and repeated children. Presentation is
  left out throughout: \<open>style\<close>, \<open>className\<close>, the inline \<open>style\<close> elements and the
  sizes and colours of icons. Components of other libraries (the icons of \<open>lucide-react\<close>, React's
  \<open>Suspense\<close>, the 3D scene) are nodes with their name.
\<close>

section \<open>Rendered trees\<close>

datatype attr = AStr string | ABool bool | AHandler string

datatype vnode =
    Elem string "(string \<times> attr) list" "vnode list"
  | Comp string "vnode list"
  | Txt string

abbreviation el :: "string \<Rightarrow> vnode list \<Rightarrow> vnode" where
  "el tag \<equiv> Elem tag []"

abbreviation icon :: "string \<Rightarrow> vnode" where
  "icon name \<equiv> Comp name []"

fun nodes :: "vnode \<Rightarrow> vnode list" where
  "nodes (Elem t as cs) = Elem t as cs # concat (map nodes cs)"
| "nodes (Comp n cs) = Comp n cs # concat (map nodes cs)"
| "nodes (Txt s) = [Txt s]"

fun attr_of :: "string \<Rightarrow> vnode \<Rightarrow> attr option" where
  "attr_of k (Elem t as cs) = map_of as k"
| "attr_of k _ = None"

definition attr_strings :: "string \<Rightarrow> vnode \<Rightarrow> string list" where
  "attr_strings k v =
     concat (map (\<lambda>n. case attr_of k n of Some (AStr s) \<Rightarrow> [s] | _ \<Rightarrow> []) (nodes v))"

definition ids :: "vnode \<Rightarrow> string list" where
  "ids v = attr_strings ''id'' v"

definition hrefs :: "vnode \<Rightarrow> string list" where
  "hrefs v = attr_strings ''href'' v"

lemma attr_strings_simps [simp]:
  "attr_strings k (Elem t as cs) =
     (case map_of as k of Some (AStr s) \<Rightarrow> [s] | _ \<Rightarrow> []) @ concat (map (attr_strings k) cs)"
  "attr_strings k (Comp n cs) = concat (map (attr_strings k) cs)"
  "attr_strings k (Txt s) = []"
proof -
  have "concat (map (\<lambda>n. case attr_of k n of Some (AStr s) \<Rightarrow> [s] | _ \<Rightarrow> []) (concat (map nodes cs))) =
      concat (map (attr_strings k) cs)" for cs
    by (induction cs) (simp_all add: attr_strings_def)
  then show "attr_strings k (Elem t as cs) =
     (case map_of as k of Some (AStr s) \<Rightarrow> [s] | _ \<Rightarrow> []) @ concat (map (attr_strings k) cs)"
    "attr_strings k (Comp n cs) = concat (map (attr_strings k) cs)" "attr_strings k (Txt s) = []"
    by (simp_all add: attr_strings_def [of k "Elem t as cs"] attr_strings_def [of k "Comp n cs"]
        attr_strings_def [of k "Txt s"])
qed

section \<open>Navbar.tsx\<close>

record navbar_state =
  nav_isOpen :: bool

definition Navbar_init :: navbar_state where
  "Navbar_init = \<lparr>nav_isOpen = False\<rparr>"

text \<open>\<open>onClick={() => setIsOpen(!isOpen)}\<close> of the menu button.\<close>

definition Navbar_toggle :: "navbar_state \<Rightarrow> navbar_state" where
  "Navbar_toggle s = s\<lparr>nav_isOpen := \<not> nav_isOpen s\<rparr>"

definition nav_items :: "string list" where
  "nav_items = [''Ecosystem'', ''Technology'', ''Roadmap'', ''Stats'']"

definition nav_link :: "string \<Rightarrow> vnode" where
  "nav_link item = Elem ''a'' [(''href'', AStr (''#'' @ to_lower item))] [Txt item]"

definition Navbar :: "navbar_state \<Rightarrow> vnode" where
  "Navbar s =
     el ''nav''
       ([el ''div''
          [el ''div''
             [Elem ''img'' [(''src'', AStr ''/logo.png''), (''alt'', AStr ''Hylium Logo'')] [],
              el ''span'' [Txt ''Hylium'']],
           el ''div'' (map nav_link nav_items),
           el ''button'' [Txt ''Connect Wallet''],
           Elem ''button'' [(''onClick'', AHandler ''Navbar_toggle'')]
             [if nav_isOpen s then icon ''X'' else icon ''Menu'']]]
        @ (if nav_isOpen s
           then [el ''div'' (map nav_link nav_items @ [el ''button'' [Txt ''Connect Wallet'']])]
           else []))"

section \<open>Hero.tsx\<close>

text \<open>\<open>Suspense\<close> shows its fallback until the scene has loaded.\<close>

definition Hero :: "bool \<Rightarrow> vnode" where
  "Hero scene_ready =
     Elem ''section'' [(''id'', AStr ''home'')]
       [el ''div''
          [el ''div''
             [el ''p'' [Txt ''NEXT GENERATION PROTOCOL''],
              el ''h1'' [Txt ''The Foundation Layer for Decentralized Energy''],
              el ''p'' [Txt ''Hylium powers the next era of decentralized energy markets with secure, transparent, and efficient infrastructure.''],
              el ''div''
                [el ''button'' [Txt ''Join Presale '', icon ''ArrowRight''],
                 el ''button'' [icon ''FileText'', Txt '' Whitepaper'']]],
           el ''div''
             [Comp ''Suspense''
                [if scene_ready then Comp ''Scene3D'' [] else el ''div'' [Txt ''Loading...'']]]]]"

section \<open>Features.tsx\<close>

record feature =
  f_icon :: string
  f_title :: string
  f_desc :: string

definition features :: "feature list" where
  "features =
     [\<lparr>f_icon = ''Zap'', f_title = ''Lightning Fast'',
       f_desc = ''Process thousands of transactions per second with minimal latency.''\<rparr>,
      \<lparr>f_icon = ''Shield'', f_title = ''Secure by Design'',
       f_desc = ''Enterprise-grade security with multi-layer protection.''\<rparr>,
      \<lparr>f_icon = ''Globe'', f_title = ''Global Network'',
       f_desc = ''Decentralized infrastructure across multiple continents.''\<rparr>,
      \<lparr>f_icon = ''Cpu'', f_title = ''Smart Contracts'',
       f_desc = ''Deploy and execute energy trading contracts seamlessly.''\<rparr>]"

definition Features :: vnode where
  "Features =
     Elem ''section'' [(''id'', AStr ''ecosystem'')]
       [el ''div''
          [el ''h2'' [Txt ''Why Choose Hylium?''],
           el ''p'' [Txt ''Built for the future of decentralized energy trading''],
           el ''div''
             (map (\<lambda>f. el ''div''
                [el ''div'' [icon (f_icon f)],
                 el ''h3'' [Txt (f_title f)],
                 el ''p'' [Txt (f_desc f)]]) features)]]"

section \<open>Roadmap.tsx\<close>

record phase =
  ph_q :: string
  ph_title :: string
  ph_items :: "string list"
  ph_done :: bool

definition phases :: "phase list" where
  "phases =
     [\<lparr>ph_q = ''Q1 2024'', ph_title = ''Foundation'',
       ph_items = [''Core protocol development'', ''Testnet launch'', ''Security audits''], ph_done = True\<rparr>,
      \<lparr>ph_q = ''Q2 2024'', ph_title = ''Growth'',
       ph_items = [''Mainnet launch'', ''Wallet integration'', ''First partnerships''], ph_done = True\<rparr>,
      \<lparr>ph_q = ''Q3 2024'', ph_title = ''Expansion'',
       ph_items = [''DEX integration'', ''Mobile app beta'', ''Staking rewards''], ph_done = False\<rparr>,
      \<lparr>ph_q = ''Q4 2024'', ph_title = ''Scale'',
       ph_items = [''Enterprise solutions'', ''Cross-chain bridges'', ''Global expansion''], ph_done = False\<rparr>]"

definition phase_item :: "bool \<Rightarrow> string \<Rightarrow> vnode" where
  "phase_item is_done item =
     el ''div'' [if is_done then icon ''CheckCircle'' else icon ''Circle'', el ''span'' [Txt item]]"

definition Roadmap :: vnode where
  "Roadmap =
     Elem ''section'' [(''id'', AStr ''roadmap'')]
       [el ''div''
          [el ''h2'' [Txt ''Roadmap''],
           el ''div''
             (map (\<lambda>p. el ''div''
                ([el ''p'' [Txt (ph_q p)], el ''h3'' [Txt (ph_title p)]]
                 @ map (phase_item (ph_done p)) (ph_items p))) phases)]]"

section \<open>Footer.tsx\<close>

record footer_column =
  col_title :: string
  col_links :: "string list"

definition footer_columns :: "footer_column list" where
  "footer_columns =
     [\<lparr>col_title = ''Protocol'', col_links = [''Ecosystem'', ''Technology'', ''Roadmap'']\<rparr>,
      \<lparr>col_title = ''Resources'', col_links = [''Documentation'', ''Whitepaper'', ''GitHub'']\<rparr>,
      \<lparr>col_title = ''Community'', col_links = [''Discord'', ''Twitter'', ''Telegram'']\<rparr>]"

definition Footer :: vnode where
  "Footer =
     el ''footer''
       [el ''div''
          [el ''div''
             ([el ''div''
                 [el ''div''
                    [Elem ''img'' [(''src'', AStr ''/logo.png''), (''alt'', AStr ''Hylium'')] [],
                     el ''span'' [Txt ''Hylium'']],
                  el ''p'' [Txt ''Decentralized energy infrastructure for the future.'']]]
              @ map (\<lambda>col. el ''div''
                  (el ''h4'' [Txt (col_title col)]
                   # map (\<lambda>link. Elem ''a'' [(''href'', AStr ''#'')] [Txt link]) (col_links col)))
                footer_columns),
           el ''div''
             [el ''p'' [Txt (CHR 0xA9 # '' 2024 Hylium. All rights reserved.'')],
              el ''div''
                (map (\<lambda>i. Elem ''a'' [(''href'', AStr ''#'')] [icon i])
                  [''Github'', ''Twitter'', ''MessageCircle''])]]]"

section \<open>TrustFooter.tsx\<close>

record trust_item =
  ti_icon :: string
  ti_label :: string
  ti_value :: string

definition trust_items :: "trust_item list" where
  "trust_items =
     [\<lparr>ti_icon = ''Shield'', ti_label = ''AUDITED BY'', ti_value = ''Certik''\<rparr>,
      \<lparr>ti_icon = ''Newspaper'', ti_label = ''FEATURED IN'', ti_value = ''CoinDesk''\<rparr>,
      \<lparr>ti_icon = ''Activity'', ti_label = ''TOTAL TRANSACTIONS'', ti_value = ''1.2M+''\<rparr>,
      \<lparr>ti_icon = ''Server'', ti_label = ''ACTIVE NODES'', ti_value = ''4,500''\<rparr>]"

definition TrustFooter :: vnode where
  "TrustFooter =
     el ''section''
       [el ''div''
          (map (\<lambda>item. el ''div''
             [icon (ti_icon item),
              el ''div'' [el ''p'' [Txt (ti_label item)], el ''p'' [Txt (ti_value item)]]]) trust_items)]"

lemmas page_defs =
  Navbar_def nav_items_def nav_link_def Hero_def Features_def features_def Roadmap_def phases_def
  phase_item_def Footer_def footer_columns_def

section \<open>What each component contributes\<close>

lemma static_ids [simp]:
  "attr_strings ''id'' (Navbar s) = []" "attr_strings ''id'' (Hero b) = [''home'']"
  "attr_strings ''id'' Features = [''ecosystem'']" "attr_strings ''id'' Roadmap = [''roadmap'']"
  "attr_strings ''id'' Footer = []"
  by (simp_all add: page_defs)

lemma nav_items_lower: "map to_lower nav_items = [''ecosystem'', ''technology'', ''roadmap'', ''stats'']"
  by code_simp

lemma navbar_hrefs:
  "set (attr_strings ''href'' (Navbar s)) =
     {''#ecosystem'', ''#technology'', ''#roadmap'', ''#stats''}"
proof -
  have "concat (map (attr_strings ''href'') (map nav_link nav_items)) =
      map (\<lambda>x. ''#'' @ x) (map to_lower nav_items)"
    by (simp add: nav_link_def nav_items_def)
  then show ?thesis unfolding nav_items_lower by (auto simp: Navbar_def)
qed

lemma static_hrefs [simp]:
  "attr_strings ''href'' (Hero b) = []" "attr_strings ''href'' Features = []"
  "attr_strings ''href'' Roadmap = []" "set (attr_strings ''href'' Footer) = {''#''}"
  by (simp_all add: page_defs)

end
