(* ===== verification/Website_Newsletter.thy ===== *)
theory Website_Newsletter
  imports Website_Api Website_Page
begin

text \<open>
  \<open>website/src/components/Newsletter.tsx\<close>: the subscription form as a state machine. Its state
  is the three \<open>useState\<close> cells together with what the browser holds for it: the addresses of
  the requests in flight and the number of timers that have not fired. An event is a keystroke in
  the input, a submission of the form, the settlement of a request, or the firing of a timer; the
  input and the button take events only while they are not \<open>disabled\<close>.
\<close>

datatype status = Idle | Loading | Success | Error

record newsletter_ui =
  ui_email :: string
  ui_status :: status
  ui_msg :: jsval
  ui_inflight :: "string list"
  ui_timers :: nat

definition Newsletter_init :: newsletter_ui where
  "Newsletter_init =
     \<lparr>ui_email = [], ui_status = Idle, ui_msg = JStr [], ui_inflight = [], ui_timers = 0\<rparr>"

definition ui_disabled :: "newsletter_ui \<Rightarrow> bool" where
  "ui_disabled s = (ui_status s = Loading)"

text \<open>\<open>onChange\<close>.\<close>

definition handleChange :: "string \<Rightarrow> newsletter_ui \<Rightarrow> newsletter_ui" where
  "handleChange text s = s\<lparr>ui_email := text\<rparr>"

text \<open>\<open>handleSubmit\<close> up to its \<open>await\<close>.\<close>

definition handleSubmit :: "newsletter_ui \<Rightarrow> newsletter_ui" where
  "handleSubmit s =
     (if ui_email s = [] then s
      else s\<lparr>ui_status := Loading, ui_inflight := ui_inflight s @ [ui_email s]\<rparr>)"

text \<open>\<open>handleSubmit\<close> after its \<open>await\<close>, with what \<open>subscribeNewsletter\<close> has resolved
  to, for the request at a position of the ones in flight.\<close>

definition handleSettled :: "nat \<Rightarrow> api_response \<Rightarrow> newsletter_ui \<Rightarrow> newsletter_ui" where
  "handleSettled i r s =
     (let s' = s\<lparr>ui_inflight := take i (ui_inflight s) @ drop (Suc i) (ui_inflight s),
                 ui_timers := ui_timers s + 1\<rparr>
      in if js_truthy (api_error r)
         then s'\<lparr>ui_status := Error, ui_msg := api_error r\<rparr>
         else s'\<lparr>ui_status := Success,
                 ui_msg := js_or (js_opt_get (api_data r) ''message'') (JStr ''Subscribed!''),
                 ui_email := []\<rparr>)"

text \<open>The callback of \<open>setTimeout\<close>.\<close>

definition handleTimer :: "newsletter_ui \<Rightarrow> newsletter_ui" where
  "handleTimer s = s\<lparr>ui_status := Idle, ui_msg := JStr [], ui_timers := ui_timers s - 1\<rparr>"

definition status_text :: "status \<Rightarrow> string" where
  "status_text st = (if st = Loading then ''Subscribing...'' else ''Subscribe'')"

text \<open>A rendered message: strings and numbers show as text.\<close>

definition msg_text :: "(jsval \<Rightarrow> string) \<Rightarrow> jsval \<Rightarrow> string" where
  "msg_text to_text m = (case m of JStr t \<Rightarrow> t | _ \<Rightarrow> to_text m)"

definition Newsletter :: "(jsval \<Rightarrow> string) \<Rightarrow> newsletter_ui \<Rightarrow> vnode" where
  "Newsletter to_text s =
     el ''section''
       [el ''div''
          ([el ''h2'' [Txt ''Stay Updated''],
            el ''p'' [Txt ''Get the latest Hylium news and updates''],
            Elem ''form'' [(''onSubmit'', AHandler ''handleSubmit'')]
              [Elem ''input''
                 [(''type'', AStr ''email''), (''placeholder'', AStr ''Enter your email''),
                  (''value'', AStr (ui_email s)), (''onChange'', AHandler ''handleChange''),
                  (''disabled'', ABool (ui_disabled s)), (''required'', ABool True)] [],
               Elem ''button'' [(''type'', AStr ''submit''), (''disabled'', ABool (ui_disabled s))]
                 [Txt (status_text (ui_status s))]]]
           @ (if js_truthy (ui_msg s) then [el ''p'' [Txt (msg_text to_text (ui_msg s))]] else []))]"

section \<open>The state machine\<close>

inductive ui_step :: "newsletter_ui \<Rightarrow> newsletter_ui \<Rightarrow> bool" where
  change: "\<not> ui_disabled s \<Longrightarrow> ui_step s (handleChange text s)"
| submit: "\<not> ui_disabled s \<Longrightarrow> ui_step s (handleSubmit s)"
| settle: "i < length (ui_inflight s) \<Longrightarrow> ui_step s (handleSettled i r s)"
| timer: "0 < ui_timers s \<Longrightarrow> ui_step s (handleTimer s)"

abbreviation ui_reachable :: "newsletter_ui \<Rightarrow> bool" where
  "ui_reachable \<equiv> reach (\<lambda>s. s = Newsletter_init) ui_step"

lemmas ui_defs =
  Newsletter_init_def ui_disabled_def handleChange_def handleSubmit_def handleSettled_def
  handleTimer_def

definition ui_inv :: "newsletter_ui \<Rightarrow> bool" where
  "ui_inv s \<longleftrightarrow>
     (ui_status s = Loading \<longrightarrow> ui_inflight s \<noteq> []) \<and>
     (ui_status s = Success \<or> ui_status s = Error \<longrightarrow> 0 < ui_timers s) \<and>
     (js_truthy (ui_msg s) \<longrightarrow> 0 < ui_timers s) \<and>
     (ui_status s = Success \<or> ui_status s = Error \<longrightarrow> js_truthy (ui_msg s)) \<and>
     [] \<notin> set (ui_inflight s)"

lemma ui_inv_step: "ui_step s t \<Longrightarrow> ui_inv s \<Longrightarrow> ui_inv t"
proof (induction rule: ui_step.induct)
  case (settle i s r)
  then show ?case
    by (auto simp: ui_inv_def handleSettled_def Let_def js_or_truthy dest: in_set_takeD in_set_dropD)
qed (auto simp: ui_inv_def ui_defs)

lemma ui_inv_reachable: "ui_reachable s \<Longrightarrow> ui_inv s"
  by (erule reach_invariant) (auto simp: ui_inv_step, simp add: ui_inv_def ui_defs)

section \<open>Properties\<close>

text \<open>C35: The form never gets stuck: in every state it can reach, a disabled form has a request in
  flight, a verdict on display has a timer that will remove it, every request in flight has an
  address, and once all requests have settled and all timers fired the form is idle, enabled and
  shows no message.\<close>

theorem newsletter_form_settles:
  assumes "ui_reachable s"
  shows "(ui_disabled s \<longrightarrow> ui_inflight s \<noteq> []) \<and>
    (ui_status s = Success \<or> ui_status s = Error \<longrightarrow> 0 < ui_timers s \<and> js_truthy (ui_msg s)) \<and>
    [] \<notin> set (ui_inflight s) \<and>
    (ui_inflight s = [] \<and> ui_timers s = 0 \<longrightarrow>
       ui_status s = Idle \<and> \<not> ui_disabled s \<and> \<not> js_truthy (ui_msg s))"
  using ui_inv_reachable [OF assms] by (cases "ui_status s") (auto simp: ui_inv_def ui_disabled_def)

text \<open>A submission that has failed.\<close>

definition failed :: api_response where
  "failed = \<lparr>api_data = JUndefined, api_error = JStr ''Network error''\<rparr>"

definition after_failure :: newsletter_ui where
  "after_failure = handleSettled 0 failed (handleSubmit (handleChange ''eve@hylium.org'' Newsletter_init))"

lemma after_failure_reachable: "ui_reachable after_failure"
proof -
  let ?s1 = "handleChange ''eve@hylium.org'' Newsletter_init"
  have "ui_reachable Newsletter_init" by (rule reach_init) simp
  then have "ui_reachable ?s1" by (rule reach_step) (rule ui_step.change, simp add: ui_defs)
  then have "ui_reachable (handleSubmit ?s1)"
    by (rule reach_step) (rule ui_step.submit, simp add: ui_defs)
  then show ?thesis
    unfolding after_failure_def by (rule reach_step) (rule ui_step.settle, simp add: ui_defs)
qed

lemma after_failure_state:
  "after_failure = \<lparr>ui_email = ''eve@hylium.org'', ui_status = Error, ui_msg = JStr ''Network error'',
     ui_inflight = [], ui_timers = 1\<rparr>"
  by (simp add: after_failure_def failed_def ui_defs)

theorem newsletter_form_settles_witness:
  "ui_reachable after_failure \<and> ui_status after_failure = Error \<and> 0 < ui_timers after_failure"
  using newsletter_form_settles [OF after_failure_reachable] after_failure_reachable
  by (simp add: after_failure_state)

text \<open>The events of the browser, and how many of them are due.\<close>

inductive browser_step :: "newsletter_ui \<Rightarrow> newsletter_ui \<Rightarrow> bool" where
  settles: "i < length (ui_inflight s) \<Longrightarrow> browser_step s (handleSettled i r s)"
| fires: "0 < ui_timers s \<Longrightarrow> browser_step s (handleTimer s)"

definition ui_due :: "newsletter_ui \<Rightarrow> nat" where
  "ui_due s = 2 * length (ui_inflight s) + ui_timers s"

lemma browser_step_due: "browser_step s t \<Longrightarrow> ui_due t < ui_due s"
  by (induction rule: browser_step.induct)
    (auto simp: ui_due_def handleSettled_def handleTimer_def Let_def)

lemma browser_step_ui: "browser_step s t \<Longrightarrow> ui_step s t"
  by (induction rule: browser_step.induct) (auto intro: ui_step.intros)

lemma browser_progress: "0 < ui_due s \<Longrightarrow> \<exists>t. browser_step s t"
proof -
  assume "0 < ui_due s"
  then consider "0 < length (ui_inflight s)" | "0 < ui_timers s" by (auto simp: ui_due_def)
  then show ?thesis by cases (blast intro: browser_step.intros)+
qed

text \<open>C36: The form settles on its own: the browser's events (a request settling, a timer firing) can
  always go on until none is left, they cannot go on forever, since each uses up one of the
  \<open>2 * requests + timers\<close> that are due, and what they end in is the idle form.\<close>

theorem newsletter_form_quiesces:
  assumes "ui_reachable s"
  shows "wfP (\<lambda>t s. browser_step s t) \<and>
    (\<forall>t. browser_step\<^sup>*\<^sup>* s t \<and> (\<nexists>u. browser_step t u) \<longrightarrow>
       ui_status t = Idle \<and> ui_inflight t = [] \<and> \<not> js_truthy (ui_msg t)) \<and>
    (\<exists>t. browser_step\<^sup>*\<^sup>* s t \<and> (\<nexists>u. browser_step t u))"
proof -
  have wf: "wfP (\<lambda>t s. browser_step s t)"
    using browser_step_due by (intro wfp_if_convertible_to_nat [of _ ui_due]) auto
  have reach: "browser_step\<^sup>*\<^sup>* s t \<Longrightarrow> ui_reachable t" for t
    by (induction rule: rtranclp_induct) (auto intro: assms reach_step browser_step_ui)
  have "ui_status t = Idle \<and> ui_inflight t = [] \<and> \<not> js_truthy (ui_msg t)"
    if "browser_step\<^sup>*\<^sup>* s t" "\<nexists>u. browser_step t u" for t
  proof -
    have "ui_due t = 0" using that(2) browser_progress [of t] by auto
    with ui_inv_reachable [OF reach [OF that(1)]] show ?thesis
      by (cases "ui_status t") (auto simp: ui_due_def ui_inv_def)
  qed
  moreover have "\<exists>t. browser_step\<^sup>*\<^sup>* s t \<and> (\<nexists>u. browser_step t u)" for s
  proof (induction "ui_due s" arbitrary: s rule: less_induct)
    case less
    show ?case
    proof (cases "\<exists>u. browser_step s u")
      case True
      then obtain u where u: "browser_step s u" by blast
      from less [OF browser_step_due [OF u]] obtain t where
        "browser_step\<^sup>*\<^sup>* u t" "\<nexists>v. browser_step t v" by blast
      with u show ?thesis by (meson converse_rtranclp_into_rtranclp)
    qed blast
  qed
  ultimately show ?thesis using wf by blast
qed

theorem newsletter_form_quiesces_witness:
  "\<exists>t. browser_step\<^sup>*\<^sup>* after_failure t \<and> ui_status t = Idle"
  using newsletter_form_quiesces [OF after_failure_reachable] by blast

text \<open>The form can have two requests for one address in flight: the timer of an earlier
  submission sets the status back to idle and so enables the button while the next submission is
  still loading.\<close>

theorem newsletter_form_double_submit:
  "\<exists>s. ui_reachable s \<and> ui_inflight s = [''eve@hylium.org'', ''eve@hylium.org'']"
proof -
  let ?s4 = "handleSubmit after_failure"
  let ?s5 = "handleTimer ?s4"
  have "ui_reachable ?s4"
    by (rule reach_step [OF after_failure_reachable ui_step.submit])
      (simp add: after_failure_state ui_disabled_def)
  then have "ui_reachable ?s5"
    by (rule reach_step) (rule ui_step.timer, simp add: after_failure_state ui_defs)
  then have "ui_reachable (handleSubmit ?s5)"
    by (rule reach_step) (rule ui_step.submit, simp add: after_failure_state ui_defs)
  moreover have "ui_inflight (handleSubmit ?s5) = [''eve@hylium.org'', ''eve@hylium.org'']"
    by (simp add: after_failure_state ui_defs)
  ultimately show ?thesis by blast
qed

end
