(* ===== verification/Website_Stats.thy ===== *)
theory Website_Stats
  imports Website_Api Website_Page Stats_Route
begin

text \<open>
  \<open>website/src/components/Stats.tsx\<close>: the statistics the page polls and shows. The number
  formatting that depends on the locale or needs the shortest decimal of a double
  (\<open>toLocaleString\<close>, \<open>toString\<close>) and the conversions of values that are no numbers are a
  parameter; \<open>toFixed\<close>, \<open>Math.round\<close> and the division of doubles are computed. Rendering
  returns an error where a method call in it would throw.
\<close>

section \<open>Numbers\<close>

record js_format =
  to_locale_string :: "js_number \<Rightarrow> string"
  number_to_string :: "js_number \<Rightarrow> string"
  object_to_string :: "jsval \<Rightarrow> js_error + string"
  to_number :: "jsval \<Rightarrow> js_number"

definition pow2 :: "int \<Rightarrow> rat" where
  "pow2 k = (if 0 \<le> k then 2 ^ nat k else 1 / 2 ^ nat (- k))"

text \<open>The exponent of the leading bit of a positive rational.\<close>

definition floor_log2 :: "rat \<Rightarrow> int" where
  "floor_log2 q =
     (let (n, d) = quotient_of q; k = int (bit_length (nat n)) - int (bit_length (nat d))
      in if pow2 k \<le> q then k else k - 1)"

definition round_half_even :: "rat \<Rightarrow> int" where
  "round_half_even q =
     (let f = floor q; r = q - of_int f
      in if r < 1 / 2 \<or> (r = 1 / 2 \<and> even f) then f else f + 1)"

text \<open>The double nearest to a rational: 53 significant bits, subnormals below \<open>2^-1022\<close>, ties to
  even, an infinity from the overflow threshold on.\<close>

definition round_double :: "rat \<Rightarrow> js_number" where
  "round_double q =
     (if q = 0 then Fin 0
      else (let a = abs q; e = max (floor_log2 a - 52) (- 1074);
                v = of_int (round_half_even (a / pow2 e)) * pow2 e
            in if v < 2 ^ 1024 then Fin (if q < 0 then - v else v)
               else if q < 0 then NegInf else PosInf))"

text \<open>\<open>x / 1000000\<close> and \<open>Math.round(x)\<close>.\<close>

fun per_million :: "js_number \<Rightarrow> js_number" where
  "per_million (Fin q) = round_double (q / 1000000)"
| "per_million x = x"

fun math_round :: "js_number \<Rightarrow> js_number" where
  "math_round (Fin q) = Fin (of_int \<lfloor>q + 1 / 2\<rfloor>)"
| "math_round x = x"

text \<open>\<open>x.toFixed(2)\<close>.\<close>

definition fixed2 :: "rat \<Rightarrow> string" where
  "fixed2 q =
     (let n = nat \<lfloor>q * 100 + 1 / 2\<rfloor>
      in show_nat (n div 100) @ ''.'' @ pad_left 2 (show_nat (n mod 100)))"

definition to_fixed2 :: "js_format \<Rightarrow> js_number \<Rightarrow> string" where
  "to_fixed2 fmt x =
     (case x of
        Fin q \<Rightarrow> if 10 ^ 21 \<le> abs q then number_to_string fmt x
                 else if q < 0 then ''-'' @ fixed2 (- q) else fixed2 q
      | NaN \<Rightarrow> ''NaN'' | PosInf \<Rightarrow> ''Infinity'' | NegInf \<Rightarrow> ''-Infinity'')"

section \<open>Method calls on values\<close>

definition bool_text :: "bool \<Rightarrow> string" where
  "bool_text b = (if b then ''true'' else ''false'')"

fun call_toLocaleString :: "js_format \<Rightarrow> jsval \<Rightarrow> js_error + string" where
  "call_toLocaleString fmt (JNum n) = Inr (to_locale_string fmt n)"
| "call_toLocaleString fmt (JStr s) = Inr s"
| "call_toLocaleString fmt (JBool b) = Inr (bool_text b)"
| "call_toLocaleString fmt v = object_to_string fmt v"

fun call_toFixed2 :: "js_format \<Rightarrow> jsval \<Rightarrow> js_error + string" where
  "call_toFixed2 fmt (JNum n) = Inr (to_fixed2 fmt n)"
| "call_toFixed2 fmt _ = Inl TypeError"

fun call_toString :: "js_format \<Rightarrow> jsval \<Rightarrow> js_error + string" where
  "call_toString fmt (JNum n) = Inr (number_to_string fmt n)"
| "call_toString fmt (JStr s) = Inr s"
| "call_toString fmt (JBool b) = Inr (bool_text b)"
| "call_toString fmt v = object_to_string fmt v"

text \<open>\<open>v?.m() || '0'\<close>.\<close>

definition or_zero :: "(jsval \<Rightarrow> js_error + string) \<Rightarrow> jsval \<Rightarrow> js_error + string" where
  "or_zero m v =
     (if js_nullish v then Inr ''0''
      else case m v of Inl e \<Rightarrow> Inl e | Inr s \<Rightarrow> Inr (if s = [] then ''0'' else s))"

section \<open>The component\<close>

record stats_view =
  sv_stats :: jsval
  sv_interval :: bool

definition Stats_init :: stats_view where
  "Stats_init = \<lparr>sv_stats = JNull, sv_interval = False\<rparr>"

text \<open>\<open>fetchStats\<close> with what \<open>getStats\<close> has resolved to.\<close>

definition fetchStats :: "api_response \<Rightarrow> stats_view \<Rightarrow> stats_view" where
  "fetchStats r s = (if js_truthy (api_data r) then s\<lparr>sv_stats := api_data r\<rparr> else s)"

text \<open>The effect: one fetch at once and one every 30 seconds until the component is removed. The
  results come in one after the other.\<close>

definition Stats_mounted :: "api_response list \<Rightarrow> stats_view" where
  "Stats_mounted rs = foldl (\<lambda>s r. fetchStats r s) (Stats_init\<lparr>sv_interval := True\<rparr>) rs"

definition Stats_unmount :: "stats_view \<Rightarrow> stats_view" where
  "Stats_unmount s = s\<lparr>sv_interval := False\<rparr>"

definition hashrate_text :: "js_format \<Rightarrow> jsval \<Rightarrow> string" where
  "hashrate_text fmt v =
     (let n = (case js_or v (jint 0) of JNum x \<Rightarrow> x | w \<Rightarrow> to_number fmt w)
      in number_to_string fmt (math_round (per_million n)) @ '' MH/s'')"

definition Stats_items :: "js_format \<Rightarrow> jsval \<Rightarrow> js_error + (string \<times> string) list" where
  "Stats_items fmt stats =
     (case or_zero (call_toLocaleString fmt) (js_opt_get stats ''blockHeight'') of
        Inl e \<Rightarrow> Inl e
      | Inr height \<Rightarrow>
     (case or_zero (call_toFixed2 fmt) (js_opt_get stats ''difficulty'') of
        Inl e \<Rightarrow> Inl e
      | Inr difficulty \<Rightarrow>
     (case or_zero (call_toString fmt) (js_opt_get stats ''connections'') of
        Inl e \<Rightarrow> Inl e
      | Inr connections \<Rightarrow>
          Inr [(''Block Height'', height),
               (''Network Hashrate'', hashrate_text fmt (js_opt_get stats ''networkHashrate'')),
               (''Difficulty'', difficulty),
               (''Connections'', connections)])))"

definition Stats :: "js_format \<Rightarrow> stats_view \<Rightarrow> js_error + vnode" where
  "Stats fmt s =
     (case Stats_items fmt (sv_stats s) of
        Inl e \<Rightarrow> Inl e
      | Inr items \<Rightarrow>
          Inr (Elem ''section'' [(''id'', AStr ''stats'')]
            [el ''div''
               [el ''h2'' [Txt ''Network Statistics''],
                el ''div''
                  (map (\<lambda>item. el ''div'' [el ''p'' [Txt (snd item)], el ''p'' [Txt (fst item)]])
                    items)]]))"

section \<open>Properties\<close>

text \<open>A value the page can format: a number, or nothing.\<close>

definition numeric :: "jsval \<Rightarrow> bool" where
  "numeric v \<longleftrightarrow> \<not> js_truthy v \<or> (\<exists>n. v = JNum n)"

lemma or_zero_total:
  assumes "\<And>n. \<exists>s. m (JNum n) = Inr s" and "v = JNull \<or> (\<exists>n. v = JNum n)"
  shows "\<exists>s. or_zero m v = Inr s"
  using assms(2)
proof
  assume "\<exists>n. v = JNum n"
  then obtain n where "v = JNum n" by blast
  moreover obtain s where "m (JNum n) = Inr s" using assms(1) by blast
  ultimately show ?thesis by (simp add: or_zero_def js_nullish_def)
qed (simp add: or_zero_def js_nullish_def)

lemma numeric_wire: "numeric v \<Longrightarrow> json_wire (js_or v (jint 0)) = JNull \<or> (\<exists>n. json_wire (js_or v (jint 0)) = JNum n)"
proof -
  assume "numeric v"
  then obtain n where "js_or v (jint 0) = JNum n"
    by (cases "js_truthy v") (auto simp: numeric_def js_or_def)
  then show ?thesis by (cases n) auto
qed

lemma json_wire_defined: "v \<noteq> JUndefined \<Longrightarrow> json_wire v \<noteq> JUndefined"
  by (cases v rule: json_wire.cases) auto

lemma js_or_defined: "w \<noteq> JUndefined \<Longrightarrow> js_or v w \<noteq> JUndefined"
  by (auto simp: js_or_def)

text \<open>The page can show whatever the backend serves: for every statistics object the backend
  builds from numeric answers of the node, or from no answers at all, rendering calls no missing
  method, and it shows the four entries in their order.\<close>

theorem served_stats_render:
  assumes "numeric (js_opt_get bi ''blocks'')" and "numeric (js_opt_get bi ''difficulty'')"
    and "numeric cc"
  shows "\<exists>h d c r. Stats_items fmt (resp_body (res_json 200 (stats_object bi mi cc t))) =
      Inr [(''Block Height'', h), (''Network Hashrate'', r), (''Difficulty'', d), (''Connections'', c)] \<and>
    (\<exists>v. Stats fmt \<lparr>sv_stats = resp_body (res_json 200 (stats_object bi mi cc t)), sv_interval = True\<rparr> = Inr v)"
proof -
  let ?s = "resp_body (res_json 200 (stats_object bi mi cc t))"
  have f: "js_opt_get ?s ''blockHeight'' = json_wire (js_or (js_opt_get bi ''blocks'') (jint 0))"
    "js_opt_get ?s ''difficulty'' = json_wire (js_or (js_opt_get bi ''difficulty'') (jint 0))"
    "js_opt_get ?s ''connections'' = json_wire (js_or cc (jint 0))"
    by (simp_all add: stats_object_def js_lookup_def js_or_defined)
  obtain h where h: "or_zero (call_toLocaleString fmt) (js_opt_get ?s ''blockHeight'') = Inr h"
    using or_zero_total [OF _ numeric_wire [OF assms(1)], of "call_toLocaleString fmt"] f(1) by auto
  obtain d where d: "or_zero (call_toFixed2 fmt) (js_opt_get ?s ''difficulty'') = Inr d"
    using or_zero_total [OF _ numeric_wire [OF assms(2)], of "call_toFixed2 fmt"] f(2) by auto
  obtain c where c: "or_zero (call_toString fmt) (js_opt_get ?s ''connections'') = Inr c"
    using or_zero_total [OF _ numeric_wire [OF assms(3)], of "call_toString fmt"] f(3) by auto
  from h d c show ?thesis by (simp add: Stats_items_def Stats_def)
qed

definition sample_format :: js_format where
  "sample_format =
     \<lparr>to_locale_string = (\<lambda>x. case x of Fin q \<Rightarrow> show_int \<lfloor>q\<rfloor> | _ \<Rightarrow> ''NaN''),
      number_to_string = (\<lambda>x. case x of Fin q \<Rightarrow> show_int \<lfloor>q\<rfloor> | _ \<Rightarrow> ''NaN''),
      object_to_string = (\<lambda>_. Inr ''[object Object]''), to_number = (\<lambda>_. NaN)\<rparr>"

theorem served_stats_render_witness:
  "\<exists>v. Stats sample_format
     \<lparr>sv_stats = resp_body (res_json 200 (stats_object
        (JObj [(''blocks'', jint 812345), (''difficulty'', jint 3)]) JNull (jint 8) 0)), sv_interval = True\<rparr> = Inr v"
  using served_stats_render [of "JObj [(''blocks'', jint 812345), (''difficulty'', jint 3)]" "jint 8"
      sample_format JNull 0]
  by (simp add: numeric_def js_lookup_def)

text \<open>The page keeps the last good statistics: whatever comes back from the polls so far, what is
  on display is the data of the latest successful one, and before the first nothing.\<close>

theorem stats_view_last_good:
  "sv_stats (Stats_mounted rs) =
     (case filter js_truthy (map api_data rs) of [] \<Rightarrow> JNull | ds \<Rightarrow> last ds) \<and>
   sv_interval (Stats_mounted rs)"
proof -
  have "sv_stats (foldl (\<lambda>s r. fetchStats r s) s rs) =
      (case filter js_truthy (map api_data rs) of [] \<Rightarrow> sv_stats s | ds \<Rightarrow> last ds) \<and>
    sv_interval (foldl (\<lambda>s r. fetchStats r s) s rs) = sv_interval s" for s
    by (induction rs arbitrary: s) (auto simp: fetchStats_def split: list.splits)
  then show ?thesis by (simp add: Stats_mounted_def Stats_init_def split: list.splits)
qed

text \<open>The difficulty on display is the true one to half a cent: for a difficulty from 0 up to
  \<open>10^21\<close> the text is that of a number of hundredths at most \<open>1/200\<close> away from it.\<close>

theorem difficulty_text_accurate:
  assumes "0 \<le> q" and "q < 10 ^ 21"
  shows "\<exists>n. call_toFixed2 fmt (JNum (Fin q)) =
      Inr (show_nat (n div 100) @ ''.'' @ pad_left 2 (show_nat (n mod 100))) \<and>
    \<bar>of_nat n / 100 - q\<bar> \<le> 1 / 200"
proof -
  let ?n = "nat \<lfloor>q * 100 + 1 / 2\<rfloor>"
  have "0 \<le> \<lfloor>q * 100 + 1 / 2\<rfloor>" using assms(1) by simp
  then have n: "(of_nat ?n :: rat) = of_int \<lfloor>q * 100 + 1 / 2\<rfloor>" by simp
  have "of_int \<lfloor>q * 100 + 1 / 2\<rfloor> / 100 - q \<le> 1 / 200" "q - of_int \<lfloor>q * 100 + 1 / 2\<rfloor> / 100 \<le> 1 / 200"
    using of_int_floor_le [of "q * 100 + 1 / 2"] floor_correct [of "q * 100 + 1 / 2"] by linarith+
  then have "\<bar>of_nat ?n / 100 - q\<bar> \<le> 1 / 200" unfolding n by linarith
  moreover have "call_toFixed2 fmt (JNum (Fin q)) =
      Inr (show_nat (?n div 100) @ ''.'' @ pad_left 2 (show_nat (?n mod 100)))"
    using assms by (simp add: to_fixed2_def fixed2_def Let_def)
  ultimately show ?thesis by blast
qed

theorem difficulty_text_accurate_witness:
  "\<exists>n. call_toFixed2 sample_format (JNum (Fin (1 / 3))) =
      Inr (show_nat (n div 100) @ ''.'' @ pad_left 2 (show_nat (n mod 100))) \<and>
    \<bar>of_nat n / 100 - (1 / 3 :: rat)\<bar> \<le> 1 / 200"
  using difficulty_text_accurate [of "1 / 3" sample_format] by simp

end
