(* ===== verification/Website_App.thy ===== *)
theory Website_App
  imports Website_Newsletter Website_Stats Api_Properties
begin

text \<open>
  \<open>website/src/App.tsx\<close>, \<open>main.tsx\<close> and the website together with the backend: the page as the tree of
  all its components, and a subscription followed from the form in the browser through
  \<open>services/api.ts\<close>, \<open>backend/src/index.ts\<close> and the newsletter route to the database and
  back to the message the visitor sees.
\<close>

section \<open>App.tsx\<close>

record app_state =
  app_nav :: navbar_state
  app_scene_ready :: bool
  app_stats :: stats_view
  app_newsletter :: newsletter_ui

definition App :: "js_format \<Rightarrow> (jsval \<Rightarrow> string) \<Rightarrow> app_state \<Rightarrow> js_error + vnode" where
  "App fmt to_text s =
     (case Stats fmt (app_stats s) of
        Inl e \<Rightarrow> Inl e
      | Inr stats \<Rightarrow>
          Inr (el ''div''
            [Navbar (app_nav s), Hero (app_scene_ready s), stats, Features, Roadmap,
             Newsletter to_text (app_newsletter s), Footer]))"

text \<open>The page when it is first shown.\<close>

definition App_init :: app_state where
  "App_init = \<lparr>app_nav = Navbar_init, app_scene_ready = False, app_stats = Stats_init,
               app_newsletter = Newsletter_init\<rparr>"

text \<open>\<open>main.tsx\<close>: the link to the fonts that is appended to the head, and what is rendered into the root
  element.\<close>

definition main_link :: vnode where
  "main_link = Elem ''link''
     [(''href'', AStr ''https://fonts.googleapis.com/css2?family=Inter:wght@400;500;600;700;800&display=swap''),
      (''rel'', AStr ''stylesheet'')] []"

definition main_root :: "js_format \<Rightarrow> (jsval \<Rightarrow> string) \<Rightarrow> app_state \<Rightarrow> js_error + vnode" where
  "main_root fmt to_text s =
     (case App fmt to_text s of Inl e \<Rightarrow> Inl e | Inr app \<Rightarrow> Inr (Comp ''StrictMode'' [app]))"

section \<open>The browser and the server\<close>

definition SERVER :: string where
  "SERVER = ''http://localhost:3001''"

text \<open>The request the server sees when the page at an address sends one.\<close>

definition incoming :: "string \<Rightarrow> fetch_request \<Rightarrow> request" where
  "incoming ip f =
     \<lparr>req_method = (if fetch_method f = ''POST'' then POST else GET),
      req_path = drop (length SERVER) (fetch_url f), req_ip = ip, req_authorization = None,
      req_raw = [], req_body = JUndefined, req_params = [], req_userId = JUndefined,
      req_userRole = JUndefined\<rparr>"

definition backend_net ::
  "'rl express \<Rightarrow> 'db env \<Rightarrow> config \<Rightarrow> world \<Rightarrow> string \<Rightarrow> ('db, 'rl) server \<Rightarrow> network" where
  "backend_net X E cfg w ip s f =
     (let (resp, _, _) = handle_request X E cfg w (incoming ip f) s
      in FetchResponse (resp_status resp) (Inr (resp_body resp)))"

text \<open>A path that is the mount point of one router and of no other.\<close>

definition serves_at :: "'rl express \<Rightarrow> string \<Rightarrow> bool" where
  "serves_at X mount \<longleftrightarrow>
     (\<forall>p \<in> {''/api/auth'', ''/api/stats'', ''/api/newsletter'', ''/api/contact'', ''/api/downloads'', ''/api/rpc''}.
        mount_match X p mount = (if p = mount then Some ''/'' else None)) \<and>
     route_match X ''/'' ''/'' = Some []"

text \<open>A request that gets through to the routers with the body the page has sent.\<close>

definition gets_through ::
  "'rl express \<Rightarrow> config \<Rightarrow> world \<Rightarrow> string \<Rightarrow> ('db, 'rl) server \<Rightarrow> fetch_request \<Rightarrow> bool" where
  "gets_through X cfg w ip s f \<longleftrightarrow>
     (let req = incoming ip f
      in cors_answers X (cfg_cors_origin cfg) req = None \<and>
         fst (rate_limit X (cfg_rateLimit cfg) (srv_limiter s) ip (w_now w)) \<and>
         json_body X ''10kb'' req = Inr (fetch_body f) \<and>
         urlencoded_body X ''10kb'' (req\<lparr>req_body := fetch_body f\<rparr>) = Inr (fetch_body f))"

text \<open>The request \<open>subscribeNewsletter\<close> sends.\<close>

definition subscribe_call :: "string \<Rightarrow> fetch_request" where
  "subscribe_call e = api_request ''/newsletter''
     (Some \<lparr>init_method = ''POST'', init_body = json_wire (JObj [jstr_field ''email'' e])\<rparr>)"

lemma subscribe_call_body: "fetch_body (subscribe_call e) = subscription e"
  by (simp add: subscribe_call_def api_request_def subscription_def)

lemma subscribe_call_incoming:
  "req_method (incoming ip (subscribe_call e)) = POST"
  "req_path (incoming ip (subscribe_call e)) = ''/api/newsletter''"
  "req_ip (incoming ip f) = ip"
  by (simp_all add: subscribe_call_def api_request_def incoming_def SERVER_def API_BASE_def)

text \<open>Such a request is answered by the newsletter route.\<close>

lemma subscribe_reaches_route:
  assumes "gets_through X cfg w ip s (subscribe_call e)" and "serves_at X ''/api/newsletter''"
  obtains req s1 where "req_body req = subscription e" "srv_db s1 = srv_db s"
    "handle_request X E cfg w (incoming ip (subscribe_call e)) s =
       (let (r, d') = newsletter_route E req (srv_db s)
        in (case r of Inl e \<Rightarrow> error_handler e | Inr resp \<Rightarrow> resp, [], s1\<lparr>srv_db := d'\<rparr>))"
proof -
  let ?r0 = "incoming ip (subscribe_call e)"
  let ?r1 = "?r0\<lparr>req_body := subscription e\<rparr>"
  let ?r2 = "?r1\<lparr>req_params := []\<rparr>"
  from assms(1) have g: "cors_answers X (cfg_cors_origin cfg) ?r0 = None"
    "fst (rate_limit X (cfg_rateLimit cfg) (srv_limiter s) ip (w_now w))"
    "json_body X ''10kb'' ?r0 = Inr (subscription e)" "urlencoded_body X ''10kb'' ?r1 = Inr (subscription e)"
    by (simp_all add: gets_through_def Let_def subscribe_call_body)
  obtain s1 where l: "limiter X cfg w ?r0 s = (None, s1)" and db: "srv_db s1 = srv_db s"
    using g(2) by (simp add: limiter_def subscribe_call_incoming Let_def case_prod_beta)
  have p: "parse_body X ?r0 = Inr ?r1" using g(3,4) by (simp add: parse_body_def)
  have m: "mount_match X ''/api/auth'' ''/api/newsletter'' = None"
    "mount_match X ''/api/stats'' ''/api/newsletter'' = None"
    "mount_match X ''/api/newsletter'' ''/api/newsletter'' = Some ''/''" "route_match X ''/'' ''/'' = Some []"
    using assms(2) by (simp_all add: serves_at_def)
  have "routed X E cfg w ?r1 s1 = on_db (newsletter_route E) ?r2 s1"
    using m by (simp add: routed_def mounts_def verb_matches_def no_limit_def subscribe_call_incoming)
  then have "handle_request X E cfg w ?r0 s =
      (let (r, d') = newsletter_route E ?r2 (srv_db s)
       in (case r of Inl e \<Rightarrow> error_handler e | Inr resp \<Rightarrow> resp, [], s1\<lparr>srv_db := d'\<rparr>))"
    using g(1) l p db by (simp add: handle_request_def on_db_def Let_def split: prod.splits sum.splits)
  with db show thesis by (intro that [of ?r2 s1]) simp_all
qed

text \<open>What the page makes of the answer.\<close>

lemma subscribeNewsletter_backend:
  assumes "handle_request X E cfg w (incoming ip (subscribe_call e)) s = (resp, sent, t)"
  shows "subscribeNewsletter (backend_net X E cfg w ip s) e =
    (if response_ok (resp_status resp)
     then \<lparr>api_data = resp_body resp, api_error = JUndefined\<rparr>
     else (case js_get (resp_body resp) ''error'' of
             Inl _ \<Rightarrow> \<lparr>api_data = JUndefined, api_error = JStr ''Network error''\<rparr>
           | Inr err \<Rightarrow> \<lparr>api_data = JUndefined, api_error = js_or err (JStr ''Request failed'')\<rparr>))"
  using assms unfolding subscribe_call_def
  by (simp add: subscribeNewsletter_def fetchApi_def backend_net_def Let_def split: sum.splits)

section \<open>Properties\<close>






text \<open>An address Zod does not accept is refused end to end: nothing is written, the form shows
  the error of the backend and keeps what the visitor has typed.\<close>

theorem subscribe_refused_end_to_end:
  assumes "backend E view em ur" and "\<not> em e"
    and "gets_through X cfg w ip s (subscribe_call e)" and "serves_at X ''/api/newsletter''"
    and "ui_email ui = e" and "e \<noteq> []"
  shows "let t = snd (snd (handle_request X E cfg w (incoming ip (subscribe_call e)) s));
             r = subscribeNewsletter (backend_net X E cfg w ip s) e;
             ui' = handleSettled (length (ui_inflight ui)) r (handleSubmit ui)
         in srv_db t = srv_db s \<and> ui_status ui' = Error \<and> ui_email ui' = e \<and>
            ui_msg ui' = JStr ''Validation failed''"
proof (rule subscribe_reaches_route [OF assms(3,4), of E])
  fix req s1
  assume req: "req_body req = subscription e"
    and h: "handle_request X E cfg w (incoming ip (subscribe_call e)) s =
      (let (r, d') = newsletter_route E req (srv_db s)
       in (case r of Inl e \<Rightarrow> error_handler e | Inr resp \<Rightarrow> resp, [], s1\<lparr>srv_db := d'\<rparr>))"
  have "\<not> zod_accepts em ur schemas_newsletter (req_body req)"
    using req assms(2) by (simp add: subscription_accepted)
  then obtain "is" where "validate (zod_parse E) schemas_newsletter req = Done (validation_failed is)"
    by (rule validate_rejects [OF backend.zod [OF assms(1)]])
  with h have hr: "handle_request X E cfg w (incoming ip (subscribe_call e)) s =
      (validation_failed is, [], s1\<lparr>srv_db := srv_db s\<rparr>)"
    by (simp add: newsletter_route_def run_route_def)
  have "subscribeNewsletter (backend_net X E cfg w ip s) e =
      \<lparr>api_data = JUndefined, api_error = JStr ''Validation failed''\<rparr>"
    using subscribeNewsletter_backend [OF hr]
    by (simp add: validation_failed_def response_ok_def js_lookup_def js_or_def)
  then show ?thesis
    using hr assms(5,6) by (simp add: Let_def handleSubmit_def handleSettled_def)
qed

definition typo_express :: "windows express" where
  "typo_express = ref_express\<lparr>json_body := (\<lambda>_ _. Inr (subscription ''bob''))\<rparr>"

theorem subscribe_refused_end_to_end_witness:
  "ui_msg (handleSettled 0 (subscribeNewsletter (backend_net typo_express ref_env sample_config sample_world
     ''127.0.0.1'' (sample_server [])) ''bob'') (handleSubmit (handleChange ''bob'' Newsletter_init))) =
     JStr ''Validation failed''"
proof -
  have "\<not> ref_email ''bob''" "ui_email (handleChange ''bob'' Newsletter_init) = ''bob''" "''bob'' \<noteq> []"
    by (simp_all add: ref_email_def handleChange_def)
  moreover have "gets_through typo_express sample_config sample_world ''127.0.0.1'' (sample_server [])
      (subscribe_call ''bob'')" "serves_at typo_express ''/api/newsletter''"
    by (simp_all add: gets_through_def serves_at_def typo_express_def ref_express_def ref_limit_def
        sample_limits sample_server_def subscribe_call_body subscribe_call_incoming ref_mount_def
        ref_route_def)
  ultimately show ?thesis
    using subscribe_refused_end_to_end [OF ref.backend_axioms, of "''bob''" typo_express sample_config
        sample_world "''127.0.0.1''" "sample_server []" "handleChange ''bob'' Newsletter_init"]
    by (simp add: Let_def handleChange_def Newsletter_init_def)
qed

text \<open>The sections of the page are \<open>home\<close>, \<open>stats\<close>, \<open>ecosystem\<close> and
  \<open>roadmap\<close>, whatever state the components are in, and every link of the navigation and the
  footer leads to one of them or to the top of the page, except \<open>#technology\<close>, which leads
  nowhere.\<close>

theorem page_links:
  assumes "App fmt to_text s = Inr page"
  shows "ids page = [''home'', ''stats'', ''ecosystem'', ''roadmap''] \<and>
    {h \<in> set (hrefs page). h \<noteq> ''#'' \<and> h \<notin> (\<lambda>i. ''#'' @ i) ` set (ids page)} = {''#technology''}"
proof -
  from assms obtain st where st: "Stats fmt (app_stats s) = Inr st"
    and page: "page = el ''div'' [Navbar (app_nav s), Hero (app_scene_ready s), st, Features, Roadmap,
      Newsletter to_text (app_newsletter s), Footer]" by (auto simp: App_def split: sum.splits)
  from st obtain items where
    "st = Elem ''section'' [(''id'', AStr ''stats'')]
       [el ''div'' [el ''h2'' [Txt ''Network Statistics''], el ''div''
         (map (\<lambda>item. el ''div'' [el ''p'' [Txt (snd item)], el ''p'' [Txt (fst item)]]) items)]]"
    by (auto simp: Stats_def split: sum.splits)
  then have "attr_strings ''id'' st = [''stats'']" "attr_strings ''href'' st = []"
    by (simp_all add: comp_def)
  moreover have "attr_strings k (Newsletter to_text (app_newsletter s)) = []" if "k \<in> {''id'', ''href''}" for k
    using that by (auto simp: Newsletter_def)
  ultimately have i: "ids page = [''home'', ''stats'', ''ecosystem'', ''roadmap'']"
    and h: "set (hrefs page) = {''#ecosystem'', ''#technology'', ''#roadmap'', ''#stats'', ''#''}"
    by (auto simp: ids_def hrefs_def page navbar_hrefs)
  show ?thesis unfolding i h by auto
qed

theorem page_links_witness:
  "\<exists>page. App sample_format (\<lambda>_. []) App_init = Inr page \<and> ''#technology'' \<in> set (hrefs page)"
proof -
  have "\<exists>page. App sample_format (\<lambda>_. []) App_init = Inr page"
    by (simp add: App_def App_init_def Stats_def Stats_init_def Stats_items_def or_zero_def js_nullish_def)
  then obtain page where p: "App sample_format (\<lambda>_. []) App_init = Inr page" by blast
  from page_links [OF p] have "''#technology'' \<in> set (hrefs page)" by blast
  with p show ?thesis by blast
qed

end
