(* ===== verification/Website_Scene.thy ===== *)
theory Website_Scene
  imports Website_Page
begin

text \<open>
  The 3D components of the website: \<open>Scene3D.tsx\<close> (the hologram of the landing page),
  \<open>Scene.tsx\<close> (the crystal with its ring of particles) and \<open>ParticlesBackground.tsx\<close> (the
  star field). What is computed there is geometry: the buffers of particle positions, the placement
  of the loaded model, and the rotations of every frame. Coordinates are real numbers in place of
  doubles and 32-bit floats; \<open>Math.random()\<close> is a sequence of draws, in the order of the calls.
  What three.js computes (the bounding box of a model, the action of position and scale on its
  points) is a parameter of the properties that use it.
\<close>

type_synonym vec3 = "real \<times> real \<times> real"

fun vadd :: "vec3 \<Rightarrow> vec3 \<Rightarrow> vec3" where
  "vadd (a, b, c) (x, y, z) = (a + x, b + y, c + z)"

fun vsub :: "vec3 \<Rightarrow> vec3 \<Rightarrow> vec3" where
  "vsub (a, b, c) (x, y, z) = (a - x, b - y, c - z)"

fun vscale :: "real \<Rightarrow> vec3 \<Rightarrow> vec3" where
  "vscale k (x, y, z) = (k * x, k * y, k * z)"

section \<open>Position buffers\<close>

text \<open>\<open>positions[i * 3] = x; positions[i * 3 + 1] = y; positions[i * 3 + 2] = z\<close>.\<close>

fun write_point :: "nat \<Rightarrow> vec3 \<Rightarrow> real list \<Rightarrow> real list" where
  "write_point i (x, y, z) ps = ps[i * 3 := x, i * 3 + 1 := y, i * 3 + 2 := z]"

text \<open>\<open>for (let i = 0; i < count; i++)\<close> over a buffer.\<close>

function fill :: "(nat \<Rightarrow> vec3) \<Rightarrow> nat \<Rightarrow> nat \<Rightarrow> real list \<Rightarrow> real list" where
  "fill f count i ps = (if i < count then fill f count (i + 1) (write_point i (f i) ps) else ps)"
  by pat_completeness auto
termination by (relation "measure (\<lambda>(f, count, i, ps). count - i)") auto

declare fill.simps [simp del]

definition point_at :: "real list \<Rightarrow> nat \<Rightarrow> vec3" where
  "point_at ps i = (ps ! (i * 3), ps ! (i * 3 + 1), ps ! (i * 3 + 2))"

lemma write_point_simps [simp]:
  "length (write_point i v ps) = length ps"
  "i * 3 + 2 < length ps \<Longrightarrow> point_at (write_point i v ps) i = v"
  "i \<noteq> j \<Longrightarrow> point_at (write_point i v ps) j = point_at ps j"
  by (cases v; auto simp: point_at_def nth_list_update)+

lemma fill_spec:
  assumes "length ps = count * 3"
  shows "length (fill f count i ps) = count * 3 \<and>
    (\<forall>j < count. point_at (fill f count i ps) j = (if i \<le> j then f j else point_at ps j))"
  using assms
proof (induction f count i ps rule: fill.induct)
  case (1 f count i ps)
  show ?case
  proof (cases "i < count")
    case True
    with 1 have IH: "length (fill f count (i + 1) (write_point i (f i) ps)) = count * 3"
      "\<And>j. j < count \<Longrightarrow> point_at (fill f count (i + 1) (write_point i (f i) ps)) j =
         (if i + 1 \<le> j then f j else point_at (write_point i (f i) ps) j)" by auto
    have "i * 3 + 2 < length ps" using True 1(2) by simp
    then show ?thesis using True IH by (subst (1 2) fill.simps) (auto simp: not_le less_Suc_eq)
  next
    case False
    with 1(2) show ?thesis by (subst (1 2) fill.simps) auto
  qed
qed

section \<open>ParticlesBackground.tsx\<close>

text \<open>The point of three draws: uniform in a ball of radius 20.\<close>

definition field_point :: "real \<Rightarrow> real \<Rightarrow> real \<Rightarrow> vec3" where
  "field_point u1 u2 u3 =
     (let r = 20 * root 3 u1;
          theta = u2 * 2 * pi;
          phi = arccos (2 * u3 - 1)
      in (r * sin phi * cos theta, r * sin phi * sin theta, r * cos phi))"

definition field_positions :: "(nat \<Rightarrow> real) \<Rightarrow> real list" where
  "field_positions rnd =
     (let count = 2000
      in fill (\<lambda>i. field_point (rnd (i * 3)) (rnd (i * 3 + 1)) (rnd (i * 3 + 2))) count 0
           (replicate (count * 3) 0))"

text \<open>\<open>useFrame\<close>: the rotation about x and y after a frame that took \<open>delta\<close>.\<close>

definition field_frame :: "real \<Rightarrow> real \<times> real \<Rightarrow> real \<times> real" where
  "field_frame delta rot = (fst rot - delta / 30, snd rot - delta / 40)"

definition ParticleField :: vnode where
  "ParticleField = el ''group'' [Comp ''Points'' [Comp ''PointMaterial'' []]]"

definition ParticlesBackground :: vnode where
  "ParticlesBackground = el ''div'' [Comp ''Canvas'' [ParticleField]]"

section \<open>Scene.tsx\<close>

text \<open>The outer mesh's rotation about y and x and the inner one's about y, at a time of the clock.\<close>

definition crystal_frame :: "real \<Rightarrow> (real \<times> real) \<times> real" where
  "crystal_frame t = ((t * 0.2, sin (t * 0.15) * 0.05), - t * 0.15)"

definition HyliumCrystal :: vnode where
  "HyliumCrystal =
     Comp ''Float''
       [el ''group''
          [el ''mesh'' [el ''icosahedronGeometry'' [], el ''meshPhysicalMaterial'' []],
           el ''mesh'' [el ''icosahedronGeometry'' [], el ''meshBasicMaterial'' []]]]"

definition ring_point :: "nat \<Rightarrow> nat \<Rightarrow> real \<Rightarrow> real \<Rightarrow> vec3" where
  "ring_point count i u1 u2 =
     (let angle = (real i / real count) * pi * 2;
          radius = 3.5 + u1 * 0.3
      in (cos angle * radius, (u2 - 0.5) * 0.2, sin angle * radius))"

definition ring_positions :: "(nat \<Rightarrow> real) \<Rightarrow> real list" where
  "ring_positions rnd =
     (let count = 400
      in fill (\<lambda>i. ring_point count i (rnd (i * 2)) (rnd (i * 2 + 1))) count 0
           (replicate (count * 3) 0))"

definition ring_frame :: "real \<Rightarrow> real" where
  "ring_frame t = t * 0.08"

definition ParticleRing :: vnode where
  "ParticleRing =
     el ''points'' [el ''bufferGeometry'' [el ''bufferAttribute'' []], el ''pointsMaterial'' []]"

definition Scene :: vnode where
  "Scene =
     Comp ''Canvas''
       [Comp ''Environment'' [], el ''ambientLight'' [], el ''directionalLight'' [],
        Comp ''Suspense'' [HyliumCrystal, ParticleRing], Comp ''OrbitControls'' []]"

section \<open>Scene3D.tsx\<close>

text \<open>\<open>obj.traverse\<close> visits a loaded object and all below it and gives every mesh the same material.\<close>

record standard_material =
  mat_color :: string
  mat_emissive :: string
  mat_emissiveIntensity :: real
  mat_transparent :: bool
  mat_opacity :: real
  mat_metalness :: real
  mat_roughness :: real
  mat_side :: string

definition hologram_material :: standard_material where
  "hologram_material = \<lparr>mat_color = ''#00d4ff'', mat_emissive = ''#0891b2'', mat_emissiveIntensity = 0.15,
     mat_transparent = True, mat_opacity = 0.95, mat_metalness = 0.5, mat_roughness = 0.4,
     mat_side = ''DoubleSide''\<rparr>"

datatype object3d =
    Mesh "standard_material option" "object3d list"
  | Group "object3d list"

fun hologram_traverse :: "object3d \<Rightarrow> object3d" where
  "hologram_traverse (Mesh material children) = Mesh (Some hologram_material) (map hologram_traverse children)"
| "hologram_traverse (Group children) = Group (map hologram_traverse children)"

fun mesh_materials :: "object3d \<Rightarrow> standard_material option list" where
  "mesh_materials (Mesh material children) = material # concat (map mesh_materials children)"
| "mesh_materials (Group children) = concat (map mesh_materials children)"

lemma hologram_traverse_materials:
  "mesh_materials (hologram_traverse obj) = replicate (length (mesh_materials obj)) (Some hologram_material)"
proof (induction obj)
  case (Mesh material children)
  then have "concat (map (mesh_materials \<circ> hologram_traverse) children) =
      replicate (length (concat (map mesh_materials children))) (Some hologram_material)"
    by (induction children) (simp_all add: replicate_add)
  then show ?case
    by (simp add: comp_def)
next
  case (Group children)
  then have "concat (map (mesh_materials \<circ> hologram_traverse) children) =
      replicate (length (concat (map mesh_materials children))) (Some hologram_material)"
    by (induction children) (simp_all add: replicate_add)
  then show ?case
    by (simp add: comp_def)
qed

text \<open>Where the loaded model is put: its position (it starts at the origin) and its scale, from the
  center and the size of its bounding box.\<close>

fun max_dim :: "vec3 \<Rightarrow> real" where
  "max_dim (x, y, z) = max x (max y z)"

definition hologram_scale :: "vec3 \<Rightarrow> real" where
  "hologram_scale box_size = 5 / max_dim box_size"

definition hologram_position :: "vec3 \<Rightarrow> vec3" where
  "hologram_position box_center = vsub (0, 0, 0) box_center"

text \<open>The two \<open>useState\<close> cells: the placed model, and whether loading has failed.\<close>

record hologram_state =
  hg_model :: "(vec3 \<times> real) option"
  hg_error :: bool

definition HologramModel_init :: hologram_state where
  "HologramModel_init = \<lparr>hg_model = None, hg_error = False\<rparr>"

definition hologram_loaded :: "vec3 \<Rightarrow> vec3 \<Rightarrow> hologram_state \<Rightarrow> hologram_state" where
  "hologram_loaded box_center box_size s =
     s\<lparr>hg_model := Some (hologram_position box_center, hologram_scale box_size)\<rparr>"

definition hologram_failed :: "hologram_state \<Rightarrow> hologram_state" where
  "hologram_failed s = s\<lparr>hg_error := True\<rparr>"

definition hologram_frame :: "real \<Rightarrow> real" where
  "hologram_frame t = t * 0.25"

definition HologramModel :: "hologram_state \<Rightarrow> vnode list" where
  "HologramModel s =
     (if hg_error s
      then [Comp ''Float''
              [el ''mesh'' [el ''icosahedronGeometry'' [], el ''meshStandardMaterial'' []]]]
      else if hg_model s = None then []
      else [Comp ''Float'' [el ''primitive'' []]])"

definition Scene3D :: "hologram_state \<Rightarrow> vnode" where
  "Scene3D s =
     Comp ''Canvas''
       ([el ''ambientLight'' [], el ''directionalLight'' [], el ''pointLight'' []]
        @ HologramModel s @ [Comp ''OrbitControls'' []])"

section \<open>Properties\<close>

lemma field_point_norm:
  assumes "field_point u1 u2 u3 = (x, y, z)" and "0 \<le> u1" "u1 \<le> 1"
  shows "x\<^sup>2 + y\<^sup>2 + z\<^sup>2 \<le> 20\<^sup>2"
proof -
  let ?r = "20 * root 3 u1" and ?t = "u2 * 2 * pi" and ?p = "arccos (2 * u3 - 1)"
  have sq: "(r * s * c)\<^sup>2 + (r * s * d)\<^sup>2 + (r * k)\<^sup>2 = r\<^sup>2 * (s\<^sup>2 * (c\<^sup>2 + d\<^sup>2) + k\<^sup>2)"
    for r s c d k :: real by (simp add: power_mult_distrib algebra_simps)
  from assms(1) have "x = ?r * sin ?p * cos ?t" "y = ?r * sin ?p * sin ?t" "z = ?r * cos ?p"
    by (auto simp: field_point_def Let_def)
  then have "x\<^sup>2 + y\<^sup>2 + z\<^sup>2 = ?r\<^sup>2 * ((sin ?p)\<^sup>2 * ((cos ?t)\<^sup>2 + (sin ?t)\<^sup>2) + (cos ?p)\<^sup>2)"
    by (simp only: sq)
  then have "x\<^sup>2 + y\<^sup>2 + z\<^sup>2 = ?r\<^sup>2" by simp
  moreover have "0 \<le> root 3 u1" "root 3 u1 \<le> 1" using assms(2,3) by (auto simp: real_root_le_1_iff)
  ultimately show ?thesis by (simp add: power_mult_distrib power_le_one)
qed

text \<open>The star field fills its buffer and stays in its ball: all 6000 coordinates are written, and
  each of the 2000 points is at most 20 away from the origin, whatever the draws.\<close>

theorem particle_field_in_ball:
  assumes "\<forall>k. 0 \<le> rnd k \<and> rnd k < 1"
  shows "length (field_positions rnd) = 6000 \<and>
    (\<forall>i < 2000. \<exists>x y z. point_at (field_positions rnd) i = (x, y, z) \<and>
       (x, y, z) = field_point (rnd (i * 3)) (rnd (i * 3 + 1)) (rnd (i * 3 + 2)) \<and>
       x\<^sup>2 + y\<^sup>2 + z\<^sup>2 \<le> 20\<^sup>2)"
proof -
  let ?f = "\<lambda>i. field_point (rnd (i * 3)) (rnd (i * 3 + 1)) (rnd (i * 3 + 2))"
  have "length (field_positions rnd) = 6000" and pt: "\<And>i. i < 2000 \<Longrightarrow> point_at (field_positions rnd) i = ?f i"
    using fill_spec [of "replicate (2000 * 3) 0" 2000 ?f 0] by (auto simp: field_positions_def Let_def)
  moreover have "\<exists>x y z. ?f i = (x, y, z) \<and> x\<^sup>2 + y\<^sup>2 + z\<^sup>2 \<le> 20\<^sup>2" for i
    using field_point_norm [of "rnd (i * 3)" "rnd (i * 3 + 1)" "rnd (i * 3 + 2)"] assms
    by (metis less_imp_le prod_cases3)
  ultimately show ?thesis by metis
qed

theorem particle_field_in_ball_witness:
  "\<exists>x y z. point_at (field_positions (\<lambda>_. 1 / 2)) 1999 = (x, y, z) \<and> x\<^sup>2 + y\<^sup>2 + z\<^sup>2 \<le> 20\<^sup>2"
proof -
  have "\<forall>k :: nat. 0 \<le> (1 / 2 :: real) \<and> (1 / 2 :: real) < 1" by simp
  from particle_field_in_ball [OF this] have "\<forall>i < 2000. \<exists>x y z.
      point_at (field_positions (\<lambda>_. 1 / 2)) i = (x, y, z) \<and> x\<^sup>2 + y\<^sup>2 + z\<^sup>2 \<le> 20\<^sup>2" by blast
  then show ?thesis by (rule allE [of _ 1999]) simp
qed

text \<open>The ring of particles fills its buffer and is a flat ring: all 1200 coordinates are written,
  every point is between 3.5 and 3.8 away from the axis and at most 0.1 off the plane.\<close>

theorem particle_ring_flat:
  assumes "\<forall>k. 0 \<le> rnd k \<and> rnd k < 1"
  shows "length (ring_positions rnd) = 1200 \<and>
    (\<forall>i < 400. \<exists>x y z. point_at (ring_positions rnd) i = (x, y, z) \<and>
       3.5\<^sup>2 \<le> x\<^sup>2 + z\<^sup>2 \<and> x\<^sup>2 + z\<^sup>2 < 3.8\<^sup>2 \<and> \<bar>y\<bar> \<le> 0.1)"
proof -
  let ?f = "\<lambda>i. ring_point 400 i (rnd (i * 2)) (rnd (i * 2 + 1))"
  have "length (ring_positions rnd) = 1200" and pt: "\<And>i. i < 400 \<Longrightarrow> point_at (ring_positions rnd) i = ?f i"
    using fill_spec [of "replicate (400 * 3) 0" 400 ?f 0] by (auto simp: ring_positions_def Let_def)
  moreover have "3.5\<^sup>2 \<le> x\<^sup>2 + z\<^sup>2 \<and> x\<^sup>2 + z\<^sup>2 < 3.8\<^sup>2 \<and> \<bar>y\<bar> \<le> 0.1" if p: "?f i = (x, y, z)" for i x y z
  proof -
    let ?a = "(real i / real 400) * pi * 2" and ?r = "3.5 + rnd (i * 2) * 0.3"
    from p have xyz: "x = cos ?a * ?r" "z = sin ?a * ?r" "y = (rnd (i * 2 + 1) - 0.5) * 0.2"
      by (auto simp: ring_point_def Let_def)
    have "x\<^sup>2 + z\<^sup>2 = ((cos ?a)\<^sup>2 + (sin ?a)\<^sup>2) * ?r\<^sup>2"
      unfolding xyz by (simp only: power_mult_distrib distrib_right)
    then have eq: "x\<^sup>2 + z\<^sup>2 = ?r\<^sup>2" by simp
    have b: "0 \<le> rnd (i * 2)" "rnd (i * 2) < 1" "0 \<le> rnd (i * 2 + 1)" "rnd (i * 2 + 1) < 1"
      using assms by auto
    have "3.5 \<le> ?r" "?r < 3.8" using b by auto
    then have "3.5\<^sup>2 \<le> ?r\<^sup>2" "?r\<^sup>2 < 3.8\<^sup>2" by (intro power_mono power_strict_mono; simp)+
    moreover have "y \<le> 0.1" "- 0.1 \<le> y" unfolding xyz using b(3,4) by auto
    then have "\<bar>y\<bar> \<le> 0.1" by linarith
    ultimately show ?thesis unfolding eq by blast
  qed
  ultimately show ?thesis by (metis prod_cases3)
qed

theorem particle_ring_flat_witness:
  "\<exists>x y z. point_at (ring_positions (\<lambda>_. 0)) 100 = (x, y, z) \<and> \<bar>y\<bar> \<le> 0.1 \<and> x\<^sup>2 + z\<^sup>2 < 3.8\<^sup>2"
proof -
  have "\<forall>k :: nat. 0 \<le> (0 :: real) \<and> (0 :: real) < 1" by simp
  from particle_ring_flat [OF this] have "\<forall>i < 400. \<exists>x y z.
      point_at (ring_positions (\<lambda>_. 0)) i = (x, y, z) \<and> \<bar>y\<bar> \<le> 0.1 \<and> x\<^sup>2 + z\<^sup>2 < 3.8\<^sup>2" by blast
  then show ?thesis by (rule allE [of _ 100]) simp
qed

text \<open>The loaded model is scaled so that the largest side of its bounding box becomes 5, but it is
  not centred: \<open>position.sub(center)\<close> subtracts the unscaled center, so that the middle of the
  box lands \<open>scale - 1\<close> times the center away from the origin, and on it only if the box was
  centred already or the scale is 1.\<close>

theorem hologram_placement:
  assumes "\<And>p k v. place p k v = vadd p (vscale k v)"
    and "box_center = vscale (1 / 2) (vadd lo hi)" and "box_size = vsub hi lo" and "0 < max_dim box_size"
    and "hg_model (hologram_loaded box_center box_size s) = Some (pos, k)"
  shows "max_dim (vsub (place pos k hi) (place pos k lo)) = 5 \<and>
    place pos k box_center = vscale (k - 1) box_center \<and>
    (place pos k box_center = (0, 0, 0) \<longleftrightarrow> k = 1 \<or> box_center = (0, 0, 0))"
proof -
  have pk: "pos = vsub (0, 0, 0) box_center" "k = 5 / max_dim box_size"
    using assms(5) by (auto simp: hologram_loaded_def hologram_position_def hologram_scale_def)
  obtain a b c where c: "box_center = (a, b, c)" by (cases box_center)
  obtain x y z where z: "box_size = (x, y, z)" by (cases box_size)
  have k: "0 < k" using pk(2) assms(4) by simp
  have "vsub (place pos k hi) (place pos k lo) = vscale k box_size"
    unfolding assms(1,3) by (cases pos; cases hi; cases lo) (simp add: algebra_simps)
  moreover have "max_dim (vscale k box_size) = k * max_dim box_size"
    using k by (simp add: z max_mult_distrib_left)
  moreover have "k * max_dim box_size = 5" using pk(2) assms(4) by simp
  moreover have "place pos k box_center = vscale (k - 1) box_center"
    by (simp add: assms(1) pk(1) c algebra_simps)
  ultimately show ?thesis by (auto simp: c)
qed

theorem hologram_placement_witness:
  "hg_model (hologram_loaded (1, 0, 0) (2, 2, 2) HologramModel_init) = Some ((- 1, 0, 0), 5 / 2) \<and>
   vadd (- 1, 0, 0) (vscale (5 / 2) (1, 0, 0)) \<noteq> (0, 0, 0)"
proof -
  have m: "hg_model (hologram_loaded (1, 0, 0) (2, 2, 2) HologramModel_init) = Some ((- 1, 0, 0), 5 / 2)"
    by (simp add: hologram_loaded_def hologram_position_def hologram_scale_def)
  have "(1, 0, 0) = vscale (1 / 2) (vadd (0, - 1, - 1) (2, 1, 1))" "(2, 2, 2) = vsub (2, 1, 1) (0, - 1, - 1)"
    "0 < max_dim (2, 2, 2)" by simp_all
  from hologram_placement [of "\<lambda>p k v. vadd p (vscale k v)", OF refl this m] m show ?thesis by simp
qed

end
