(* ===== verification/Bit_Arith.thy ===== *)
theory Bit_Arith
  imports Main
begin

text \<open>
  The bit operations of C++ on unsigned numbers as arithmetic: masking with low ones is a
  remainder, shifting left and filling the gap is a sum.
\<close>

unbundle bit_operations_syntax

lemma and_low_bits: "(x::nat) AND (2 ^ k - Suc 0) = x mod 2 ^ k"
  by (metis One_nat_def mask_eq_exp_minus_1 take_bit_eq_mask take_bit_eq_mod)

lemma push_or_low:
  fixes v :: nat
  assumes "v < 2 ^ k"
  shows "push_bit k a OR v = a * 2 ^ k + v"
proof -
  have "push_bit k a AND v = 0"
  proof (rule bit_eqI)
    fix n
    have "\<not> bit v n" if "k \<le> n"
    proof -
      have "v < 2 ^ n"
        using assms power_increasing [OF that, of "2::nat"] by linarith
      then show ?thesis
        by (simp add: bit_iff_odd)
    qed
    then show "bit (push_bit k a AND v) n = bit 0 n"
      by (auto simp: bit_and_iff bit_push_bit_iff)
  qed
  then show ?thesis
    by (simp add: push_bit_eq_mult flip: disjunctive_add_eq_or)
qed

end
