(* ===== verification/Convert_Bits.thy ===== *)
theory Convert_Bits
  imports Prelude Bit_Arith
begin

text \<open>
  The node's conversion between power-of-two number bases: the template \<open>ConvertBits\<close> of
  \<open>src/util/strencodings.h\<close>, which base64, base32 and the address encodings are instances of.
  The template arguments are the first three arguments of the model. The accumulator is a natural
  number: it is masked to \<open>frombits + tobits - 1\<close> bits in every round, so the shifts of the
  \<open>size_t\<close> never lose a bit at the widths the code uses. Its correctness is stated by the number
  a digit sequence denotes.
\<close>

unbundle bit_operations_syntax

section \<open>The loops\<close>

text \<open>The inner loop \<open>while (bits >= tobits)\<close>: the digits it hands to \<open>outfn\<close> are appended
  to the output. A template is never instantiated at \<open>tobits = 0\<close>, where the loop would not
  end.\<close>

function emit_digits :: "nat \<Rightarrow> nat \<Rightarrow> nat \<Rightarrow> nat list \<Rightarrow> nat \<times> nat list" where
  "emit_digits tobits acc bits out =
     (if tobits \<le> bits \<and> 0 < tobits
      then emit_digits tobits acc (bits - tobits)
             (out @ [drop_bit (bits - tobits) acc AND (2 ^ tobits - 1)])
      else (bits, out))"
  by auto

termination emit_digits
  by (relation "measure (\<lambda>(t, a, b, out). b)") auto

declare emit_digits.simps [simp del]

text \<open>The outer loop: \<^term>\<open>None\<close> when \<open>infn\<close> has returned a negative number, else the final
  accumulator and bit count; with either, the digits handed out so far.\<close>

fun convert_loop ::
  "nat \<Rightarrow> nat \<Rightarrow> ('a \<Rightarrow> int) \<Rightarrow> nat \<Rightarrow> nat \<Rightarrow> nat list \<Rightarrow> 'a list \<Rightarrow>
     (nat \<times> nat) option \<times> nat list" where
  "convert_loop frombits tobits infn acc bits out [] = (Some (acc, bits), out)"
| "convert_loop frombits tobits infn acc bits out (x # xs) =
     (let v = infn x in
      if v < 0 then (None, out)
      else
        let acc' = (push_bit frombits acc OR nat v) AND (2 ^ (frombits + tobits - 1) - 1);
            (bits', out') = emit_digits tobits acc' (bits + frombits) out
        in convert_loop frombits tobits infn acc' bits' out' xs)"

definition ConvertBits ::
  "nat \<Rightarrow> nat \<Rightarrow> bool \<Rightarrow> ('a \<Rightarrow> int) \<Rightarrow> 'a list \<Rightarrow> bool \<times> nat list" where
  "ConvertBits frombits tobits pad infn xs =
     (case convert_loop frombits tobits infn 0 0 [] xs of
        (None, out) \<Rightarrow> (False, out)
      | (Some (acc, bits), out) \<Rightarrow>
          let tail = push_bit (tobits - bits) acc AND (2 ^ tobits - 1) in
          if pad then (True, if bits \<noteq> 0 then out @ [tail] else out)
          else if frombits \<le> bits \<or> tail \<noteq> 0 then (False, out)
          else (True, out))"

section \<open>Digit sequences\<close>

definition digits :: "nat \<Rightarrow> nat list \<Rightarrow> bool" where
  "digits b ds \<longleftrightarrow> (\<forall>d \<in> set ds. d < 2 ^ b)"

text \<open>The number a sequence of \<open>b\<close>-bit digits denotes, the most significant first.\<close>

definition digit_value :: "nat \<Rightarrow> nat list \<Rightarrow> nat" where
  "digit_value b ds = foldl (\<lambda>v d. v * 2 ^ b + d) 0 ds"

lemma digits_simps [simp]:
  "digits b []" "digits b (d # ds) \<longleftrightarrow> d < 2 ^ b \<and> digits b ds"
  "digits b (ds @ es) \<longleftrightarrow> digits b ds \<and> digits b es"
  by (auto simp: digits_def)

lemma digit_value_Nil [simp]: "digit_value b [] = 0"
  by (simp add: digit_value_def)

lemma digit_value_snoc [simp]: "digit_value b (ds @ [d]) = digit_value b ds * 2 ^ b + d"
  by (simp add: digit_value_def)

lemma digit_value_append:
  "digit_value b (ds @ es) = digit_value b ds * 2 ^ (b * length es) + digit_value b es"
  by (induction es rule: rev_induct)
     (simp_all add: power_add algebra_simps flip: append_assoc)

lemma digit_value_Cons:
  "digit_value b (d # ds) = d * 2 ^ (b * length ds) + digit_value b ds"
  using digit_value_append [of b "[d]" ds] digit_value_snoc [of b "[]" d] by simp

lemma digits_unique:
  assumes "digits b ds" "digits b es" "length ds = length es"
    and "digit_value b ds = digit_value b es"
  shows "ds = es"
  using assms
proof (induction ds arbitrary: es rule: rev_induct)
  case (snoc d ds)
  then obtain e fs where es: "es = fs @ [e]"
    by (metis length_0_conv append_is_Nil_conv not_Cons_self2 rev_exhaust)
  have lt: "d < 2 ^ b" "e < 2 ^ b"
    using snoc.prems es by simp_all
  have eq: "digit_value b ds * 2 ^ b + d = digit_value b fs * 2 ^ b + e"
    using snoc.prems es by simp
  have "(digit_value b ds * 2 ^ b + d) mod 2 ^ b = d"
    using lt by simp
  moreover have "(digit_value b fs * 2 ^ b + e) mod 2 ^ b = e"
    using lt by simp
  ultimately have "d = e"
    using eq by simp
  then show ?case
    using snoc es eq by simp
qed simp

section \<open>The bit operations as arithmetic\<close>

lemma shift_in_mod:
  fixes acc v :: nat
  assumes "v < 2 ^ f" and "bits < t"
  shows "((push_bit f acc OR v) AND (2 ^ (f + t - 1) - 1)) mod 2 ^ (bits + f)
       = acc mod 2 ^ bits * 2 ^ f + v"
proof -
  have "(2::nat) ^ (bits + f) dvd 2 ^ (f + t - 1)"
    using assms(2) by (intro le_imp_power_dvd) linarith
  then have "((push_bit f acc OR v) AND (2 ^ (f + t - 1) - 1)) mod 2 ^ (bits + f)
      = (acc * 2 ^ f + v) mod (2 ^ f * 2 ^ bits)"
    using assms(1) by (simp add: and_low_bits push_or_low mod_mod_cancel power_add mult.commute)
  also have "\<dots> = acc mod 2 ^ bits * 2 ^ f + v"
    using assms(1) by (simp add: mod_mult2_eq)
  finally show ?thesis .
qed

lemma take_digit:
  fixes acc :: nat
  assumes "t \<le> bits"
  shows "acc mod 2 ^ bits
       = (drop_bit (bits - t) acc AND (2 ^ t - 1)) * 2 ^ (bits - t) + acc mod 2 ^ (bits - t)"
proof -
  have "(2::nat) ^ bits = 2 ^ (bits - t) * 2 ^ t"
    using assms by (simp flip: power_add)
  then show ?thesis
    by (simp add: and_low_bits drop_bit_eq_div mod_mult2_eq)
qed

section \<open>What the loops compute\<close>

text \<open>The number read so far: the digits written, then the low bits still in the
  accumulator.\<close>

definition pending :: "nat \<Rightarrow> nat \<Rightarrow> nat \<Rightarrow> nat list \<Rightarrow> nat" where
  "pending tobits acc bits out = digit_value tobits out * 2 ^ bits + acc mod 2 ^ bits"

lemma emit_digits_spec:
  assumes "emit_digits t acc bits out = (bits', out')" and "0 < t" and "digits t out"
  shows "bits' < t \<and> digits t out' \<and> t * length out' + bits' = t * length out + bits \<and>
    pending t acc bits' out' = pending t acc bits out"
  using assms
proof (induction t acc bits out rule: emit_digits.induct)
  case (1 t acc bits out)
  show ?case
  proof (cases "t \<le> bits")
    case True
    let ?d = "drop_bit (bits - t) acc AND (2 ^ t - 1)"
    have "pending t acc (bits - t) (out @ [?d]) = pending t acc bits out"
      using True take_digit [OF True, of acc]
      by (simp add: pending_def algebra_simps flip: power_add)
    moreover have "?d < 2 ^ t"
      by (simp add: and_low_bits)
    ultimately show ?thesis
      using 1 True by (simp add: emit_digits.simps [of t acc bits])
  next
    case False
    then show ?thesis
      using 1 by (simp add: emit_digits.simps [of t acc bits])
  qed
qed

lemma convert_loop_spec:
  assumes "convert_loop f t infn acc bits out xs = (Some (acc', bits'), out')"
    and "0 < t" and "bits < t" and "digits t out" and "\<forall>x \<in> set xs. infn x < 2 ^ f"
  shows "bits' < t \<and> digits t out' \<and>
    t * length out' + bits' = t * length out + bits + f * length xs \<and>
    pending t acc' bits' out'
      = pending t acc bits out * 2 ^ (f * length xs) + digit_value f (map (nat \<circ> infn) xs)"
  using assms
proof (induction xs arbitrary: acc bits out)
  case (Cons x xs)
  define v where "v = nat (infn x)"
  define a where "a = (push_bit f acc OR v) AND (2 ^ (f + t - 1) - 1)"
  obtain b o1 where emit: "emit_digits t a (bits + f) out = (b, o1)"
    by fastforce
  have v: "v < 2 ^ f"
    using Cons.prems(5) by (simp add: v_def nat_less_iff)
  have read: "pending t a (bits + f) out = pending t acc bits out * 2 ^ f + v"
    using shift_in_mod [OF v Cons.prems(3), of acc]
    by (simp add: pending_def a_def power_add algebra_simps)
  have rest: "convert_loop f t infn a b o1 xs = (Some (acc', bits'), out')"
    using Cons.prems(1) emit by (simp add: Let_def a_def v_def split: if_splits)
  note step = emit_digits_spec [OF emit Cons.prems(2,4)]
  show ?case
    using Cons.IH [OF rest] Cons.prems(2,5) step read
    by (simp add: digit_value_Cons algebra_simps power_add flip: v_def)
qed simp

lemma convert_loop_total:
  "\<forall>x \<in> set xs. 0 \<le> infn x \<Longrightarrow>
     \<exists>acc' bits' out'. convert_loop f t infn acc bits out xs = (Some (acc', bits'), out')"
  by (induction xs arbitrary: acc bits out) (auto simp: Let_def not_less split: prod.splits)

lemma convert_loop_rejects:
  "convert_loop f t infn acc bits out xs = (Some r, out') \<Longrightarrow> \<forall>x \<in> set xs. 0 \<le> infn x"
  by (induction xs arbitrary: acc bits out) (auto simp: Let_def split: if_splits prod.splits)

lemma convert_loop_start:
  assumes "convert_loop f t infn 0 0 [] xs = (Some (acc, bits), out)"
    and "0 < t" and "\<forall>x \<in> set xs. infn x < 2 ^ f"
  shows "bits < t" and "digits t out" and "t * length out + bits = f * length xs"
    and "digit_value t out * 2 ^ bits + acc mod 2 ^ bits = digit_value f (map (nat \<circ> infn) xs)"
  using convert_loop_spec [OF assms(1,2)] assms(2,3) by (simp_all add: pending_def)

lemma tail_bits:
  fixes acc :: nat
  assumes "bits < t"
  shows "push_bit (t - bits) acc AND (2 ^ t - Suc 0) = acc mod 2 ^ bits * 2 ^ (t - bits)"
proof -
  have "(2::nat) ^ t = 2 ^ bits * 2 ^ (t - bits)"
    using assms by (simp flip: power_add)
  then have "acc * 2 ^ (t - bits) mod 2 ^ t = acc mod 2 ^ bits * 2 ^ (t - bits)"
    by (simp add: mult_mod_left)
  then show ?thesis
    by (simp add: and_low_bits push_bit_eq_mult)
qed

text \<open>With padding: the input followed by fewer than \<open>tobits\<close> zero bits.\<close>

lemma ConvertBits_pad:
  assumes "0 < t" and "\<forall>x \<in> set xs. 0 \<le> infn x \<and> infn x < 2 ^ f"
  obtains ys r where "ConvertBits f t True infn xs = (True, ys)" and "digits t ys"
    and "t * length ys = f * length xs + r" and "r < t"
    and "digit_value t ys = digit_value f (map (nat \<circ> infn) xs) * 2 ^ r"
proof -
  obtain acc bits out where run: "convert_loop f t infn 0 0 [] xs = (Some (acc, bits), out)"
    using convert_loop_total [of xs infn f t 0 0 "[]"] assms(2) by blast
  have "\<forall>x \<in> set xs. infn x < 2 ^ f"
    using assms(2) by blast
  note spec = convert_loop_start [OF run assms(1) this]
  show thesis
  proof (cases "bits = 0")
    case True
    with that [of out 0] spec assms run show thesis
      by (simp add: ConvertBits_def)
  next
    case False
    have "acc mod 2 ^ bits * 2 ^ (t - bits) < 2 ^ bits * 2 ^ (t - bits)"
      by simp
    then have "acc mod 2 ^ bits * 2 ^ (t - bits) < 2 ^ t"
      using spec(1) by (simp flip: power_add)
    moreover have "digit_value t out * 2 ^ t = digit_value t out * 2 ^ bits * 2 ^ (t - bits)"
      using spec(1) by (simp flip: power_add)
    ultimately show thesis
      using that [of "out @ [acc mod 2 ^ bits * 2 ^ (t - bits)]" "t - bits"] False spec(1-3) run
      by (simp add: ConvertBits_def tail_bits distrib_right flip: spec(4))
  qed
qed

text \<open>Without: the conversion succeeds exactly when the bits left over are fewer than an input
  digit has and all zero.\<close>

lemma ConvertBits_nopad:
  assumes "0 < t" and "\<forall>x \<in> set xs. infn x < 2 ^ f"
    and "ConvertBits f t False infn xs = (True, ys)"
  obtains r where "\<forall>x \<in> set xs. 0 \<le> infn x" and "digits t ys"
    and "t * length ys + r = f * length xs" and "r < t" and "r < f"
    and "digit_value f (map (nat \<circ> infn) xs) = digit_value t ys * 2 ^ r"
proof -
  obtain acc bits where run: "convert_loop f t infn 0 0 [] xs = (Some (acc, bits), ys)"
    and fits: "bits < f" and tail: "push_bit (t - bits) acc AND (2 ^ t - 1) = 0"
    using assms(3) by (auto simp: ConvertBits_def Let_def split: prod.splits option.splits if_splits)
  note spec = convert_loop_start [OF run assms(1,2)]
  have "acc mod 2 ^ bits * 2 ^ (t - bits) = 0"
    using tail spec(1) by (simp add: tail_bits)
  then show thesis
    using that [of bits] spec fits convert_loop_rejects [OF run] by simp
qed

lemma ConvertBits_nopad_intro:
  assumes "0 < t" and "\<forall>x \<in> set xs. 0 \<le> infn x \<and> infn x < 2 ^ f"
    and "digits t ys" and "t * length ys + r = f * length xs" and "r < t" and "r < f"
    and "digit_value f (map (nat \<circ> infn) xs) = digit_value t ys * 2 ^ r"
  shows "ConvertBits f t False infn xs = (True, ys)"
proof -
  obtain acc bits out where run: "convert_loop f t infn 0 0 [] xs = (Some (acc, bits), out)"
    using convert_loop_total [of xs infn f t 0 0 "[]"] assms(2) by blast
  have "\<forall>x \<in> set xs. infn x < 2 ^ f"
    using assms(2) by blast
  note spec = convert_loop_start [OF run assms(1) this]
  have len: "t * length out + bits = t * length ys + r" and small: "bits < t"
    using spec assms(2,4) by simp_all
  have "(t * length out + bits) mod t = bits" "(t * length ys + r) mod t = r"
    using small assms(5) by simp_all
  with len have r: "bits = r"
    by simp
  have val: "digit_value t out * 2 ^ r + acc mod 2 ^ r = digit_value t ys * 2 ^ r"
    using spec assms(2,7) r by simp
  have "(digit_value t out * 2 ^ r + acc mod 2 ^ r) mod 2 ^ r = acc mod 2 ^ r"
    by simp
  with val have zero: "acc mod 2 ^ r = 0"
    by simp
  have "out = ys"
    using spec assms(1-3) val zero len r by (intro digits_unique) simp_all
  moreover have "push_bit (t - bits) acc AND (2 ^ t - 1) = 0"
    using zero r assms(5) by (simp add: tail_bits)
  ultimately show ?thesis
    using run r assms(6) by (simp add: ConvertBits_def)
qed

end
