(* ===== verification/Base64.thy ===== *)
theory Base64
  imports Convert_Bits Rpc_Route
begin

text \<open>
  The node's base64 coder (\<open>src/util/strencodings.cpp\<close>) as the instances of
  \<^const>\<open>ConvertBits\<close> it is, and how it relates to the encoder the backend calls. A C++
  \<open>char\<close> is a HOL \<^typ>\<open>char\<close>, a byte a natural number below 256.
\<close>

section \<open>EncodeBase64\<close>

definition pbase64 :: string where
  "pbase64 = ''ABCDEFGHIJKLMNOPQRSTUVWXYZabcdefghijklmnopqrstuvwxyz0123456789+/''"

text \<open>\<open>while (str.size() % 4) str += '='\<close>.\<close>

function pad_quantum :: "string \<Rightarrow> string" where
  "pad_quantum str = (if length str mod 4 \<noteq> 0 then pad_quantum (str @ ''='') else str)"
  by auto

lemma mod_4_cases: "(n::nat) mod 4 = 0 \<or> n mod 4 = 1 \<or> n mod 4 = 2 \<or> n mod 4 = 3"
  using mod_less_divisor [of 4 n] by linarith

termination pad_quantum
proof (relation "measure (\<lambda>s. (4 - length s mod 4) mod 4)")
  fix str :: string
  assume "length str mod 4 \<noteq> 0"
  then show "(str @ ''='', str) \<in> measure (\<lambda>s. (4 - length s mod 4) mod 4)"
    using mod_4_cases [of "length str"] by (auto simp: mod_Suc)
qed simp

declare pad_quantum.simps [simp del]

definition EncodeBase64 :: "nat list \<Rightarrow> string" where
  "EncodeBase64 input =
     pad_quantum (map (\<lambda>v. pbase64 ! v) (snd (ConvertBits 8 6 True int input)))"

section \<open>DecodeBase64\<close>

definition decode64_table :: "int list" where
  "decode64_table =
     replicate 43 (- 1) @ [62, - 1, - 1, - 1, 63, 52, 53, 54, 55, 56, 57, 58, 59, 60, 61] @
     replicate 7 (- 1) @ [0 .. 25] @ replicate 6 (- 1) @ [26 .. 51] @ replicate 133 (- 1)"

text \<open>\<open>if (str.size() >= 1 && str.back() == '=') str.remove_suffix(1)\<close>.\<close>

definition drop_pad :: "string \<Rightarrow> string" where
  "drop_pad str = (if 1 \<le> length str \<and> last str = CHR ''='' then butlast str else str)"

definition DecodeBase64 :: "string \<Rightarrow> nat list option" where
  "DecodeBase64 str =
     (if length str mod 4 \<noteq> 0 then None
      else
        let (valid, ret) =
          ConvertBits 6 8 False (\<lambda>c. decode64_table ! of_char c) (drop_pad (drop_pad str))
        in if valid then Some ret else None)"

section \<open>The alphabet\<close>

lemma decode64_table_nth:
  assumes "n < 256"
  shows "decode64_table ! n =
    (if n = 43 then 62 else if n = 47 then 63 else if 48 \<le> n \<and> n < 58 then int n + 4
     else if 65 \<le> n \<and> n < 91 then int n - 65 else if 97 \<le> n \<and> n < 123 then int n - 71
     else - 1)"
proof -
  define gap :: "int list" where "gap = [62, - 1, - 1, - 1, 63]"
  define ds :: "int list" where "ds = [52 .. 61]"
  define us :: "int list" where "us = [0 .. 25]"
  define ls :: "int list" where "ls = [26 .. 51]"
  have "[62, - 1, - 1, - 1, 63, 52, 53, 54, 55, 56, 57, 58, 59, 60, 61] = gap @ ds"
    by (simp add: gap_def ds_def)
  then have table: "decode64_table = replicate 43 (- 1) @ gap @ ds @ replicate 7 (- 1) @ us @
      replicate 6 (- 1) @ ls @ replicate 133 (- 1)"
    by (simp only: decode64_table_def us_def ls_def append_assoc)
  have len: "length gap = 5" "length ds = 10" "length us = 26" "length ls = 26"
    unfolding gap_def ds_def us_def ls_def by simp_all
  have range: "k < 10 \<Longrightarrow> ds ! k = 52 + int k" "k < 26 \<Longrightarrow> us ! k = int k"
    "k < 26 \<Longrightarrow> ls ! k = 26 + int k" for k
    unfolding ds_def us_def ls_def by (subst nth_upto; linarith)+
  have holes: "gap ! k = (if k < 1 then 62 else if k < 4 then - 1 else 63)" if "k < 5" for k
  proof -
    have "k = 0 \<or> k = 1 \<or> k = 2 \<or> k = 3 \<or> k = 4"
      using that by linarith
    then show ?thesis
      unfolding gap_def by (elim disjE) simp_all
  qed
  consider "n < 43" | "n = 43" | "43 < n" "n < 47" | "n = 47" | "48 \<le> n" "n < 58"
    | "58 \<le> n" "n < 65" | "65 \<le> n" "n < 91" | "91 \<le> n" "n < 97" | "97 \<le> n" "n < 123"
    | "123 \<le> n"
    using assms by linarith
  then show ?thesis
    unfolding table using assms by cases (simp_all add: nth_append len range holes less_diff_conv2)
qed

lemma pbase64_nth:
  assumes "v < 64"
  shows "of_char (pbase64 ! v) =
    (if v < 26 then v + 65 else if v < 52 then v + 71 else if v < 62 then v - 4
     else if v = 62 then 43 else (47::nat))"
proof -
  define us where "us = [65..<91]"
  define ls where "ls = [97..<123]"
  define ds where "ds = [48..<58]"
  have codes: "map of_char pbase64 = us @ ls @ ds @ [43, 47::nat]"
    by (simp add: us_def ls_def ds_def pbase64_def upt_rec)
  have len: "length us = 26" "length ls = 26" "length ds = 10"
    unfolding ds_def us_def ls_def by simp_all
  have range: "k < 10 \<Longrightarrow> ds ! k = 48 + k" "k < 26 \<Longrightarrow> us ! k = 65 + k"
    "k < 26 \<Longrightarrow> ls ! k = 97 + k" for k
    unfolding ds_def us_def ls_def by (subst nth_upt; linarith)+
  have "length pbase64 = 64"
    by (simp add: pbase64_def)
  then have "of_char (pbase64 ! v) = (map of_char pbase64 :: nat list) ! v"
    using assms by simp
  also have "\<dots> = (us @ ls @ ds @ [43, 47]) ! v"
    by (simp only: codes)
  also have "\<dots> = (if v < 26 then v + 65 else if v < 52 then v + 71 else if v < 62 then v - 4
     else if v = 62 then 43 else (47::nat))"
    using assms by (auto simp: nth_append nth_Cons' len range)
  finally show ?thesis .
qed

lemma encode_char:
  assumes "v < 64"
  shows "decode64_table ! of_char (pbase64 ! v) = int v" and "pbase64 ! v \<noteq> CHR ''=''"
proof -
  consider "v < 26" | "26 \<le> v" "v < 52" | "52 \<le> v" "v < 62" | "v = 62" | "v = 63"
    using assms by linarith
  then show "decode64_table ! of_char (pbase64 ! v) = int v"
    by cases (simp_all add: decode64_table_nth pbase64_nth, linarith?)
  have "(of_char (pbase64 ! v) :: nat) \<noteq> 61"
    using assms by (simp add: pbase64_nth) linarith
  then show "pbase64 ! v \<noteq> CHR ''=''"
    by auto
qed

lemma decode_char_bound: "decode64_table ! of_char c < 64"
  by (subst decode64_table_nth) auto

lemma decode_char_nat: "nat (decode64_table ! of_char c) < 64"
  using decode_char_bound [of c] by linarith

lemma decode_char:
  assumes "0 \<le> decode64_table ! of_char c"
  shows "pbase64 ! nat (decode64_table ! of_char c) = c"
proof -
  define n :: nat where "n = of_char c"
  have n: "n < 256" and d: "0 \<le> decode64_table ! n"
    using assms by (simp_all add: n_def)
  then consider "n = 43" | "n = 47" | "48 \<le> n" "n < 58" | "65 \<le> n" "n < 91" | "97 \<le> n" "n < 123"
    by (auto simp: decode64_table_nth split: if_splits)
  then have "of_char (pbase64 ! nat (decode64_table ! n)) = n"
    by cases (simp_all add: decode64_table_nth pbase64_nth nat_diff_distrib nat_add_distrib
        less_diff_conv2)
  then have "of_char (pbase64 ! nat (decode64_table ! of_char c)) = (of_char c :: nat)"
    by (simp add: n_def)
  then show ?thesis
    by (simp only: of_char_eq_iff)
qed

section \<open>Padding\<close>

lemma pad_quantum_replicate:
  "pad_quantum s = s @ replicate ((4 - length s mod 4) mod 4) (CHR ''='')"
proof (induction s rule: pad_quantum.induct)
  case (1 s)
  show ?case
    using 1 mod_4_cases [of "length s"] by (elim disjE) (simp_all add: pad_quantum.simps [of s] mod_Suc numeral_2_eq_2 numeral_3_eq_3)
qed

lemma pad_quantum_length: "length (pad_quantum s) mod 4 = 0"
proof (induction s rule: pad_quantum.induct)
  case (1 s)
  then show ?case
    by (simp add: pad_quantum.simps [of s])
qed

lemma quantum_pads:
  assumes "k \<le> 2" and "(n + k) mod 4 = (0::nat)"
  shows "k = (4 - n mod 4) mod 4"
proof -
  have "k = 0 \<or> k = 1 \<or> k = 2"
    using assms(1) by linarith
  moreover have "(n mod 4 + k) mod 4 = 0"
    using assms(2) by (simp add: mod_add_left_eq)
  ultimately show ?thesis
    using mod_4_cases [of n] by (elim disjE) simp_all
qed

lemma drop_pad_once [simp]: "drop_pad (s @ [CHR ''='']) = s"
  by (simp add: drop_pad_def)

lemma drop_pad_none: "s = [] \<or> last s \<noteq> CHR ''='' \<Longrightarrow> drop_pad s = s"
  by (auto simp: drop_pad_def)

lemma drop_pads_padded:
  assumes "k \<le> 2" and "s = [] \<or> last s \<noteq> CHR ''=''"
  shows "drop_pad (drop_pad (s @ replicate k (CHR ''=''))) = s"
proof -
  have "k = 0 \<or> k = 1 \<or> k = 2"
    using assms(1) by linarith
  then show ?thesis
    using drop_pad_none [OF assms(2)] drop_pad_once [of "s @ ''=''"]
    by (elim disjE) (simp_all add: numeral_2_eq_2)
qed

lemma drop_pads_split:
  obtains k where "k \<le> 2" and "s = drop_pad (drop_pad s) @ replicate k (CHR ''='')"
proof -
  have "\<exists>k \<le> 1. s = drop_pad s @ replicate k (CHR ''='')" for s
    by (cases s rule: rev_cases)
       (auto simp: drop_pad_def intro: exI [of _ "0::nat"] exI [of _ "1::nat"])
  then obtain i j where "i \<le> 1" "j \<le> 1" "s = drop_pad s @ replicate i (CHR ''='')"
    "drop_pad s = drop_pad (drop_pad s) @ replicate j (CHR ''='')"
    by meson
  then show thesis
    using that [of "j + i"] by (metis add_mono append.assoc one_add_one replicate_add)
qed

section \<open>Encoding and decoding\<close>

abbreviation bytes :: "nat list \<Rightarrow> bool" where
  "bytes bs \<equiv> digits 8 bs"

lemma EncodeBase64_sextets:
  assumes "bytes bs"
  obtains ys r where "EncodeBase64 bs = pad_quantum (map (\<lambda>v. pbase64 ! v) ys)" and "digits 6 ys"
    and "6 * length ys = 8 * length bs + r" and "r < 6"
    and "digit_value 6 ys = digit_value 8 bs * 2 ^ r"
proof -
  have "\<forall>b \<in> set bs. 0 \<le> int b \<and> int b < 2 ^ 8"
    using assms by (auto simp: digits_def)
  moreover have "map (nat \<circ> int) bs = bs"
    by (simp add: comp_def)
  ultimately show thesis
    using that by (elim ConvertBits_pad [of 6 bs int 8, rotated]) (simp_all add: EncodeBase64_def)
qed

text \<open>The sextets, with their length, determine the encoding.\<close>

lemma EncodeBase64_unique:
  assumes "bytes bs" and "digits 6 ys" and "6 * length ys = 8 * length bs + r" and "r < 6"
    and "digit_value 6 ys = digit_value 8 bs * 2 ^ r"
  shows "EncodeBase64 bs = pad_quantum (map (\<lambda>v. pbase64 ! v) ys)"
proof -
  obtain zs q where zs: "EncodeBase64 bs = pad_quantum (map (\<lambda>v. pbase64 ! v) zs)" "digits 6 zs"
    "6 * length zs = 8 * length bs + q" "q < 6" "digit_value 6 zs = digit_value 8 bs * 2 ^ q"
    using EncodeBase64_sextets [OF assms(1)] .
  have "length zs = length ys"
    using zs(3,4) assms(3,4) by linarith
  moreover from this have "q = r"
    using zs(3) assms(3) by linarith
  ultimately have "zs = ys"
    using digits_unique [OF zs(2) assms(2)] zs(5) assms(5) by metis
  with zs show ?thesis
    by simp
qed

lemma decode_sextets:
  "\<forall>c \<in> set s. 0 \<le> decode64_table ! of_char c \<Longrightarrow>
     map (\<lambda>v. pbase64 ! v) (map (nat \<circ> (\<lambda>c. decode64_table ! of_char c)) s) = s"
  by (simp add: map_idI decode_char)

lemma encode_sextets:
  "digits 6 ys \<Longrightarrow>
     map (nat \<circ> (\<lambda>c. decode64_table ! of_char c)) (map (\<lambda>v. pbase64 ! v) ys) = ys"
  by (simp add: map_idI encode_char digits_def)

lemma DecodeBase64_encodes:
  assumes "DecodeBase64 str = Some bs"
  shows "bytes bs \<and> EncodeBase64 bs = str"
proof -
  let ?s = "drop_pad (drop_pad str)" and ?d = "\<lambda>c. decode64_table ! of_char c"
  have quantum: "length str mod 4 = 0" and run: "ConvertBits 6 8 False ?d ?s = (True, bs)"
    using assms by (auto simp: DecodeBase64_def split: if_splits prod.splits)
  have "\<forall>c \<in> set ?s. ?d c < 2 ^ 6"
    using decode_char_bound by simp
  then obtain r where r: "\<forall>c \<in> set ?s. 0 \<le> ?d c" "bytes bs" "8 * length bs + r = 6 * length ?s"
    "r < 8" "r < 6" "digit_value 6 (map (nat \<circ> ?d) ?s) = digit_value 8 bs * 2 ^ r"
    by (elim ConvertBits_nopad [OF _ _ run, rotated]) simp_all
  have "digits 6 (map (nat \<circ> ?d) ?s)"
    by (simp add: digits_def decode_char_nat)
  then have "EncodeBase64 bs = pad_quantum ?s"
    using EncodeBase64_unique [OF r(2) _ _ r(5), of "map (nat \<circ> ?d) ?s"] r(3,6)
      decode_sextets [OF r(1)] by simp
  also have "\<dots> = str"
  proof -
    obtain k where k: "k \<le> 2" "str = ?s @ replicate k (CHR ''='')"
      using drop_pads_split .
    have "length str = length ?s + k"
      by (subst k(2)) simp
    with quantum have "(length ?s + k) mod 4 = 0"
      by simp
    with k(1) have "k = (4 - length ?s mod 4) mod 4"
      by (rule quantum_pads)
    with k(2) show ?thesis
      by (simp add: pad_quantum_replicate)
  qed
  finally show ?thesis
    using r(2) by simp
qed

lemma DecodeBase64_EncodeBase64:
  assumes "bytes bs"
  shows "DecodeBase64 (EncodeBase64 bs) = Some bs"
proof -
  let ?d = "\<lambda>c. decode64_table ! of_char c"
  obtain ys r where ys: "EncodeBase64 bs = pad_quantum (map (\<lambda>v. pbase64 ! v) ys)" "digits 6 ys"
    "6 * length ys = 8 * length bs + r" "r < 6" "digit_value 6 ys = digit_value 8 bs * 2 ^ r"
    using EncodeBase64_sextets [OF assms] .
  let ?s = "map (\<lambda>v. pbase64 ! v) ys" and ?k = "(4 - length ys mod 4) mod 4"
  have "length ys mod 4 \<noteq> 1"
  proof
    assume "length ys mod 4 = 1"
    then have "6 * length ys = 6 + 8 * (3 * (length ys div 4))"
      using mult_div_mod_eq [of 4 "length ys"] by linarith
    then have "6 * length ys mod 8 = 6"
      by (simp only: mod_mult_self2) simp
    moreover have "(8 * length bs + r) mod 8 = r"
      using ys(4) by simp
    ultimately show False
      using ys(3,4) by simp
  qed
  then have few: "?k \<le> 2"
    using mod_4_cases [of "length ys"] by auto
  have "?s = [] \<or> last ?s \<noteq> CHR ''=''"
    using ys(2) by (cases ys rule: rev_cases) (simp_all add: encode_char)
  then have strip: "drop_pad (drop_pad (EncodeBase64 bs)) = ?s"
    using drop_pads_padded [OF few] ys(1) by (simp add: pad_quantum_replicate)
  have quantum: "length (EncodeBase64 bs) mod 4 = 0"
    using ys(1) by (simp add: pad_quantum_length)
  have "\<forall>c \<in> set ?s. 0 \<le> ?d c \<and> ?d c < 2 ^ 6"
    using ys(2) decode_char_bound by (auto simp: digits_def encode_char)
  then have "ConvertBits 6 8 False ?d ?s = (True, bs)"
    using ys assms encode_sextets [OF ys(2)]
    by (intro ConvertBits_nopad_intro [where r = r]) simp_all
  with strip quantum show ?thesis
    by (simp add: DecodeBase64_def)
qed

section \<open>The contract of a codec\<close>

text \<open>What a client of an encoder and its decoder relies on: the decoder accepts exactly the
  encodings of valid data, so that no two texts mean the same data.\<close>

locale codec =
  fixes valid :: "'a \<Rightarrow> bool" and enc :: "'a \<Rightarrow> string" and dec :: "string \<Rightarrow> 'a option"
  assumes dec_iff: "dec s = Some x \<longleftrightarrow> valid x \<and> s = enc x"
begin

lemma dec_enc: "valid x \<Longrightarrow> dec (enc x) = Some x"
  by (simp add: dec_iff)

lemma enc_inject: "valid x \<Longrightarrow> valid y \<Longrightarrow> enc x = enc y \<Longrightarrow> x = y"
  by (metis dec_enc option.inject)

lemma canonical: "dec s = Some x \<Longrightarrow> dec t = Some x \<Longrightarrow> s = t"
  by (simp add: dec_iff)

end

interpretation b64: codec "digits 8" EncodeBase64 DecodeBase64
proof unfold_locales
  show "DecodeBase64 s = Some x \<longleftrightarrow> bytes x \<and> s = EncodeBase64 x" for s x
    using DecodeBase64_encodes [of s x] DecodeBase64_EncodeBase64 [of x] by auto
qed

section \<open>The backend's encoder\<close>

lemma base64_char_pbase64: "base64_char v = pbase64 ! v"
  by (simp add: base64_char_def base64_alphabet_def pbase64_def)

fun sextets :: "nat list \<Rightarrow> nat list" where
  "sextets [] = []"
| "sextets [a] = [a div 4, a mod 4 * 16]"
| "sextets [a, b] = [a div 4, a mod 4 * 16 + b div 16, b mod 16 * 4]"
| "sextets (a # b # c # rest) =
     [a div 4, a mod 4 * 16 + b div 16, b mod 16 * 4 + c div 64, c mod 64] @ sextets rest"

lemma pad_quantum_full: "pad_quantum ([a, b, c, d] @ s) = [a, b, c, d] @ pad_quantum s"
  by (simp add: pad_quantum_replicate)

lemma pad_quantum_partial:
  "pad_quantum [] = []" "pad_quantum [a, b] = [a, b, CHR ''='', CHR ''='']"
  "pad_quantum [a, b, c] = [a, b, c, CHR ''='']"
  by (simp_all add: pad_quantum_replicate numeral_2_eq_2)

lemma base64_encode_sextets:
  "base64_encode bs = pad_quantum (map (\<lambda>v. pbase64 ! v) (sextets bs))"
proof (induction bs rule: sextets.induct)
  case (4 a b c rest)
  then show ?case
    by (simp only: sextets.simps base64_encode.simps map_append list.map pad_quantum_full
        base64_char_pbase64)
qed (simp_all only: sextets.simps base64_encode.simps list.map pad_quantum_partial
      base64_char_pbase64)

lemma sextets_spec:
  "bytes bs \<Longrightarrow>
     \<exists>r < 6. digits 6 (sextets bs) \<and> 6 * length (sextets bs) = 8 * length bs + r \<and>
       digit_value 6 (sextets bs) = digit_value 8 bs * 2 ^ r"
proof (induction bs rule: sextets.induct)
  case (2 a)
  have "a div 4 * 4 + a mod 4 = a"
    by simp
  then have "a div 4 * 64 + a mod 4 * 16 = a * 16"
    by linarith
  with 2 show ?case
    by (intro exI [of _ 4]) (auto simp: digit_value_Cons)
next
  case (3 a b)
  have "b div 16 * 16 + b mod 16 = b" "a div 4 * 4 + a mod 4 = a"
    by simp_all
  then have "a div 4 * 4096 + (1024 * (a mod 4) + b div 16 * 64 + b mod 16 * 4) = 1024 * a + b * 4"
    by linarith
  moreover have "a mod 4 * 16 + b div 16 < 64"
    using 3 by (simp, linarith)
  ultimately show ?case
    using 3 by (intro exI [of _ 2]) (auto simp: digit_value_Cons algebra_simps)
next
  case (4 a b c rest)
  then obtain r where r: "r < 6" "digits 6 (sextets rest)"
    "6 * length (sextets rest) = 8 * length rest + r"
    "digit_value 6 (sextets rest) = digit_value 8 rest * 2 ^ r"
    by auto
  have "digit_value 6 [a div 4, a mod 4 * 16 + b div 16, b mod 16 * 4 + c div 64, c mod 64]
      = digit_value 8 [a, b, c]"
  proof -
    have "p * 262144 + ((q * 16 + u) * 4096 + ((v * 4 + x) * 64 + y))
        = (p * 4 + q) * 65536 + ((u * 16 + v) * 256 + (x * 64 + y))" for p q u v x y :: nat
      by (simp add: algebra_simps)
    from this [of "a div 4" "a mod 4" "b div 16" "b mod 16" "c div 64" "c mod 64"] show ?thesis
      by (simp only: div_mult_mod_eq) (simp add: digit_value_Cons)
  qed
  moreover have "a div 4 < 64" "a mod 4 * 16 + b div 16 < 64" "b mod 16 * 4 + c div 64 < 64"
    using 4(2) by (simp, linarith)+
  ultimately show ?case
    using 4(2) r
      digit_value_append [of 6 "[a div 4, a mod 4 * 16 + b div 16, b mod 16 * 4 + c div 64, c mod 64]"
        "sextets rest"] digit_value_append [of 8 "[a, b, c]" rest]
    by (intro exI [of _ r]) (auto simp: power_add algebra_simps)
qed simp

lemma base64_encode_EncodeBase64: "bytes bs \<Longrightarrow> base64_encode bs = EncodeBase64 bs"
  using sextets_spec [of bs] EncodeBase64_unique [of bs "sextets bs"]
  by (auto simp: base64_encode_sextets)

text \<open>C21: The node's decoder and the backend's encoder are inverse to each other: a text decodes to
  some data exactly when the data are bytes and the text is what \<open>Buffer.toString('base64')\<close> makes of
  them, which is also what the node's own encoder writes. Nothing else is accepted: no missing or
  surplus padding, no stray character, no bits behind the last byte.\<close>

theorem base64_canonical:
  "DecodeBase64 s = Some bs \<longleftrightarrow> bytes bs \<and> s = base64_encode bs \<and> s = EncodeBase64 bs"
  using b64.dec_iff base64_encode_EncodeBase64 by metis

end
