(* ===== verification/Node_Rpc.thy ===== *)
theory Node_Rpc
  imports Base64
begin

text \<open>
  The node's JSON-RPC server as the backend meets it: HTTP basic authentication and the request
  handler of \<open>src/httprpc.cpp\<close>, the request parser and the reply builder of
  \<open>src/rpc/request.cpp\<close>, and the dispatcher of \<open>src/rpc/server.cpp\<close>. The commands
  themselves, the conversion of named to positional arguments that belongs to each of them, and
  HMAC-SHA256 are fields of the node; the node's state is a type parameter that commands read and
  write. A C++ \<open>std::string\<close> is a HOL \<^typ>\<open>string\<close> of bytes. A request body is the JSON value
  the UniValue parser reads from it, or none if it reads none.
\<close>

section \<open>Exceptions and requests\<close>

text \<open>What is thrown: a \<open>JSONRPCError\<close> object with its code and message, the \<open>type_error\<close>
  of a UniValue, or another \<open>std::exception\<close>.\<close>

datatype rpc_exn = JSONRPCError int string | UniTypeError string | StdException string

definition RPC_INVALID_REQUEST :: int where "RPC_INVALID_REQUEST = - 32600"
definition RPC_METHOD_NOT_FOUND :: int where "RPC_METHOD_NOT_FOUND = - 32601"
definition RPC_PARSE_ERROR :: int where "RPC_PARSE_ERROR = - 32700"
definition RPC_MISC_ERROR :: int where "RPC_MISC_ERROR = - 1"
definition RPC_TYPE_ERROR :: int where "RPC_TYPE_ERROR = - 3"
definition RPC_IN_WARMUP :: int where "RPC_IN_WARMUP = - 28"

lemmas rpc_codes = RPC_INVALID_REQUEST_def RPC_METHOD_NOT_FOUND_def RPC_PARSE_ERROR_def
  RPC_MISC_ERROR_def RPC_TYPE_ERROR_def RPC_IN_WARMUP_def

definition error_object :: "int \<Rightarrow> string \<Rightarrow> jsval" where
  "error_object code message = JObj [(''code'', jint code), jstr_field ''message'' message]"

datatype JSONRPCVersion = V1_LEGACY | V2

record jsonrpc_request =
  jreq_id :: "jsval option"
  jreq_strMethod :: string
  jreq_params :: jsval
  jreq_URI :: string
  jreq_authUser :: string
  jreq_version :: JSONRPCVersion

text \<open>A default-constructed \<open>JSONRPCRequest\<close>.\<close>

definition new_request :: jsonrpc_request where
  "new_request = \<lparr>jreq_id = Some JNull, jreq_strMethod = [], jreq_params = JNull,
     jreq_URI = [], jreq_authUser = [], jreq_version = V1_LEGACY\<rparr>"

definition IsNotification :: "jsonrpc_request \<Rightarrow> bool" where
  "IsNotification jreq = (jreq_id jreq = None \<and> jreq_version jreq = V2)"

text \<open>\<open>UniValue::find_value\<close>: null for a key that is not there.\<close>

definition find_value :: "(string \<times> jsval) list \<Rightarrow> string \<Rightarrow> jsval" where
  "find_value kvs k = (case map_of kvs k of None \<Rightarrow> JNull | Some v \<Rightarrow> v)"

section \<open>Parsing a request\<close>

text \<open>The tail of \<open>JSONRPCRequest::parse\<close>: the method and the parameters. The object is filled in
  place, so what was assigned before an exception stays.\<close>

definition parse_call ::
  "(string \<times> jsval) list \<Rightarrow> jsonrpc_request \<Rightarrow> jsonrpc_request \<times> rpc_exn option" where
  "parse_call request jreq =
     (case find_value request ''method'' of
        JNull \<Rightarrow> (jreq, Some (JSONRPCError RPC_INVALID_REQUEST ''Missing method''))
      | JStr m \<Rightarrow>
          let jreq = jreq\<lparr>jreq_strMethod := m\<rparr> in
          (case find_value request ''params'' of
             JArr vs \<Rightarrow> (jreq\<lparr>jreq_params := JArr vs\<rparr>, None)
           | JObj kvs \<Rightarrow> (jreq\<lparr>jreq_params := JObj kvs\<rparr>, None)
           | JNull \<Rightarrow> (jreq\<lparr>jreq_params := JArr []\<rparr>, None)
           | _ \<Rightarrow> (jreq, Some (JSONRPCError RPC_INVALID_REQUEST ''Params must be an array or object'')))
      | _ \<Rightarrow> (jreq, Some (JSONRPCError RPC_INVALID_REQUEST ''Method must be a string'')))"

definition parse ::
  "jsval \<Rightarrow> jsonrpc_request \<Rightarrow> jsonrpc_request \<times> rpc_exn option" where
  "parse valRequest jreq =
     (case valRequest of
        JObj request \<Rightarrow>
          let jreq = jreq\<lparr>jreq_id := map_of request ''id'', jreq_version := V1_LEGACY\<rparr> in
          (case find_value request ''jsonrpc'' of
             JNull \<Rightarrow> parse_call request jreq
           | JStr v \<Rightarrow>
               if v = ''1.0'' then parse_call request jreq
               else if v = ''2.0'' then parse_call request (jreq\<lparr>jreq_version := V2\<rparr>)
               else (jreq, Some (JSONRPCError RPC_INVALID_REQUEST ''JSON-RPC version not supported''))
           | _ \<Rightarrow> (jreq, Some (JSONRPCError RPC_INVALID_REQUEST ''jsonrpc field must be a string'')))
      | _ \<Rightarrow> (jreq, Some (JSONRPCError RPC_INVALID_REQUEST ''Invalid Request object'')))"

definition JSONRPCReplyObj :: "jsval \<Rightarrow> jsval \<Rightarrow> jsval option \<Rightarrow> JSONRPCVersion \<Rightarrow> jsval" where
  "JSONRPCReplyObj result error rid version =
     JObj ((if version = V2 then [jstr_field ''jsonrpc'' ''2.0''] else []) @
       (if error = JNull
        then (''result'', result) # (if version = V1_LEGACY then [(''error'', JNull)] else [])
        else (if version = V1_LEGACY then [(''result'', JNull)] else []) @ [(''error'', error)]) @
       (case rid of None \<Rightarrow> [] | Some i \<Rightarrow> [(''id'', i)]))"

section \<open>The dispatcher\<close>

record 'st rpc_command =
  cmd_named :: "jsonrpc_request \<Rightarrow> rpc_exn + jsonrpc_request"
  cmd_actor :: "jsonrpc_request \<Rightarrow> bool \<Rightarrow> 'st \<Rightarrow> (rpc_exn + jsval option) \<times> 'st"

record 'st node =
  nd_rpcauth :: "(string \<times> string \<times> string) list"
  nd_whitelist :: "string \<Rightarrow> string list option"
  nd_whitelist_default :: bool
  nd_hmac_sha256 :: "string \<Rightarrow> string \<Rightarrow> nat list"
  nd_warmup :: "string option"
  nd_commands :: "string \<Rightarrow> 'st rpc_command list option"

text \<open>\<open>ExecuteCommand\<close>: \<^term>\<open>Inr None\<close> is the handler's \<open>false\<close>, by which it passes the
  request on to the next one.\<close>

definition ExecuteCommand ::
  "'st rpc_command \<Rightarrow> jsonrpc_request \<Rightarrow> bool \<Rightarrow> 'st \<Rightarrow> (rpc_exn + jsval option) \<times> 'st" where
  "ExecuteCommand command request last_handler st =
     (let (r, st') =
        (case jreq_params request of
           JObj _ \<Rightarrow>
             (case cmd_named command request of
                Inl e \<Rightarrow> (Inl e, st)
              | Inr request' \<Rightarrow> cmd_actor command request' last_handler st)
         | _ \<Rightarrow> cmd_actor command request last_handler st)
      in (case r of
            Inl (UniTypeError what) \<Rightarrow> Inl (JSONRPCError RPC_TYPE_ERROR what)
          | Inl (StdException what) \<Rightarrow> Inl (JSONRPCError RPC_MISC_ERROR what)
          | _ \<Rightarrow> r, st'))"

fun ExecuteCommands ::
  "'st rpc_command list \<Rightarrow> jsonrpc_request \<Rightarrow> 'st \<Rightarrow> (rpc_exn + jsval option) \<times> 'st" where
  "ExecuteCommands [] request st = (Inr None, st)"
| "ExecuteCommands (command # commands) request st =
     (case ExecuteCommand command request (commands = []) st of
        (Inr None, st') \<Rightarrow> ExecuteCommands commands request st'
      | r \<Rightarrow> r)"

definition execute :: "'st node \<Rightarrow> jsonrpc_request \<Rightarrow> 'st \<Rightarrow> (rpc_exn + jsval) \<times> 'st" where
  "execute nd request st =
     (case nd_warmup nd of
        Some status \<Rightarrow> (Inl (JSONRPCError RPC_IN_WARMUP status), st)
      | None \<Rightarrow>
     (case nd_commands nd (jreq_strMethod request) of
        None \<Rightarrow> (Inl (JSONRPCError RPC_METHOD_NOT_FOUND ''Method not found''), st)
      | Some commands \<Rightarrow>
     (case ExecuteCommands commands request st of
        (Inl e, st') \<Rightarrow> (Inl e, st')
      | (Inr (Some result), st') \<Rightarrow> (Inr result, st')
      | (Inr None, st') \<Rightarrow> (Inl (JSONRPCError RPC_METHOD_NOT_FOUND ''Method not found''), st'))))"

text \<open>The reply to a request that has thrown, when errors are caught.\<close>

fun exn_object :: "int \<Rightarrow> rpc_exn \<Rightarrow> jsval" where
  "exn_object code (JSONRPCError c m) = error_object c m"
| "exn_object code (UniTypeError what) = error_object code what"
| "exn_object code (StdException what) = error_object code what"

definition error_reply :: "int \<Rightarrow> jsonrpc_request \<Rightarrow> rpc_exn \<Rightarrow> jsval" where
  "error_reply code jreq e =
     JSONRPCReplyObj JNull (exn_object code e) (jreq_id jreq) (jreq_version jreq)"

definition JSONRPCExec ::
  "'st node \<Rightarrow> jsonrpc_request \<Rightarrow> bool \<Rightarrow> 'st \<Rightarrow> (rpc_exn + jsval) \<times> 'st" where
  "JSONRPCExec nd jreq catch_errors st =
     (case execute nd jreq st of
        (Inl e, st') \<Rightarrow>
          (if catch_errors then Inr (error_reply RPC_MISC_ERROR jreq e) else Inl e, st')
      | (Inr result, st') \<Rightarrow>
          (Inr (JSONRPCReplyObj result JNull (jreq_id jreq) (jreq_version jreq)), st'))"

section \<open>Authentication\<close>

text \<open>\<open>size_t accumulator\<close> collects the differences; a difference of two \<open>char\<close>s is zero exactly
  when the two are the same, whether the type is signed or not.\<close>

definition TimingResistantEqual :: "string \<Rightarrow> string \<Rightarrow> bool" where
  "TimingResistantEqual a b =
     (if length b = 0 then length a = 0
      else fold (\<lambda>i acc. acc OR (of_char (a ! i) XOR of_char (b ! (i mod length b))))
             [0..<length a] (length a XOR length b) = (0::nat))"

definition hexmap :: string where
  "hexmap = ''0123456789abcdef''"

definition HexStr :: "nat list \<Rightarrow> string" where
  "HexStr s = concat (map (\<lambda>v. [hexmap ! drop_bit 4 v, hexmap ! (v AND 15)]) s)"

text \<open>The loop over \<open>g_rpcauth\<close>, whose entries are a user name, a salt and a hash.\<close>

fun check_entries ::
  "(string \<Rightarrow> string \<Rightarrow> nat list) \<Rightarrow> string \<Rightarrow> string \<Rightarrow> (string \<times> string \<times> string) list \<Rightarrow> bool" where
  "check_entries hmac user pass [] = False"
| "check_entries hmac user pass ((name, salt, hash) # entries) =
     (if \<not> TimingResistantEqual name user then check_entries hmac user pass entries
      else if TimingResistantEqual (HexStr (hmac salt pass)) hash then True
      else check_entries hmac user pass entries)"

definition CheckUserAuthorized :: "'st node \<Rightarrow> string \<Rightarrow> string \<Rightarrow> bool" where
  "CheckUserAuthorized nd user pass = check_entries (nd_hmac_sha256 nd) user pass (nd_rpcauth nd)"

definition trim_pattern :: string where
  "trim_pattern = map char_of [32, 12, 10, 13, 9, 11 :: nat]"

text \<open>From the first to the last character that is not in the pattern.\<close>

definition TrimStringView :: "string \<Rightarrow> string" where
  "TrimStringView str =
     rev (dropWhile (\<lambda>c. c \<in> set trim_pattern)
       (rev (dropWhile (\<lambda>c. c \<in> set trim_pattern) str)))"

text \<open>With the result comes \<open>strAuthUsernameOut\<close>, which is only assigned once a user name has been
  read.\<close>

definition RPCAuthorized :: "'st node \<Rightarrow> string \<Rightarrow> string \<Rightarrow> bool \<times> string" where
  "RPCAuthorized nd strAuth username =
     (if take 6 strAuth \<noteq> ''Basic '' then (False, username)
      else
        case DecodeBase64 (TrimStringView (drop 6 strAuth)) of
          None \<Rightarrow> (False, username)
        | Some data \<Rightarrow>
            let strUserPass = map char_of data;
                user = takeWhile (\<lambda>c. c \<noteq> CHR '':'') strUserPass
            in if CHR '':'' \<notin> set strUserPass then (False, username)
               else (CheckUserAuthorized nd user (drop (length user + 1) strUserPass), user))"

section \<open>The HTTP handler\<close>

datatype reply_body = NoBody | TextBody string | JsonBody jsval

record node_reply =
  nr_status :: nat
  nr_body :: reply_body

record node_http =
  nh_method :: http_method
  nh_authorization :: "string option"
  nh_URI :: string
  nh_body :: "jsval option"

definition WriteReply :: "nat \<Rightarrow> reply_body \<Rightarrow> node_reply" where
  "WriteReply status body = \<lparr>nr_status = status, nr_body = body\<rparr>"

fun exn_code :: "int \<Rightarrow> rpc_exn \<Rightarrow> int" where
  "exn_code code (JSONRPCError c m) = c"
| "exn_code code _ = code"

definition JSONErrorReply :: "jsonrpc_request \<Rightarrow> rpc_exn \<Rightarrow> node_reply" where
  "JSONErrorReply jreq e =
     (let code = exn_code RPC_PARSE_ERROR e in
      WriteReply
        (if code = RPC_INVALID_REQUEST then 400 else if code = RPC_METHOD_NOT_FOUND then 404 else 500)
        (JsonBody (error_reply RPC_PARSE_ERROR jreq e)))"

text \<open>\<open>g_rpc_whitelist[jreq.authUser].count(m)\<close>, for a user that has a whitelist.\<close>

definition user_may_call :: "'st node \<Rightarrow> string \<Rightarrow> string \<Rightarrow> bool" where
  "user_may_call nd user m =
     (case nd_whitelist nd user of None \<Rightarrow> True | Some ms \<Rightarrow> m \<in> set ms)"

definition serve_single ::
  "'st node \<Rightarrow> jsonrpc_request \<Rightarrow> jsval \<Rightarrow> 'st \<Rightarrow> node_reply \<times> 'st" where
  "serve_single nd jreq valRequest st =
     (case parse valRequest jreq of
        (jreq, Some e) \<Rightarrow> (JSONErrorReply jreq e, st)
      | (jreq, None) \<Rightarrow>
          if \<not> user_may_call nd (jreq_authUser jreq) (jreq_strMethod jreq)
          then (WriteReply 403 NoBody, st)
          else
            (case JSONRPCExec nd jreq (jreq_version jreq = V2) st of
               (Inl e, st') \<Rightarrow> (JSONErrorReply jreq e, st')
             | (Inr reply, st') \<Rightarrow>
                 if IsNotification jreq then (WriteReply 204 NoBody, st')
                 else (WriteReply 200 (JsonBody reply), st')))"

fun uvTypeName :: "jsval \<Rightarrow> string" where
  "uvTypeName (JBool _) = ''bool''"
| "uvTypeName (JObj _) = ''object''"
| "uvTypeName (JArr _) = ''array''"
| "uvTypeName (JStr _) = ''string''"
| "uvTypeName (JNum _) = ''number''"
| "uvTypeName _ = ''null''"

definition get_str :: "jsval \<Rightarrow> rpc_exn + string" where
  "get_str v =
     (case v of
        JStr s \<Rightarrow> Inr s
      | _ \<Rightarrow> Inl (UniTypeError
          (''JSON value of type '' @ uvTypeName v @ '' is not of expected type string'')))"

text \<open>The check of a batch against the user's whitelist: whether every method is on it.\<close>

fun batch_allowed :: "'st node \<Rightarrow> string \<Rightarrow> jsval list \<Rightarrow> rpc_exn + bool" where
  "batch_allowed nd user [] = Inr True"
| "batch_allowed nd user (v # vs) =
     (case v of
        JObj request \<Rightarrow>
          (case get_str (find_value request ''method'') of
             Inl e \<Rightarrow> Inl e
           | Inr m \<Rightarrow> if user_may_call nd user m then batch_allowed nd user vs else Inr False)
      | _ \<Rightarrow> Inl (JSONRPCError RPC_INVALID_REQUEST ''Invalid Request object''))"

text \<open>The requests of a batch run one after the other on the same \<open>jreq\<close>.\<close>

fun batch_run ::
  "'st node \<Rightarrow> jsonrpc_request \<Rightarrow> jsval list \<Rightarrow> 'st \<Rightarrow> jsval list \<times> 'st" where
  "batch_run nd jreq [] st = ([], st)"
| "batch_run nd jreq (v # vs) st =
     (case parse v jreq of
        (jreq', exn) \<Rightarrow>
          let (response, st') =
            (case exn of
               Some e \<Rightarrow> (error_reply RPC_PARSE_ERROR jreq' e, st)
             | None \<Rightarrow>
                 (case JSONRPCExec nd jreq' True st of
                    (Inl e, st') \<Rightarrow> (error_reply RPC_PARSE_ERROR jreq' e, st')
                  | (Inr reply, st') \<Rightarrow> (reply, st')));
              (replies, st'') = batch_run nd jreq' vs st'
          in (if IsNotification jreq' then replies else response # replies, st''))"

definition serve_batch ::
  "'st node \<Rightarrow> jsonrpc_request \<Rightarrow> jsval list \<Rightarrow> 'st \<Rightarrow> node_reply \<times> 'st" where
  "serve_batch nd jreq vs st =
     (case (if nd_whitelist nd (jreq_authUser jreq) = None then Inr True
            else batch_allowed nd (jreq_authUser jreq) vs) of
        Inl e \<Rightarrow> (JSONErrorReply jreq e, st)
      | Inr False \<Rightarrow> (WriteReply 403 NoBody, st)
      | Inr True \<Rightarrow>
          let (replies, st') = batch_run nd jreq vs st in
          if replies = [] \<and> vs \<noteq> [] then (WriteReply 204 NoBody, st')
          else (WriteReply 200 (JsonBody (JArr replies)), st'))"

definition HTTPReq_JSONRPC :: "'st node \<Rightarrow> node_http \<Rightarrow> 'st \<Rightarrow> node_reply \<times> 'st" where
  "HTTPReq_JSONRPC nd req st =
     (if nh_method req \<noteq> POST
      then (WriteReply 405 (TextBody ''JSONRPC server handles only POST requests''), st)
      else
     (case nh_authorization req of
        None \<Rightarrow> (WriteReply 401 NoBody, st)
      | Some authHeader \<Rightarrow>
     (case RPCAuthorized nd authHeader [] of
        (False, _) \<Rightarrow> (WriteReply 401 NoBody, st)
      | (True, user) \<Rightarrow>
          let jreq = new_request\<lparr>jreq_authUser := user\<rparr> in
     (case nh_body req of
        None \<Rightarrow> (JSONErrorReply jreq (JSONRPCError RPC_PARSE_ERROR ''Parse error''), st)
      | Some valRequest \<Rightarrow>
          let jreq = jreq\<lparr>jreq_URI := nh_URI req\<rparr> in
          if nd_whitelist nd user = None \<and> nd_whitelist_default nd then (WriteReply 403 NoBody, st)
          else
     (case valRequest of
        JObj _ \<Rightarrow> serve_single nd jreq valRequest st
      | JArr vs \<Rightarrow> serve_batch nd jreq vs st
      | _ \<Rightarrow> (JSONErrorReply jreq (JSONRPCError RPC_PARSE_ERROR ''Top-level object parse error''), st)
     )))))"

section \<open>Starting the server\<close>

text \<open>The command-line and configuration arguments \<open>InitRPCAuthentication\<close> reads. The cookie file
  is written by other code: what comes back is an error (as for permissions that cannot be read), or
  that cookies are switched off, or the generated credentials.\<close>

record node_args =
  arg_rpcuser :: string
  arg_rpcpassword :: string
  arg_rpcauth :: "string list"
  arg_rpcwhitelist :: "string list"
  arg_rpcwhitelistdefault :: "bool option"

datatype cookie_result = COOKIE_ERR | COOKIE_DISABLED | COOKIE_OK string string

fun split_loop :: "string \<Rightarrow> string \<Rightarrow> string \<Rightarrow> string list" where
  "split_loop separators token [] = [token]"
| "split_loop separators token (c # s) =
     (if c \<in> set separators then token # split_loop separators [] s
      else split_loop separators (token @ [c]) s)"

definition SplitString :: "string \<Rightarrow> string \<Rightarrow> string list" where
  "SplitString str separators = split_loop separators [] str"

definition plain_credential :: "node_args \<Rightarrow> cookie_result \<Rightarrow> (string \<times> string) option" where
  "plain_credential args cookie =
     (if arg_rpcpassword args = []
      then (case cookie of
              COOKIE_ERR \<Rightarrow> None
            | COOKIE_DISABLED \<Rightarrow> Some ([], [])
            | COOKIE_OK user pass \<Rightarrow> Some (user, pass))
      else Some (arg_rpcuser args, arg_rpcpassword args))"

text \<open>One \<open>-rpcauth\<close> argument, \<open>user:salt$hash\<close>.\<close>

definition parse_rpcauth :: "string \<Rightarrow> (string \<times> string \<times> string) option" where
  "parse_rpcauth rpcauth =
     (let fields = SplitString rpcauth '':''; salt_hmac = SplitString (last fields) ''$''
      in if length fields = 2 \<and> length salt_hmac = 2
         then Some (fields ! 0, salt_hmac ! 0, salt_hmac ! 1) else None)"

fun parse_rpcauths :: "string list \<Rightarrow> (string \<times> string \<times> string) list option" where
  "parse_rpcauths [] = Some []"
| "parse_rpcauths (a # as) =
     (case parse_rpcauth a of
        None \<Rightarrow> None
      | Some e \<Rightarrow> (case parse_rpcauths as of None \<Rightarrow> None | Some es \<Rightarrow> Some (e # es)))"

text \<open>One \<open>-rpcwhitelist\<close> argument, \<open>user:method,method\<close>: a second one for the same user leaves
  the methods both name.\<close>

definition add_whitelist ::
  "(string \<Rightarrow> string list option) \<Rightarrow> string \<Rightarrow> string \<Rightarrow> string list option" where
  "add_whitelist whitelist arg =
     (let user = takeWhile (\<lambda>c. c \<noteq> CHR '':'') arg in
      if CHR '':'' \<notin> set arg
      then whitelist(user \<mapsto> (case whitelist user of None \<Rightarrow> [] | Some ms \<Rightarrow> ms))
      else
        let methods = SplitString (drop (length user + 1) arg) '', ''
        in whitelist(user \<mapsto>
             (case whitelist user of None \<Rightarrow> methods | Some ms \<Rightarrow> filter (\<lambda>m. m \<in> set ms) methods)))"

definition InitRPCAuthentication ::
  "node_args \<Rightarrow> cookie_result \<Rightarrow> nat list \<Rightarrow> 'st node \<Rightarrow> 'st node option" where
  "InitRPCAuthentication args cookie raw_salt nd =
     (case plain_credential args cookie of
        None \<Rightarrow> None
      | Some (user, pass) \<Rightarrow>
          let salt = HexStr raw_salt;
              plain = (if user \<noteq> [] \<or> pass \<noteq> []
                       then [(user, salt, HexStr (nd_hmac_sha256 nd salt pass))] else [])
          in (case parse_rpcauths (arg_rpcauth args) of
                None \<Rightarrow> None
              | Some entries \<Rightarrow>
                  Some (nd\<lparr>nd_rpcauth := nd_rpcauth nd @ plain @ entries,
                    nd_whitelist_default :=
                      (case arg_rpcwhitelistdefault args of
                         None \<Rightarrow> arg_rpcwhitelist args \<noteq> [] | Some b \<Rightarrow> b),
                    nd_whitelist :=
                      fold (\<lambda>arg whitelist. add_whitelist whitelist arg) (arg_rpcwhitelist args)
                        (nd_whitelist nd)\<rparr>)))"

lemmas node_defs = HTTPReq_JSONRPC_def serve_single_def serve_batch_def JSONRPCExec_def
  JSONErrorReply_def WriteReply_def

section \<open>Comparing and trimming\<close>

lemma fold_or_zero:
  "fold (\<lambda>i acc. acc OR f i) xs a = (0::nat) \<longleftrightarrow> a = 0 \<and> (\<forall>i \<in> set xs. f i = 0)"
  by (induction xs arbitrary: a) (auto simp: or_eq_0_iff)

lemma xor_zero: "(a::nat) XOR b = 0 \<longleftrightarrow> a = b"
  by (metis xor_self_eq xor.assoc xor.left_neutral xor.right_neutral)

text \<open>The constant-time comparison decides equality.\<close>

lemma TimingResistantEqual_iff [simp]: "TimingResistantEqual a b \<longleftrightarrow> a = b"
proof (cases "b = []")
  case False
  have "TimingResistantEqual a b \<longleftrightarrow>
      length a = length b \<and> (\<forall>i < length a. a ! i = b ! (i mod length b))"
    using False by (auto simp: TimingResistantEqual_def fold_or_zero xor_zero)
  also have "\<dots> \<longleftrightarrow> a = b"
    by (auto simp: list_eq_iff_nth_eq)
  finally show ?thesis .
qed (simp add: TimingResistantEqual_def)

lemma CheckUserAuthorized_iff:
  "CheckUserAuthorized nd user pass \<longleftrightarrow>
     (\<exists>salt. (user, salt, HexStr (nd_hmac_sha256 nd salt pass)) \<in> set (nd_rpcauth nd))"
proof -
  have "check_entries hmac user pass es \<longleftrightarrow> (\<exists>salt. (user, salt, HexStr (hmac salt pass)) \<in> set es)"
    for hmac es
    by (induction hmac user pass es rule: check_entries.induct) auto
  then show ?thesis
    by (simp add: CheckUserAuthorized_def)
qed

lemma TrimStringView_id: "set s \<inter> set trim_pattern = {} \<Longrightarrow> TrimStringView s = s"
proof -
  assume "set s \<inter> set trim_pattern = {}"
  then have "dropWhile (\<lambda>c. c \<in> set trim_pattern) s = s"
    and "dropWhile (\<lambda>c. c \<in> set trim_pattern) (rev s) = rev s"
    by (auto simp: dropWhile_eq_self_iff neq_Nil_conv dest: hd_in_set last_in_set simp: hd_rev)
  then show ?thesis
    by (simp add: TrimStringView_def)
qed

section \<open>Credentials in UTF-8\<close>

text \<open>The bytes of a JavaScript string as a C++ string.\<close>

definition utf8_string :: "string \<Rightarrow> string" where
  "utf8_string s = map char_of (utf8 s)"

lemma utf8_bytes: "bytes (utf8 s)"
proof -
  have "bytes (utf8_char c)" for c
  proof -
    define n :: nat where "n = of_char c"
    have "n < 256"
      by (simp add: n_def)
    then have "n div 64 < 4"
      by (simp add: less_mult_imp_div_less)
    moreover have "n mod 64 < 128"
      using mod_less_divisor [of 64 n] by linarith
    ultimately show ?thesis
      by (simp add: utf8_char_def Let_def flip: n_def)
  qed
  then show ?thesis
    by (induction s) (simp_all add: utf8_def)
qed

lemma colon_utf8_char: "58 \<in> set (utf8_char c) \<longleftrightarrow> c = CHR '':''"
proof -
  have "c = CHR '':'' \<longleftrightarrow> of_char c = (58::nat)"
    using of_char_eq_iff [of c "CHR '':''", where 'a = nat] by simp
  then show ?thesis
    by (auto simp: utf8_char_def Let_def)
qed

lemma colon_utf8: "58 \<in> set (utf8 s) \<longleftrightarrow> CHR '':'' \<in> set s"
  by (induction s) (auto simp: utf8_def colon_utf8_char)

lemma utf8_append: "utf8 (s @ t) = utf8 s @ utf8 t"
  by (simp add: utf8_def)

lemma char_of_colon: "bytes bs \<Longrightarrow> CHR '':'' \<in> char_of ` set bs \<longleftrightarrow> 58 \<in> set bs"
proof -
  assume "bytes bs"
  then have "char_of b = CHR '':'' \<longleftrightarrow> b = 58" if "b \<in> set bs" for b
    using that by (simp add: digits_def char_of_eq_iff take_bit_nat_eq_self)
  then show ?thesis
    by (auto simp: image_iff) (metis)+
qed

lemma colon_utf8_string: "CHR '':'' \<in> set (utf8_string s) \<longleftrightarrow> CHR '':'' \<in> set s"
  using char_of_colon [OF utf8_bytes, of s] by (simp add: utf8_string_def colon_utf8)

lemma utf8_string_colon: "map char_of (utf8 (s @ '':'' @ t)) = utf8_string s @ '':'' @ utf8_string t"
  by (simp only: utf8_string_def utf8_append map_append) (simp add: utf8_def utf8_char_def char_of_eq_iff)

section \<open>The header the backend sends\<close>

lemma pbase64_set: "v < 64 \<Longrightarrow> pbase64 ! v \<in> set pbase64"
proof (rule nth_mem)
  have "length pbase64 = 64"
    by (simp add: pbase64_def)
  then show "v < 64 \<Longrightarrow> v < length pbase64"
    by simp
qed

lemma EncodeBase64_no_space: "bytes bs \<Longrightarrow> set (EncodeBase64 bs) \<inter> set trim_pattern = {}"
proof -
  assume "bytes bs"
  then obtain ys where ys: "EncodeBase64 bs = pad_quantum (map (\<lambda>v. pbase64 ! v) ys)" "digits 6 ys"
    by (elim EncodeBase64_sextets)
  then have "set (EncodeBase64 bs) \<subseteq> set pbase64 \<union> {CHR ''=''}"
    by (auto simp: pad_quantum_replicate digits_def intro!: pbase64_set)
  moreover have "(set pbase64 \<union> {CHR ''=''}) \<inter> set trim_pattern = {}"
    by (simp add: pbase64_def trim_pattern_def char_of_def)
  ultimately show ?thesis
    by blast
qed

lemma RPCAuthorized_basic_auth:
  assumes "CHR '':'' \<notin> set (rpc_user rc)"
  shows "RPCAuthorized nd (basic_auth rc) username =
    (CheckUserAuthorized nd (utf8_string (rpc_user rc)) (utf8_string (rpc_pass rc)),
     utf8_string (rpc_user rc))"
proof -
  let ?bs = "utf8 (rpc_user rc @ '':'' @ rpc_pass rc)" and ?u = "utf8_string (rpc_user rc)"
  note data = utf8_string_colon [of "rpc_user rc" "rpc_pass rc"]
  have "takeWhile (\<lambda>c. c \<noteq> CHR '':'') (map char_of ?bs) = ?u"
    unfolding data using assms by (subst takeWhile_append2) (auto simp: colon_utf8_string)
  moreover have "DecodeBase64 (TrimStringView (base64_encode ?bs)) = Some ?bs"
    using TrimStringView_id [OF EncodeBase64_no_space [OF utf8_bytes]]
    by (simp only: base64_encode_EncodeBase64 utf8_bytes b64.dec_enc)
  moreover have "take 6 (basic_auth rc) = ''Basic ''" "drop 6 (basic_auth rc) = base64_encode ?bs"
    by (simp_all add: basic_auth_def)
  ultimately show ?thesis
    unfolding RPCAuthorized_def by (simp only: option.case Let_def data) simp
qed

section \<open>Who gets in\<close>

text \<open>A node started with a user name and a password lets in whoever presents them, and, when it
  has no other credentials, nobody whose password has another HMAC.\<close>

lemma started_node_authorizes:
  assumes "InitRPCAuthentication args cookie raw_salt nd = Some nd'" and "arg_rpcpassword args \<noteq> []"
  shows "CheckUserAuthorized nd' (arg_rpcuser args) (arg_rpcpassword args)"
  using assms
  by (fastforce simp: InitRPCAuthentication_def plain_credential_def CheckUserAuthorized_iff Let_def
      split: option.splits if_splits)

lemma started_node_authorizes_only:
  assumes "InitRPCAuthentication args cookie raw_salt nd = Some nd'" and "arg_rpcpassword args \<noteq> []"
    and "nd_rpcauth nd = []" and "arg_rpcauth args = []"
    and "CheckUserAuthorized nd' user pass"
  shows "user = arg_rpcuser args \<and>
    HexStr (nd_hmac_sha256 nd (HexStr raw_salt) pass) =
    HexStr (nd_hmac_sha256 nd (HexStr raw_salt) (arg_rpcpassword args))"
  using assms
  by (auto simp: InitRPCAuthentication_def plain_credential_def CheckUserAuthorized_iff Let_def
      split: option.splits if_splits)

end
