(* ===== verification/Node_Link.thy ===== *)
theory Node_Link
  imports Node_Rpc App_Safety Reference_Env
begin

text \<open>
  The backend on one side of the connection and the node on the other: what the proxy answers when
  its calls reach the JSON-RPC server of \<open>Node_Rpc\<close>, which commands of the node the web can
  reach at all, and how the server treats batches and the two protocol versions.
\<close>

section \<open>The connection\<close>

text \<open>A \<open>fetch\<close> as the node's HTTP server sees it, under the path of its URL; and the reply as
  \<open>fetch\<close> gives it back, where \<open>response.json()\<close> rejects a body that is not JSON.\<close>

definition deliver :: "string \<Rightarrow> fetch_request \<Rightarrow> node_http" where
  "deliver uri f =
     \<lparr>nh_method = (if fetch_method f = ''POST'' then POST else GET),
      nh_authorization = map_of (fetch_headers f) ''Authorization'',
      nh_URI = uri,
      nh_body = Some (fetch_body f)\<rparr>"

fun node_answer :: "node_reply \<Rightarrow> fetch_result" where
  "node_answer r =
     FetchResponse (nr_status r)
       (case nr_body r of JsonBody v \<Rightarrow> Inr (json_wire v) | _ \<Rightarrow> Inl SyntaxError)"

definition node_net :: "'st node \<Rightarrow> string \<Rightarrow> 'st \<Rightarrow> network" where
  "node_net nd uri st f = node_answer (fst (HTTPReq_JSONRPC nd (deliver uri f) st))"

abbreviation node_user :: "config \<Rightarrow> string" where
  "node_user cfg \<equiv> utf8_string (rpc_user (cfg_hyliumRpc cfg))"

abbreviation node_pass :: "config \<Rightarrow> string" where
  "node_pass cfg \<equiv> utf8_string (rpc_pass (cfg_hyliumRpc cfg))"

text \<open>The request the node's dispatcher gets for a call of the backend.\<close>

definition backend_call :: "config \<Rightarrow> string \<Rightarrow> string \<Rightarrow> jsval list \<Rightarrow> jsonrpc_request" where
  "backend_call cfg uri m vs =
     \<lparr>jreq_id = Some (JStr ''hylium-web''), jreq_strMethod = m, jreq_params = json_wire (JArr vs),
      jreq_URI = uri, jreq_authUser = node_user cfg, jreq_version = V1_LEGACY\<rparr>"

lemma deliver_rpc_request:
  "deliver uri (rpc_request cfg m (JArr vs)) =
     \<lparr>nh_method = POST, nh_authorization = Some (basic_auth (cfg_hyliumRpc cfg)), nh_URI = uri,
      nh_body = Some (JObj [jstr_field ''jsonrpc'' ''1.0'', jstr_field ''id'' ''hylium-web'',
        jstr_field ''method'' m, (''params'', json_wire (JArr vs))])\<rparr>"
  by (simp add: deliver_def rpc_request_def)

lemma parse_backend_call:
  "parse (JObj [jstr_field ''jsonrpc'' ''1.0'', jstr_field ''id'' ''hylium-web'',
       jstr_field ''method'' m, (''params'', json_wire (JArr vs))])
     (new_request\<lparr>jreq_authUser := node_user cfg, jreq_URI := uri\<rparr>)
   = (backend_call cfg uri m vs, None)"
  by (simp add: parse_def parse_call_def find_value_def backend_call_def new_request_def Let_def)

text \<open>The node lets the backend's user in and lets it call a method.\<close>

definition admits :: "config \<Rightarrow> 'st node \<Rightarrow> string \<Rightarrow> bool" where
  "admits cfg nd m \<longleftrightarrow>
     CheckUserAuthorized nd (node_user cfg) (node_pass cfg) \<and> user_may_call nd (node_user cfg) m \<and>
     (nd_whitelist nd (node_user cfg) = None \<longrightarrow> \<not> nd_whitelist_default nd)"

text \<open>The node's answer to a call it admits, by the outcome of the command.\<close>

definition call_reply :: "config \<Rightarrow> string \<Rightarrow> string \<Rightarrow> jsval list \<Rightarrow> rpc_exn + jsval \<Rightarrow> node_reply" where
  "call_reply cfg uri m vs r =
     (case r of
        Inr v \<Rightarrow> WriteReply 200 (JsonBody
          (JObj [(''result'', v), (''error'', JNull), jstr_field ''id'' ''hylium-web'']))
      | Inl e \<Rightarrow> JSONErrorReply (backend_call cfg uri m vs) e)"

lemma node_serves_call:
  assumes "CHR '':'' \<notin> set (rpc_user (cfg_hyliumRpc cfg))" and "admits cfg nd m"
  shows "HTTPReq_JSONRPC nd (deliver uri (rpc_request cfg m (JArr vs))) st =
    (case execute nd (backend_call cfg uri m vs) st of
       (r, st') \<Rightarrow> (call_reply cfg uri m vs r, st'))"
proof -
  have call: "jreq_version (backend_call cfg uri m vs) = V1_LEGACY"
    "jreq_authUser (backend_call cfg uri m vs) = node_user cfg"
    "jreq_strMethod (backend_call cfg uri m vs) = m"
    "jreq_id (backend_call cfg uri m vs) = Some (JStr ''hylium-web'')"
    by (simp_all add: backend_call_def)
  show ?thesis
    using assms(2)
    unfolding deliver_rpc_request HTTPReq_JSONRPC_def
    by (auto simp: RPCAuthorized_basic_auth [OF assms(1)] admits_def serve_single_def Let_def
        parse_backend_call call JSONRPCExec_def IsNotification_def call_reply_def JSONRPCReplyObj_def
        simp del: json_wire.simps split: prod.splits sum.splits)
qed

lemma node_rejects_call:
  assumes "CHR '':'' \<notin> set (rpc_user (cfg_hyliumRpc cfg))"
    and "\<not> CheckUserAuthorized nd (node_user cfg) (node_pass cfg)"
  shows "HTTPReq_JSONRPC nd (deliver uri (rpc_request cfg m (JArr vs))) st = (WriteReply 401 NoBody, st)"
  using assms(2) unfolding deliver_rpc_request HTTPReq_JSONRPC_def
  by (simp add: RPCAuthorized_basic_auth [OF assms(1)])

section \<open>The proxy in front of a running node\<close>

text \<open>A node that has been started with the backend's credentials and no whitelist.\<close>

definition started_for :: "config \<Rightarrow> node_args \<Rightarrow> 'st node \<Rightarrow> bool" where
  "started_for cfg args nd \<longleftrightarrow>
     arg_rpcuser args = node_user cfg \<and> arg_rpcpassword args = node_pass cfg \<and>
     arg_rpcwhitelist args = [] \<and> arg_rpcwhitelistdefault args = None \<and>
     nd_whitelist nd = (\<lambda>_. None)"

lemma started_node_admits:
  assumes "InitRPCAuthentication args cookie raw_salt nd0 = Some nd" and "started_for cfg args nd0"
    and "node_pass cfg \<noteq> []"
  shows "admits cfg nd m"
proof -
  have "CheckUserAuthorized nd (node_user cfg) (node_pass cfg)"
    using started_node_authorizes [OF assms(1)] assms(2,3) by (simp add: started_for_def)
  moreover have "nd_whitelist nd = (\<lambda>_. None)" "\<not> nd_whitelist_default nd"
    using assms(1,2)
    by (auto simp: InitRPCAuthentication_def started_for_def Let_def split: option.splits prod.splits)
  ultimately show ?thesis
    by (simp add: admits_def user_may_call_def)
qed

lemma rpc_handler_call:
  assumes "js_get (req_body req) ''method'' = Inr (JStr m)"
    and "js_get (req_body req) ''params'' = Inr (JArr vs)" and "to_lower m \<in> set ALLOWED_METHODS"
  shows "rpc_handler cfg net req =
    (case net (rpc_request cfg m (JArr vs)) of
       FetchResponse _ (Inr v) \<Rightarrow> res_json 200 v | _ \<Rightarrow> rpc_failed, [rpc_request cfg m (JArr vs)])"
  using assms
  by (auto simp: rpc_handler_def callRpc_def default_params_def split: fetch_result.splits sum.splits)

lemma res_json_wire [simp]: "res_json n (json_wire v) = res_json n v"
  by (simp add: res_json_def json_wire_idem)


definition web_config :: config where
  "web_config = load_config (\<lambda>k. if k = ''HYLIUM_RPC_USER'' then Some ''web''
     else if k = ''HYLIUM_RPC_PASS'' then Some ''pw'' else None)"

text \<open>A node with a counter: one command reads it, one that is not for the web sets it back.\<close>

definition counter_node :: "nat node" where
  "counter_node =
     \<lparr>nd_rpcauth = [], nd_whitelist = \<lambda>_. None, nd_whitelist_default = False,
      nd_hmac_sha256 = \<lambda>salt pass. map of_char pass, nd_warmup = None,
      nd_commands = (\<lambda>_. None)
        (''getblockcount'' \<mapsto>
           [\<lparr>cmd_named = Inr, cmd_actor = \<lambda>r l n. (Inr (Some (jint (int n))), n)\<rparr>],
         ''stop'' \<mapsto> [\<lparr>cmd_named = Inr, cmd_actor = \<lambda>r l n. (Inr (Some JNull), 0)\<rparr>])\<rparr>"

definition counter_args :: node_args where
  "counter_args = \<lparr>arg_rpcuser = ''web'', arg_rpcpassword = ''pw'', arg_rpcauth = [],
     arg_rpcwhitelist = [], arg_rpcwhitelistdefault = None\<rparr>"

definition counter_running :: "nat node" where
  "counter_running = counter_node\<lparr>nd_rpcauth := [(''web'', [], HexStr [112, 119])]\<rparr>"

lemma web_config_credentials:
  "rpc_user (cfg_hyliumRpc web_config) = ''web''" "rpc_pass (cfg_hyliumRpc web_config) = ''pw''"
  by (simp_all add: web_config_def load_config_def env_or_def)

lemma ascii_utf8: "utf8_string ''web'' = ''web''" "utf8_string ''pw'' = ''pw''"
  by (simp_all add: utf8_string_def utf8_def utf8_char_def char_of_eq_iff)

lemma counter_starts:
  "InitRPCAuthentication counter_args COOKIE_DISABLED [] counter_node = Some counter_running"
  by (simp add: InitRPCAuthentication_def plain_credential_def counter_args_def counter_node_def
      counter_running_def HexStr_def)

lemma counter_started: "started_for web_config counter_args counter_node"
  by (simp add: started_for_def counter_args_def counter_node_def web_config_credentials ascii_utf8)

lemma getblockcount_allowed:
  "to_lower ''getblockcount'' \<in> set ALLOWED_METHODS" "to_lower ''GetBlockCount'' \<in> set ALLOWED_METHODS"
  by code_simp+


text \<open>A backend with the wrong password gets nothing out of the node: the node answers 401 with no
  body, no command runs, and the proxy answers every whitelisted call with a 500.\<close>

theorem rpc_wrong_password:
  assumes "InitRPCAuthentication args cookie raw_salt nd0 = Some nd"
    and "arg_rpcpassword args \<noteq> []" and "nd_rpcauth nd0 = []" and "arg_rpcauth args = []"
    and "HexStr (nd_hmac_sha256 nd0 (HexStr raw_salt) (node_pass cfg)) \<noteq>
         HexStr (nd_hmac_sha256 nd0 (HexStr raw_salt) (arg_rpcpassword args))"
    and "CHR '':'' \<notin> set (rpc_user (cfg_hyliumRpc cfg))"
    and "js_get (req_body req) ''method'' = Inr (JStr m)"
    and "js_get (req_body req) ''params'' = Inr (JArr vs)" and "to_lower m \<in> set ALLOWED_METHODS"
  shows "fst (rpc_handler cfg (node_net nd uri st) req) = res_error 500 ''RPC call failed'' \<and>
    HTTPReq_JSONRPC nd (deliver uri (rpc_request cfg m (JArr vs))) st =
      (\<lparr>nr_status = 401, nr_body = NoBody\<rparr>, st)"
proof -
  have "\<not> CheckUserAuthorized nd (node_user cfg) (node_pass cfg)"
    using started_node_authorizes_only [OF assms(1-4)] assms(5) by blast
  from node_rejects_call [OF assms(6) this] show ?thesis
    unfolding rpc_handler_call [OF assms(7-9)] node_net_def
    by (simp add: WriteReply_def rpc_failed_def)
qed

theorem rpc_wrong_password_witness:
  "fst (rpc_handler (load_config (\<lambda>_. None)) (node_net counter_running ''/'' 7)
     (sample_request POST ''/'' (JObj [jstr_field ''method'' ''getblockcount'', (''params'', JArr [])]))) =
   res_error 500 ''RPC call failed''"
proof -
  have "rpc_user (cfg_hyliumRpc (load_config (\<lambda>_. None))) = []"
    "rpc_pass (cfg_hyliumRpc (load_config (\<lambda>_. None))) = []"
    by (simp_all add: load_config_def env_or_def)
  with rpc_wrong_password [OF counter_starts _ _ _ _ _ _ _ getblockcount_allowed(1),
      of "load_config (\<lambda>_. None)" "sample_request POST ''/'' (JObj [jstr_field ''method'' ''getblockcount'', (''params'', JArr [])])"
        "[]" "''/''" 7]
  show ?thesis
    by (simp add: counter_args_def counter_node_def sample_request_def js_lookup_def HexStr_def
        utf8_string_def utf8_def)
qed

section \<open>What of the node the web can reach\<close>

text \<open>The node with every command taken out whose name is not on the backend's list.\<close>

definition only_allowed :: "'st node \<Rightarrow> 'st node" where
  "only_allowed nd = nd\<lparr>nd_commands := \<lambda>m.
     if to_lower m \<in> set ALLOWED_METHODS then nd_commands nd m else None\<rparr>"

lemma only_allowed_simps [simp]:
  "nd_rpcauth (only_allowed nd) = nd_rpcauth nd" "nd_whitelist (only_allowed nd) = nd_whitelist nd"
  "nd_whitelist_default (only_allowed nd) = nd_whitelist_default nd"
  "nd_hmac_sha256 (only_allowed nd) = nd_hmac_sha256 nd" "nd_warmup (only_allowed nd) = nd_warmup nd"
  by (simp_all add: only_allowed_def)

lemma RPCAuthorized_only_allowed [simp]: "RPCAuthorized (only_allowed nd) = RPCAuthorized nd"
  by (simp add: fun_eq_iff RPCAuthorized_def CheckUserAuthorized_def Let_def split: option.splits)

lemma user_may_call_only_allowed [simp]: "user_may_call (only_allowed nd) = user_may_call nd"
  by (simp add: fun_eq_iff user_may_call_def)

lemma execute_only_allowed:
  "to_lower (jreq_strMethod jreq) \<in> set ALLOWED_METHODS \<Longrightarrow>
     execute (only_allowed nd) jreq st = execute nd jreq st"
  by (cases "nd_warmup nd") (simp_all add: execute_def only_allowed_def)

lemma parse_method:
  "parse (JObj kvs) jreq = (jreq', None) \<Longrightarrow> find_value kvs ''method'' = JStr (jreq_strMethod jreq')"
  by (auto simp: parse_def parse_call_def Let_def split: jsval.splits if_splits)

lemma serve_single_only_allowed:
  assumes "find_value kvs ''method'' = JStr m" and "to_lower m \<in> set ALLOWED_METHODS"
  shows "serve_single (only_allowed nd) jreq (JObj kvs) st = serve_single nd jreq (JObj kvs) st"
proof (cases "parse (JObj kvs) jreq")
  case (Pair jreq' exn)
  show ?thesis
  proof (cases exn)
    case None
    then have "to_lower (jreq_strMethod jreq') \<in> set ALLOWED_METHODS"
      using parse_method [of kvs jreq jreq'] Pair assms by simp
    then show ?thesis
      using Pair None by (simp add: serve_single_def JSONRPCExec_def execute_only_allowed)
  qed (simp add: serve_single_def Pair)
qed

lemma whitelisted_only_allowed:
  assumes "whitelisted f"
  shows "HTTPReq_JSONRPC (only_allowed nd) (deliver uri f) st = HTTPReq_JSONRPC nd (deliver uri f) st"
proof -
  obtain kvs m where body: "fetch_body f = JObj kvs" "find_value kvs ''method'' = JStr m"
    "to_lower m \<in> set ALLOWED_METHODS"
    using assms
    by (cases "fetch_body f")
       (auto simp: whitelisted_def requested_method_def js_lookup_def find_value_def
         split: jsval.splits option.splits)
  then show ?thesis
    unfolding HTTPReq_JSONRPC_def
    by (auto simp: deliver_def serve_single_only_allowed [OF body(2,3)] Let_def
        split: option.splits bool.splits prod.splits)
qed

text \<open>C10: Whatever request comes in from the web, the node behaves on every call it causes exactly as a
  node that has no other commands than the thirteen of the backend's list, compared without regard
  to letter case. So no request to the backend reaches a command of the node that is not on the
  list, neither by its parameters nor by a batch.\<close>

theorem node_runs_only_allowed:
  "list_all (\<lambda>f. \<forall>st. HTTPReq_JSONRPC nd (deliver uri f) st =
       HTTPReq_JSONRPC (only_allowed nd) (deliver uri f) st)
     (fst (snd (handle_request X E cfg w req s)))"
proof -
  have "list_all whitelisted (fst (snd (handle_request X E cfg w req s)))"
    using request_sends_whitelisted [of X E cfg w req s "fst (handle_request X E cfg w req s)"
        _ "snd (snd (handle_request X E cfg w req s))"] by simp
  then show ?thesis
    by (auto simp: list_all_iff whitelisted_only_allowed)
qed

section \<open>Batches\<close>

text \<open>One request of a batch on its own: its response, or none for a notification.\<close>

definition batch_element ::
  "'st node \<Rightarrow> jsonrpc_request \<Rightarrow> jsval \<Rightarrow> 'st \<Rightarrow> jsval option \<times> 'st" where
  "batch_element nd jreq v st =
     (case parse v jreq of
        (jreq', Some e) \<Rightarrow>
          (if IsNotification jreq' then None else Some (error_reply RPC_PARSE_ERROR jreq' e), st)
      | (jreq', None) \<Rightarrow>
          (case execute nd jreq' st of
             (r, st') \<Rightarrow>
               (if IsNotification jreq' then None
                else Some (JSONRPCReplyObj (case r of Inr v \<Rightarrow> v | Inl _ \<Rightarrow> JNull)
                  (case r of Inr _ \<Rightarrow> JNull | Inl e \<Rightarrow> exn_object RPC_MISC_ERROR e)
                  (jreq_id jreq') (jreq_version jreq')), st')))"

fun each_alone ::
  "'st node \<Rightarrow> jsonrpc_request \<Rightarrow> jsval list \<Rightarrow> 'st \<Rightarrow> jsval option list \<times> 'st" where
  "each_alone nd jreq [] st = ([], st)"
| "each_alone nd jreq (v # vs) st =
     (let (r, st') = batch_element nd jreq v st; (rs, st'') = each_alone nd jreq vs st'
      in (r # rs, st''))"

text \<open>Two requests that differ in what \<open>parse\<close> overwrites.\<close>

definition same_caller :: "jsonrpc_request \<Rightarrow> jsonrpc_request \<Rightarrow> bool" where
  "same_caller j k \<longleftrightarrow> jreq_URI j = jreq_URI k \<and> jreq_authUser j = jreq_authUser k"

lemma parse_same_caller: "same_caller (fst (parse v j)) j"
  by (auto simp: parse_def parse_call_def same_caller_def Let_def split: jsval.splits)

lemma parse_forgets:
  assumes "same_caller j k"
  shows "snd (parse (JObj kvs) j) = snd (parse (JObj kvs) k) \<and>
    jreq_id (fst (parse (JObj kvs) j)) = jreq_id (fst (parse (JObj kvs) k)) \<and>
    jreq_version (fst (parse (JObj kvs) j)) = jreq_version (fst (parse (JObj kvs) k)) \<and>
    (snd (parse (JObj kvs) j) = None \<longrightarrow> fst (parse (JObj kvs) j) = fst (parse (JObj kvs) k))"
  using assms
  by (auto simp: parse_def parse_call_def same_caller_def Let_def split: jsval.splits)

lemma batch_element_same_caller:
  assumes "same_caller j k"
  shows "batch_element nd j (JObj kvs) st = batch_element nd k (JObj kvs) st"
proof -
  obtain j' e where j: "parse (JObj kvs) j = (j', e)"
    by fastforce
  obtain k' e' where k: "parse (JObj kvs) k = (k', e')"
    by fastforce
  show ?thesis
    using parse_forgets [OF assms, of kvs] j k
    by (cases e) (auto simp: batch_element_def error_reply_def IsNotification_def)
qed

lemma batch_run_Cons:
  "batch_run nd jreq (v # vs) st =
     (let (r, st') = batch_element nd jreq v st; (rs, st'') = batch_run nd (fst (parse v jreq)) vs st'
      in (case r of None \<Rightarrow> rs | Some x \<Rightarrow> x # rs, st''))"
  by (auto simp: batch_element_def JSONRPCExec_def error_reply_def Let_def
      split: prod.splits option.splits sum.splits)

lemma batch_run_alone:
  assumes "same_caller j k" and "\<forall>v \<in> set vs. \<exists>kvs. v = JObj kvs"
  shows "batch_run nd j vs st =
    (let (rs, st') = each_alone nd k vs st in (map the (filter (\<lambda>r. r \<noteq> None) rs), st'))"
  using assms
proof (induction vs arbitrary: j st)
  case (Cons v vs)
  then obtain kvs where v: "v = JObj kvs"
    by auto
  have next_call: "same_caller (fst (parse v j)) k"
    using parse_same_caller [of v j] Cons.prems(1) by (simp add: same_caller_def)
  show ?case
    unfolding batch_run_Cons each_alone.simps
    using Cons.IH [OF next_call] Cons.prems(2) batch_element_same_caller [OF Cons.prems(1), of nd kvs st]
    by (auto simp: v Let_def split: prod.splits option.splits)
qed simp

text \<open>A batch of request objects is the requests one by one: each is answered as if it had come
  alone after the ones before it, in order, notifications are left out, and the reply is an empty 204
  when nothing but notifications was asked. What the requests before it have left in the shared
  request object is never seen.\<close>

theorem batch_is_one_by_one:
  assumes "\<forall>v \<in> set vs. \<exists>kvs. v = JObj kvs" and "nd_whitelist nd (jreq_authUser jreq) = None"
    and "each_alone nd jreq vs st = (rs, st')"
  shows "serve_batch nd jreq vs st =
    (if vs \<noteq> [] \<and> list_all (\<lambda>r. r = None) rs then \<lparr>nr_status = 204, nr_body = NoBody\<rparr>
     else \<lparr>nr_status = 200, nr_body = JsonBody (JArr (map the (filter (\<lambda>r. r \<noteq> None) rs)))\<rparr>, st')"
  using assms(2,3) batch_run_alone [OF _ assms(1), of jreq jreq nd st]
  by (auto simp: serve_batch_def same_caller_def WriteReply_def list_all_iff filter_empty_conv)

theorem batch_is_one_by_one_witness:
  "serve_batch counter_running new_request
     [JObj [jstr_field ''method'' ''getblockcount'', (''id'', jint 1)],
      JObj [jstr_field ''jsonrpc'' ''2.0'', jstr_field ''method'' ''stop''],
      JObj [jstr_field ''method'' ''getblockcount'', (''id'', jint 2)]] 7 =
   (\<lparr>nr_status = 200, nr_body = JsonBody (JArr
      [JObj [(''result'', jint 7), (''error'', JNull), (''id'', jint 1)],
       JObj [(''result'', jint 0), (''error'', JNull), (''id'', jint 2)]])\<rparr>, 0)"
proof -
  let ?vs = "[JObj [jstr_field ''method'' ''getblockcount'', (''id'', jint 1)],
      JObj [jstr_field ''jsonrpc'' ''2.0'', jstr_field ''method'' ''stop''],
      JObj [jstr_field ''method'' ''getblockcount'', (''id'', jint 2)]]"
  have "each_alone counter_running new_request ?vs 7 =
      ([Some (JObj [(''result'', jint 7), (''error'', JNull), (''id'', jint 1)]), None,
        Some (JObj [(''result'', jint 0), (''error'', JNull), (''id'', jint 2)])], 0)"
    by (simp add: batch_element_def parse_def parse_call_def find_value_def execute_def
        counter_running_def counter_node_def ExecuteCommand_def new_request_def IsNotification_def
        JSONRPCReplyObj_def)
  from batch_is_one_by_one [OF _ _ this] show ?thesis
    by (simp add: counter_running_def counter_node_def)
qed

text \<open>An element that is not an object is refused before \<open>parse\<close> has touched the shared request
  object, so its error carries the identifier of the element before it.\<close>

lemma batch_stale_id:
  "fst (batch_run counter_running new_request
     [JObj [jstr_field ''method'' ''getblockcount'', (''id'', jint 1)], jint 5] 7) =
   [JObj [(''result'', jint 7), (''error'', JNull), (''id'', jint 1)],
    JObj [(''result'', JNull),
      (''error'', error_object RPC_INVALID_REQUEST ''Invalid Request object''), (''id'', jint 1)]]"
  by (simp add: parse_def parse_call_def find_value_def execute_def JSONRPCExec_def error_reply_def
      counter_running_def counter_node_def ExecuteCommand_def new_request_def IsNotification_def
      JSONRPCReplyObj_def error_object_def)

text \<open>A request of version 2.0 without a method is answered with an HTTP error all the same.\<close>

lemma version_2_http_error:
  "nr_status (fst (serve_single nd new_request
     (JObj [jstr_field ''jsonrpc'' ''2.0'', (''id'', jint 1)]) st)) = 400"
  by (simp add: serve_single_def parse_def parse_call_def find_value_def new_request_def
      JSONErrorReply_def WriteReply_def)

text \<open>A method in another letter case passes the backend's list, but the node does not know it: the
  proxy relays the node's error with status 200.\<close>

lemma mixed_case_method_unknown:
  "fst (rpc_handler web_config (node_net counter_running ''/'' 7)
     (sample_request POST ''/'' (JObj [jstr_field ''method'' ''GetBlockCount'', (''params'', JArr [])]))) =
   res_json 200 (JObj [(''result'', JNull),
     (''error'', error_object RPC_METHOD_NOT_FOUND ''Method not found''),
     jstr_field ''id'' ''hylium-web''])"
proof -
  let ?req = "sample_request POST ''/'' (JObj [jstr_field ''method'' ''GetBlockCount'', (''params'', JArr [])])"
  have "execute counter_running (backend_call web_config ''/'' ''GetBlockCount'' []) 7
      = (Inl (JSONRPCError RPC_METHOD_NOT_FOUND ''Method not found''), 7)"
    by (simp add: execute_def backend_call_def counter_running_def counter_node_def)
  moreover have "admits web_config counter_running ''GetBlockCount''"
    using started_node_admits [OF counter_starts counter_started]
    by (simp add: web_config_credentials ascii_utf8)
  ultimately have "node_net counter_running ''/'' 7 (rpc_request web_config ''GetBlockCount'' (JArr []))
      = FetchResponse 404 (Inr (JObj [(''result'', JNull),
          (''error'', error_object RPC_METHOD_NOT_FOUND ''Method not found''),
          jstr_field ''id'' ''hylium-web'']))"
    using node_serves_call [of web_config counter_running "''GetBlockCount''" "''/''" "[]" 7]
    by (simp add: node_net_def web_config_credentials call_reply_def JSONErrorReply_def WriteReply_def
        error_reply_def JSONRPCReplyObj_def backend_call_def error_object_def rpc_codes)
  then show ?thesis
    using rpc_handler_call [of ?req "''GetBlockCount''" "[]" web_config] getblockcount_allowed(2)
    by (simp add: sample_request_def js_lookup_def)
qed

end
