(* ===== verification/Arith_Uint256.thy ===== *)
theory Arith_Uint256
  imports Bit_Arith
begin

text \<open>
  The node's 256-bit unsigned integers (\<open>src/arith_uint256.h\<close>, \<open>src/arith_uint256.cpp\<close>): arrays
  of 32-bit limbs, the least significant first, with the loops over the limbs as they are written.
  A limb is a natural number below \<open>2^32\<close>; the intermediate \<open>uint64_t\<close> values wrap at \<open>2^64\<close>.
  Every operation is shown to compute, on the numbers the limbs denote, what its name says modulo
  \<open>2^256\<close>; the division, which shifts and subtracts, the quotient.
\<close>

section \<open>Limbs\<close>

type_synonym base_uint = "nat list"

abbreviation (input) WIDTH :: nat where "WIDTH \<equiv> 8"

definition limbs :: "base_uint \<Rightarrow> bool" where
  "limbs a \<longleftrightarrow> (\<forall>d \<in> set a. d < 2 ^ 32)"

definition uint256 :: "base_uint \<Rightarrow> bool" where
  "uint256 a \<longleftrightarrow> length a = WIDTH \<and> limbs a"

fun limb_value :: "base_uint \<Rightarrow> nat" where
  "limb_value [] = 0"
| "limb_value (d # ds) = d + 2 ^ 32 * limb_value ds"

section \<open>Operations\<close>

definition of_uint64 :: "nat \<Rightarrow> base_uint" where
  "of_uint64 b = [b mod 2 ^ 32, b div 2 ^ 32 mod 2 ^ 32] @ replicate (WIDTH - 2) 0"

definition complement :: "base_uint \<Rightarrow> base_uint" where
  "complement a = map (\<lambda>d. 2 ^ 32 - 1 - d) a"

text \<open>\<open>operator++\<close>: \<open>while (i < WIDTH && ++pn[i] == 0) i++\<close>.\<close>

fun increment :: "base_uint \<Rightarrow> base_uint" where
  "increment [] = []"
| "increment (d # ds) =
     (let d' = (d + 1) mod 2 ^ 32 in if d' = 0 then d' # increment ds else d' # ds)"

definition negate_uint :: "base_uint \<Rightarrow> base_uint" where
  "negate_uint a = increment (complement a)"

fun add_limbs :: "nat \<Rightarrow> base_uint \<Rightarrow> base_uint \<Rightarrow> base_uint" where
  "add_limbs carry (p # ps) (q # qs) =
     (let n = (carry + p + q) mod 2 ^ 64 in (n mod 2 ^ 32) # add_limbs (n div 2 ^ 32) ps qs)"
| "add_limbs carry _ _ = []"

definition add_uint :: "base_uint \<Rightarrow> base_uint \<Rightarrow> base_uint" where
  "add_uint a b = add_limbs 0 a b"

definition sub_uint :: "base_uint \<Rightarrow> base_uint \<Rightarrow> base_uint" where
  "sub_uint a b = add_uint a (negate_uint b)"

fun mul_limbs32 :: "nat \<Rightarrow> nat \<Rightarrow> base_uint \<Rightarrow> base_uint" where
  "mul_limbs32 b32 carry [] = []"
| "mul_limbs32 b32 carry (p # ps) =
     (let n = (carry + b32 * p) mod 2 ^ 64 in (n mod 2 ^ 32) # mul_limbs32 b32 (n div 2 ^ 32) ps)"

definition mul32_uint :: "base_uint \<Rightarrow> nat \<Rightarrow> base_uint" where
  "mul32_uint a b32 = mul_limbs32 b32 0 a"

text \<open>\<open>operator<<=\<close> and \<open>operator>>=\<close>: every limb is spread over two limbs of the result.\<close>

definition shl_step :: "base_uint \<Rightarrow> nat \<Rightarrow> nat \<Rightarrow> nat \<Rightarrow> base_uint \<Rightarrow> base_uint" where
  "shl_step a k shift i pn =
     (let pn = (if i + k + 1 < length a \<and> shift \<noteq> 0
                then pn[i + k + 1 := pn ! (i + k + 1) OR drop_bit (32 - shift) (a ! i)] else pn)
      in if i + k < length a
         then pn[i + k := pn ! (i + k) OR (push_bit shift (a ! i) mod 2 ^ 32)] else pn)"

definition shl_uint :: "base_uint \<Rightarrow> nat \<Rightarrow> base_uint" where
  "shl_uint a shift =
     fold (shl_step a (shift div 32) (shift mod 32)) [0..<length a] (replicate (length a) 0)"

definition shr_step :: "base_uint \<Rightarrow> nat \<Rightarrow> nat \<Rightarrow> nat \<Rightarrow> base_uint \<Rightarrow> base_uint" where
  "shr_step a k shift i pn =
     (let pn = (if k + 1 \<le> i \<and> shift \<noteq> 0
                then pn[i - k - 1 := pn ! (i - k - 1) OR (push_bit (32 - shift) (a ! i) mod 2 ^ 32)]
                else pn)
      in if k \<le> i then pn[i - k := pn ! (i - k) OR drop_bit shift (a ! i)] else pn)"

definition shr_uint :: "base_uint \<Rightarrow> nat \<Rightarrow> base_uint" where
  "shr_uint a shift =
     fold (shr_step a (shift div 32) (shift mod 32)) [0..<length a] (replicate (length a) 0)"

text \<open>\<open>CompareTo\<close> from the most significant limb down.\<close>

fun compare_limbs :: "base_uint \<Rightarrow> base_uint \<Rightarrow> int" where
  "compare_limbs (p # ps) (q # qs) =
     (if p < q then - 1 else if q < p then 1 else compare_limbs ps qs)"
| "compare_limbs _ _ = 0"

definition CompareTo :: "base_uint \<Rightarrow> base_uint \<Rightarrow> int" where
  "CompareTo a b = compare_limbs (rev a) (rev b)"

text \<open>\<open>bits()\<close>: the highest limb that is not zero, then its highest bit.\<close>

fun high_bit :: "nat \<Rightarrow> nat \<Rightarrow> nat" where
  "high_bit 0 p = 1"
| "high_bit (Suc nbits) p = (if bit p (Suc nbits) then Suc nbits + 1 else high_bit nbits p)"

fun bits_limbs :: "base_uint \<Rightarrow> nat" where
  "bits_limbs [] = 0"
| "bits_limbs (p # ps) = (if p \<noteq> 0 then 32 * length ps + high_bit 31 p else bits_limbs ps)"

definition bits_uint :: "base_uint \<Rightarrow> nat" where
  "bits_uint a = bits_limbs (rev a)"

definition GetLow64 :: "base_uint \<Rightarrow> nat" where
  "GetLow64 a = (a ! 0) OR push_bit 32 (a ! 1)"

text \<open>The loop of \<open>operator/=\<close>, from \<open>shift\<close> down to 0; \<open>quot\<close> is \<open>*this\<close>.\<close>

definition set_bit_uint :: "nat \<Rightarrow> base_uint \<Rightarrow> base_uint" where
  "set_bit_uint shift pn =
     pn[shift div 32 := pn ! (shift div 32) OR push_bit (shift mod 32) 1]"

fun div_loop :: "nat \<Rightarrow> base_uint \<Rightarrow> base_uint \<Rightarrow> base_uint \<Rightarrow> base_uint" where
  "div_loop shift num dv quot =
     (let (num', quot') =
        (if 0 \<le> CompareTo num dv then (sub_uint num dv, set_bit_uint shift quot) else (num, quot))
      in case shift of 0 \<Rightarrow> quot' | Suc s \<Rightarrow> div_loop s num' (shr_uint dv 1) quot')"

declare div_loop.simps [simp del]

text \<open>\<^term>\<open>None\<close> is the exception for a division by zero.\<close>

definition div_uint :: "base_uint \<Rightarrow> base_uint \<Rightarrow> base_uint option" where
  "div_uint a b =
     (let num_bits = bits_uint a; div_bits = bits_uint b in
      if div_bits = 0 then None
      else if num_bits < div_bits then Some (replicate (length a) 0)
      else
        let shift = num_bits - div_bits
        in Some (div_loop shift a (shl_uint b shift) (replicate (length a) 0)))"

section \<open>Limbs and numbers\<close>

lemma limbs_simps [simp]:
  "limbs []" "limbs (d # ds) \<longleftrightarrow> d < 2 ^ 32 \<and> limbs ds" "limbs (a @ b) \<longleftrightarrow> limbs a \<and> limbs b"
  "limbs (replicate n 0)"
  by (auto simp: limbs_def)

lemma limbs_nth: "limbs a \<Longrightarrow> i < length a \<Longrightarrow> a ! i < 2 ^ 32"
  by (simp add: limbs_def)

lemma limb_value_append:
  "limb_value (a @ b) = limb_value a + 2 ^ (32 * length a) * limb_value b"
  by (induction a) (simp_all add: power_add algebra_simps)

lemma limb_value_zero [simp]: "limb_value (replicate n 0) = 0"
  by (induction n) simp_all

lemma power_32_Suc: "(2::nat) ^ (32 * Suc n) = 2 ^ 32 * 2 ^ (32 * n)"
  by (simp only: mult_Suc_right power_add)

lemma limb_value_less: "limbs a \<Longrightarrow> limb_value a < 2 ^ (32 * length a)"
proof (induction a)
  case (Cons d ds)
  then have "d < 2 ^ 32" "limb_value ds + 1 \<le> 2 ^ (32 * length ds)"
    by simp_all
  then have "d + 2 ^ 32 * limb_value ds < 2 ^ 32 * (limb_value ds + 1)"
    by (simp add: algebra_simps)
  also have "\<dots> \<le> 2 ^ 32 * 2 ^ (32 * length ds)"
    using \<open>limb_value ds + 1 \<le> _\<close> by (rule mult_le_mono2)
  finally show ?case
    by (simp only: limb_value.simps length_Cons power_32_Suc)
qed simp

lemma uint256_value_less: "uint256 a \<Longrightarrow> limb_value a < 2 ^ 256"
  using limb_value_less [of a] by (simp add: uint256_def)

lemma limb_value_inj:
  "limbs a \<Longrightarrow> limbs b \<Longrightarrow> length a = length b \<Longrightarrow> limb_value a = limb_value b \<Longrightarrow> a = b"
proof (induction a arbitrary: b)
  case (Cons d ds)
  then obtain e es where b: "b = e # es"
    by (cases b) auto
  have "(d + 2 ^ 32 * limb_value ds) mod 2 ^ 32 = d" "(e + 2 ^ 32 * limb_value es) mod 2 ^ 32 = e"
    using Cons.prems(1,2) b by simp_all
  moreover have "d + 2 ^ 32 * limb_value ds = e + 2 ^ 32 * limb_value es"
    using Cons.prems(4) b by simp
  ultimately have "d = e"
    by metis
  with Cons b show ?case
    by simp
qed simp

lemma bit_limb_value:
  "limbs a \<Longrightarrow> bit (limb_value a) n \<longleftrightarrow> n div 32 < length a \<and> bit (a ! (n div 32)) (n mod 32)"
proof (induction a arbitrary: n)
  case (Cons d ds)
  have d: "d < 2 ^ 32"
    using Cons.prems by simp
  have val: "limb_value (d # ds) = push_bit 32 (limb_value ds) OR d"
    using push_or_low [OF d, of "limb_value ds"] by (simp only: limb_value.simps mult.commute add.commute)
  show ?case
  proof (cases "n < 32")
    case True
    then show ?thesis
      unfolding val by (simp add: bit_or_iff bit_push_bit_iff)
  next
    case False
    then have "n div 32 = Suc ((n - 32) div 32)" "n mod 32 = (n - 32) mod 32"
      by (simp_all add: le_div_geq le_mod_geq)
    moreover have "\<not> bit d n"
      using d False power_increasing [of 32 n "2::nat"] by (simp add: bit_iff_odd)
    ultimately show ?thesis
      unfolding val using False Cons by (simp add: bit_or_iff bit_push_bit_iff)
  qed
qed simp

section \<open>Sums and differences\<close>

lemma limb_value_of_uint64: "b < 2 ^ 64 \<Longrightarrow> limb_value (of_uint64 b) = b"
proof -
  assume "b < 2 ^ 64"
  then have "b div 2 ^ 32 < 2 ^ 32"
    by (simp add: less_mult_imp_div_less)
  then show ?thesis
    by (simp add: of_uint64_def limb_value_append)
qed

lemma uint256_zero: "uint256 (replicate WIDTH 0)"
  by (simp only: uint256_def length_replicate limbs_simps)

lemma uint256_of_uint64 [simp]: "uint256 (of_uint64 b)"
  by (simp add: uint256_def of_uint64_def)

text \<open>One round of a loop that writes the low half of a \<open>uint64_t\<close> and carries the high one.\<close>

lemma carry_round:
  fixes n rest v :: nat
  assumes "v = (n div 2 ^ 32 + rest) mod 2 ^ (32 * k)"
  shows "n mod 2 ^ 32 + 2 ^ 32 * v = (n + 2 ^ 32 * rest) mod 2 ^ (32 * Suc k)"
proof -
  have "n + 2 ^ 32 * rest = n mod 2 ^ 32 + 2 ^ 32 * (n div 2 ^ 32 + rest)"
    by (simp only: distrib_left) simp
  then have "(n + 2 ^ 32 * rest) mod (2 ^ 32 * 2 ^ (32 * k))
      = 2 ^ 32 * ((n div 2 ^ 32 + rest) mod 2 ^ (32 * k)) + n mod 2 ^ 32"
    by (simp add: mod_mult2_eq add.commute)
  then show ?thesis
    unfolding assms by (simp only: power_32_Suc add.commute)
qed

lemma add_limbs_correct:
  assumes "length a = length b" "limbs a" "limbs b" "carry < 2 ^ 32"
  shows "limb_value (add_limbs carry a b) =
      (carry + limb_value a + limb_value b) mod 2 ^ (32 * length a) \<and>
    length (add_limbs carry a b) = length a \<and> limbs (add_limbs carry a b)"
  using assms
proof (induction carry a b rule: add_limbs.induct)
  case (1 carry p ps q qs)
  have small: "carry + p + q < 2 ^ 64" and c: "(carry + p + q) div 2 ^ 32 < 2 ^ 32"
    using "1.prems" by (simp_all add: less_mult_imp_div_less)
  then have n: "(carry + p + q) mod 2 ^ 64 = carry + p + q"
    by simp
  note IH = "1.IH" [OF refl, unfolded n]
  have "limb_value (add_limbs ((carry + p + q) div 2 ^ 32) ps qs)
      = ((carry + p + q) div 2 ^ 32 + (limb_value ps + limb_value qs)) mod 2 ^ (32 * length ps)"
    using IH "1.prems" c by (simp add: add.assoc)
  from carry_round [OF this]
  have "(carry + p + q) mod 2 ^ 32 + 2 ^ 32 * limb_value (add_limbs ((carry + p + q) div 2 ^ 32) ps qs)
      = (carry + (p + 2 ^ 32 * limb_value ps) + (q + 2 ^ 32 * limb_value qs)) mod 2 ^ (32 * Suc (length ps))"
    by (simp add: algebra_simps)
  then show ?case
    using IH "1.prems" c unfolding add_limbs.simps Let_def n
    by (simp del: mult_Suc_right)
qed auto

lemma increment_correct:
  "limbs a \<Longrightarrow> limb_value (increment a) = (limb_value a + 1) mod 2 ^ (32 * length a) \<and>
     length (increment a) = length a \<and> limbs (increment a)"
proof (induction a)
  case (Cons d ds)
  show ?case
  proof (cases "d + 1 = 2 ^ 32")
    case True
    have "limb_value (increment ds) = ((d + 1) div 2 ^ 32 + limb_value ds) mod 2 ^ (32 * length ds)"
      using Cons True by simp
    from carry_round [OF this] show ?thesis
      using Cons True by (simp del: mult_Suc_right add: algebra_simps)
  next
    case False
    then have d: "d + 1 < 2 ^ 32"
      using Cons.prems by simp
    have "limb_value ((d + 1) # ds) < 2 ^ (32 * length ((d + 1) # ds))"
      using Cons.prems d by (intro limb_value_less) simp
    then show ?thesis
      using Cons.prems d by (simp del: mult_Suc_right)
  qed
qed simp

lemma complement_correct:
  "limbs a \<Longrightarrow> limb_value (complement a) + limb_value a + 1 = 2 ^ (32 * length a) \<and>
     length (complement a) = length a \<and> limbs (complement a)"
proof (induction a)
  case (Cons d ds)
  then have "limb_value (complement ds) + limb_value ds + 1 = 2 ^ (32 * length ds)"
    by (simp add: complement_def)
  then have "(2 ^ 32 - 1 - d + 2 ^ 32 * limb_value (complement ds)) + (d + 2 ^ 32 * limb_value ds) + 1
      = 2 ^ 32 * 2 ^ (32 * length ds)"
    using Cons.prems by (simp flip: \<open>_ = 2 ^ (32 * length ds)\<close>)
  then show ?case
    using Cons by (simp del: mult_Suc_right add: complement_def power_32_Suc)
qed (simp add: complement_def)

text \<open>The operations on 256 bits, as rules for the number and for the shape of the result.\<close>

lemma uint256_add [simp]: "uint256 a \<Longrightarrow> uint256 b \<Longrightarrow> uint256 (add_uint a b)"
  using add_limbs_correct [of a b 0] by (simp add: uint256_def add_uint_def)

lemma limb_value_add:
  "uint256 a \<Longrightarrow> uint256 b \<Longrightarrow> limb_value (add_uint a b) = (limb_value a + limb_value b) mod 2 ^ 256"
  using add_limbs_correct [of a b 0] by (simp add: uint256_def add_uint_def)

lemma uint256_complement [simp]: "uint256 a \<Longrightarrow> uint256 (complement a)"
  using complement_correct [of a] by (simp add: uint256_def)

lemma limb_value_complement: "uint256 a \<Longrightarrow> limb_value (complement a) = 2 ^ 256 - 1 - limb_value a"
  using complement_correct [of a] unfolding uint256_def by simp linarith

lemma uint256_negate [simp]: "uint256 a \<Longrightarrow> uint256 (negate_uint a)"
  using increment_correct [of "complement a"] uint256_complement [of a]
  by (simp add: uint256_def negate_uint_def)

lemma limb_value_negate: "uint256 a \<Longrightarrow> limb_value (negate_uint a) = (2 ^ 256 - limb_value a) mod 2 ^ 256"
proof -
  assume a: "uint256 a"
  then have "limb_value (complement a) + 1 = 2 ^ 256 - limb_value a"
    using complement_correct [of a] unfolding uint256_def by simp linarith
  moreover have "limb_value (negate_uint a) = (limb_value (complement a) + 1) mod 2 ^ 256"
    using increment_correct [of "complement a"] uint256_complement [OF a]
    by (simp add: uint256_def negate_uint_def)
  ultimately show ?thesis
    by simp
qed

lemma uint256_sub [simp]: "uint256 a \<Longrightarrow> uint256 b \<Longrightarrow> uint256 (sub_uint a b)"
  by (simp add: sub_uint_def)

lemma limb_value_sub:
  assumes "uint256 a" "uint256 b" "limb_value b \<le> limb_value a"
  shows "limb_value (sub_uint a b) = limb_value a - limb_value b"
proof -
  have "limb_value (sub_uint a b) = (limb_value a + (2 ^ 256 - limb_value b)) mod 2 ^ 256"
    using assms by (simp only: sub_uint_def limb_value_add limb_value_negate uint256_negate mod_add_right_eq)
  also have "limb_value a + (2 ^ 256 - limb_value b) = limb_value a - limb_value b + 2 ^ 256"
    using assms(3) uint256_value_less [OF assms(2)] by linarith
  also have "(limb_value a - limb_value b + 2 ^ 256) mod 2 ^ 256 = limb_value a - limb_value b"
    using uint256_value_less [OF assms(1)] by simp
  finally show ?thesis .
qed

lemma mul_limbs32_correct:
  assumes "limbs a" "b < 2 ^ 32" "carry < 2 ^ 32"
  shows "limb_value (mul_limbs32 b carry a) = (carry + b * limb_value a) mod 2 ^ (32 * length a) \<and>
    length (mul_limbs32 b carry a) = length a \<and> limbs (mul_limbs32 b carry a)"
  using assms
proof (induction b carry a rule: mul_limbs32.induct)
  case (2 b carry p ps)
  have "b * p \<le> (2 ^ 32 - 1) * (2 ^ 32 - 1)"
    using "2.prems" by (intro mult_le_mono) simp_all
  then have small: "carry + b * p < 2 ^ 64"
    using "2.prems" by simp
  then have c: "(carry + b * p) div 2 ^ 32 < 2 ^ 32" and n: "(carry + b * p) mod 2 ^ 64 = carry + b * p"
    by (simp_all add: less_mult_imp_div_less)
  note IH = "2.IH" [OF refl, unfolded n]
  have "limb_value (mul_limbs32 b ((carry + b * p) div 2 ^ 32) ps)
      = ((carry + b * p) div 2 ^ 32 + b * limb_value ps) mod 2 ^ (32 * length ps)"
    using IH "2.prems" c by simp
  from carry_round [OF this]
  have "(carry + b * p) mod 2 ^ 32 + 2 ^ 32 * limb_value (mul_limbs32 b ((carry + b * p) div 2 ^ 32) ps)
      = (carry + b * (p + 2 ^ 32 * limb_value ps)) mod 2 ^ (32 * Suc (length ps))"
    by (simp add: algebra_simps)
  then show ?case
    using IH "2.prems" c unfolding mul_limbs32.simps Let_def n
    by (simp del: mult_Suc_right)
qed simp

lemma uint256_mul32 [simp]: "uint256 a \<Longrightarrow> b < 2 ^ 32 \<Longrightarrow> uint256 (mul32_uint a b)"
  using mul_limbs32_correct [of a b 0] by (simp add: uint256_def mul32_uint_def)

lemma limb_value_mul32:
  "uint256 a \<Longrightarrow> b < 2 ^ 32 \<Longrightarrow> limb_value (mul32_uint a b) = (limb_value a * b) mod 2 ^ 256"
  using mul_limbs32_correct [of a b 0] by (simp add: uint256_def mul32_uint_def mult.commute)

section \<open>Comparison and bit length\<close>

lemma high_digit_less:
  fixes x y p q B :: nat
  assumes "p < q" "x < B"
  shows "x + B * p < y + B * q"
proof -
  have "x + B * p < B * Suc p"
    using assms(2) by simp
  also have "\<dots> \<le> B * q"
    using assms(1) by (intro mult_le_mono2) simp
  finally show ?thesis
    by simp
qed

lemma compare_limbs_rev:
  "length a = length b \<Longrightarrow> limbs a \<Longrightarrow> limbs b \<Longrightarrow>
     compare_limbs (rev a) (rev b) =
       (if limb_value a < limb_value b then - 1 else if limb_value b < limb_value a then 1 else 0)"
proof (induction a arbitrary: b rule: rev_induct)
  case (snoc p a)
  then obtain q b' where b: "b = b' @ [q]" "length b' = length a"
    by (cases b rule: rev_cases) auto
  have low: "limb_value a < 2 ^ (32 * length a)" "limb_value b' < 2 ^ (32 * length a)"
    using snoc.prems b limb_value_less [of a] limb_value_less [of b'] by simp_all
  consider "p < q" | "q < p" | "p = q"
    by linarith
  then show ?case
  proof cases
    case 1
    from high_digit_less [OF this low(1), of "limb_value b'"] 1 show ?thesis
      by (simp add: b limb_value_append)
  next
    case 2
    from high_digit_less [OF this low(2), of "limb_value a"] 2 show ?thesis
      by (simp add: b limb_value_append)
  next
    case 3
    then show ?thesis
      using snoc b by (simp add: limb_value_append)
  qed
qed simp

lemma CompareTo_nonneg:
  "uint256 a \<Longrightarrow> uint256 b \<Longrightarrow> 0 \<le> CompareTo a b \<longleftrightarrow> limb_value b \<le> limb_value a"
  using compare_limbs_rev [of a b] by (simp add: CompareTo_def uint256_def)

lemma CompareTo_pos:
  "uint256 a \<Longrightarrow> uint256 b \<Longrightarrow> 0 < CompareTo a b \<longleftrightarrow> limb_value b < limb_value a"
  using compare_limbs_rev [of a b] by (simp add: CompareTo_def uint256_def)

text \<open>The number of bits of a number: \<open>n\<close> is below \<open>2 ^ bit_length n\<close> and not below half of it.\<close>

definition is_bit_length :: "nat \<Rightarrow> nat \<Rightarrow> bool" where
  "is_bit_length k n \<longleftrightarrow> (if n = 0 then k = 0 else 0 < k \<and> 2 ^ (k - 1) \<le> n \<and> n < 2 ^ k)"

lemma high_bit_correct: "0 < p \<Longrightarrow> p < 2 ^ Suc nbits \<Longrightarrow> is_bit_length (high_bit nbits p) p"
proof (induction nbits)
  case (Suc nbits)
  show ?case
  proof (cases "bit p (Suc nbits)")
    case True
    then have "odd (p div 2 ^ Suc nbits)"
      by (rule bit_iff_odd [THEN iffD1])
    then have "0 < p div 2 ^ Suc nbits"
      by (rule odd_pos)
    then have "2 ^ Suc nbits \<le> p"
      using div_less [of p "2 ^ Suc nbits"] by linarith
    with True Suc.prems show ?thesis
      by (simp add: is_bit_length_def)
  next
    case False
    have "p < 2 ^ Suc nbits"
    proof (rule ccontr)
      assume "\<not> p < 2 ^ Suc nbits"
      then have "p div 2 ^ Suc nbits = 1"
        using Suc.prems(2) by (intro div_nat_eqI) simp_all
      with False show False
        by (simp add: bit_iff_odd)
    qed
    with False Suc show ?thesis
      by simp
  qed
qed (simp add: is_bit_length_def)

lemma bits_limbs_correct: "limbs a \<Longrightarrow> is_bit_length (bits_limbs (rev a)) (limb_value a)"
proof (induction a rule: rev_induct)
  case (snoc p a)
  show ?case
  proof (cases "p = 0")
    case False
    define k where "k = high_bit 31 p"
    have k: "0 < k" "2 ^ (k - 1) \<le> p" "p < 2 ^ k"
      using high_bit_correct [of p 31] False snoc.prems by (simp_all add: is_bit_length_def k_def)
    have low: "limb_value a < 2 ^ (32 * length a)"
      using limb_value_less snoc.prems by simp
    have "2 ^ (32 * length a) * 2 ^ (k - 1) \<le> limb_value a + 2 ^ (32 * length a) * p"
      using k(2) by (simp add: trans_le_add2)
    moreover have "limb_value a + 2 ^ (32 * length a) * p < 2 ^ (32 * length a) * 2 ^ k"
      using high_digit_less [OF k(3) low, of 0] by simp
    ultimately show ?thesis
      using False k(1) by (simp add: is_bit_length_def limb_value_append flip: k_def power_add)
  next
    case True
    then show ?thesis
      using snoc by (simp add: limb_value_append)
  qed
qed (simp add: is_bit_length_def)

lemma bits_uint_correct: "uint256 a \<Longrightarrow> is_bit_length (bits_uint a) (limb_value a)"
  by (simp add: bits_uint_def bits_limbs_correct uint256_def)

lemma is_bit_length_less: "is_bit_length k n \<Longrightarrow> n < 2 ^ k"
  by (simp add: is_bit_length_def split: if_splits)

lemma is_bit_length_le: "is_bit_length k n \<Longrightarrow> n < 2 ^ m \<Longrightarrow> k \<le> m"
proof (rule ccontr)
  assume k: "is_bit_length k n" "n < 2 ^ m" "\<not> k \<le> m"
  then have "(2::nat) ^ m \<le> 2 ^ (k - 1)"
    by (intro power_increasing) simp_all
  moreover have "2 ^ (k - 1) \<le> n"
    using k by (auto simp: is_bit_length_def split: if_splits)
  ultimately show False
    using k(2) by linarith
qed

section \<open>Shifts\<close>

lemma numeral_or_less: "(a::nat) < 2 ^ k \<Longrightarrow> b < 2 ^ k \<Longrightarrow> a OR b < 2 ^ k"
  by (metis take_bit_nat_eq_self_iff take_bit_or)

lemma fold_upt_Suc: "fold f [0..<Suc n] s = f n (fold f [0..<n] s)"
  by simp

text \<open>The limbs of the result after the first \<open>m\<close> rounds.\<close>

lemma shl_limbs:
  fixes a :: base_uint and k s m W :: nat
  assumes "length a = W" and "m \<le> W"
  defines "r \<equiv> fold (shl_step a k s) [0..<m] (replicate W 0)"
  shows "length r = W \<and> (\<forall>j < W. r ! j =
    ((if k \<le> j \<and> j - k < m then push_bit s (a ! (j - k)) mod 2 ^ 32 else 0) OR
     (if k + 1 \<le> j \<and> j - k - 1 < m \<and> s \<noteq> 0 then drop_bit (32 - s) (a ! (j - k - 1)) else 0)))"
  using assms(2) unfolding r_def
proof (induction m)
  case (Suc m)
  define p where "p = fold (shl_step a k s) [0..<m] (replicate W 0)"
  have IH: "length p = W" "\<And>j. j < W \<Longrightarrow> p ! j =
    ((if k \<le> j \<and> j - k < m then push_bit s (a ! (j - k)) mod 2 ^ 32 else 0) OR
     (if k + 1 \<le> j \<and> j - k - 1 < m \<and> s \<noteq> 0 then drop_bit (32 - s) (a ! (j - k - 1)) else 0))"
    using Suc by (simp_all add: p_def)
  have len: "length (shl_step a k s m p) = W"
    by (simp add: shl_step_def Let_def IH(1))
  have "shl_step a k s m p ! j =
    ((if k \<le> j \<and> j - k < Suc m then push_bit s (a ! (j - k)) mod 2 ^ 32 else 0) OR
     (if k + 1 \<le> j \<and> j - k - 1 < Suc m \<and> s \<noteq> 0 then drop_bit (32 - s) (a ! (j - k - 1)) else 0))"
    if j: "j < W" for j
  proof -
    consider "j = m + k" | "j = m + k + 1" | "j \<noteq> m + k" "j \<noteq> m + k + 1"
      by blast
    then show ?thesis
    proof cases
      case 1
      then show ?thesis
        using j by (auto simp: shl_step_def Let_def nth_list_update IH assms(1) or.commute)
    next
      case 2
      then show ?thesis
        using j by (auto simp: shl_step_def Let_def nth_list_update IH assms(1))
    next
      case 3
      then have "(k \<le> j \<and> j - k < Suc m) = (k \<le> j \<and> j - k < m)"
        "(k + 1 \<le> j \<and> j - k - 1 < Suc m) = (k + 1 \<le> j \<and> j - k - 1 < m)"
        by linarith+
      then show ?thesis
        using j 3 IH(2) [OF j] by (auto simp: shl_step_def Let_def nth_list_update IH(1))
    qed
  qed
  with len show ?case
    by (simp only: fold_upt_Suc flip: p_def) simp
qed simp

lemma shr_limbs:
  fixes a :: base_uint and k s m W :: nat
  assumes "length a = W" and "m \<le> W"
  defines "r \<equiv> fold (shr_step a k s) [0..<m] (replicate W 0)"
  shows "length r = W \<and> (\<forall>j < W. r ! j =
    ((if j + k < m then drop_bit s (a ! (j + k)) else 0) OR
     (if j + k + 1 < m \<and> s \<noteq> 0 then push_bit (32 - s) (a ! (j + k + 1)) mod 2 ^ 32 else 0)))"
  using assms(2) unfolding r_def
proof (induction m)
  case (Suc m)
  define p where "p = fold (shr_step a k s) [0..<m] (replicate W 0)"
  have IH: "length p = W" "\<And>j. j < W \<Longrightarrow> p ! j =
    ((if j + k < m then drop_bit s (a ! (j + k)) else 0) OR
     (if j + k + 1 < m \<and> s \<noteq> 0 then push_bit (32 - s) (a ! (j + k + 1)) mod 2 ^ 32 else 0))"
    using Suc by (simp_all add: p_def)
  have len: "length (shr_step a k s m p) = W"
    by (simp add: shr_step_def Let_def IH(1))
  have "shr_step a k s m p ! j =
    ((if j + k < Suc m then drop_bit s (a ! (j + k)) else 0) OR
     (if j + k + 1 < Suc m \<and> s \<noteq> 0 then push_bit (32 - s) (a ! (j + k + 1)) mod 2 ^ 32 else 0))"
    if j: "j < W" for j
  proof -
    consider "m = j + k" | "m = j + k + 1" | "m \<noteq> j + k" "m \<noteq> j + k + 1"
      by blast
    then show ?thesis
    proof cases
      case 1
      then show ?thesis
        using j Suc.prems by (auto simp: shr_step_def Let_def nth_list_update IH or.commute)
    next
      case 2
      then show ?thesis
        using j Suc.prems by (auto simp: shr_step_def Let_def nth_list_update IH or.commute)
    next
      case 3
      then have "(j + k < Suc m) = (j + k < m)" "(j + k + 1 < Suc m) = (j + k + 1 < m)"
        "\<not> (k \<le> m \<and> j = m - k)" "\<not> (k + 1 \<le> m \<and> j = m - k - 1)"
        by linarith+
      then show ?thesis
        using j IH(2) [OF j] by (auto simp: shr_step_def Let_def nth_list_update IH(1))
    qed
  qed
  with len show ?case
    by (simp only: fold_upt_Suc flip: p_def) simp
qed simp

lemma bit_high_limb: "(d::nat) < 2 ^ 32 \<Longrightarrow> 32 \<le> n \<Longrightarrow> \<not> bit d n"
  using power_increasing [of 32 n "2::nat"] by (simp add: bit_iff_odd)

lemma bit_mod_limb: "bit ((x::nat) mod 4294967296) n \<longleftrightarrow> n < 32 \<and> bit x n"
  using bit_take_bit_iff [of 32 x n] by (simp add: take_bit_eq_mod)

lemma quotient_32: "(r::nat) < 32 \<Longrightarrow> (32 * q + r) div 32 = q" "r < 32 \<Longrightarrow> (32 * q + r) mod 32 = r"
  by simp_all

lemma shift_position:
  fixes n sh :: nat
  assumes "sh \<le> n"
  shows "sh mod 32 \<le> n mod 32 \<Longrightarrow>
      sh div 32 \<le> n div 32 \<and> (n - sh) div 32 = n div 32 - sh div 32 \<and> (n - sh) mod 32 = n mod 32 - sh mod 32"
    and "n mod 32 < sh mod 32 \<Longrightarrow>
      sh div 32 + 1 \<le> n div 32 \<and> (n - sh) div 32 = n div 32 - sh div 32 - 1 \<and>
      (n - sh) mod 32 = n mod 32 + (32 - sh mod 32)"
proof -
  define j b k s where "j = n div 32" and "b = n mod 32" and "k = sh div 32" and "s = sh mod 32"
  note defs = this
  have n: "n = 32 * j + b" "b < 32" and sh: "sh = 32 * k + s" "s < 32"
    by (simp_all add: defs)
  show "sh div 32 \<le> n div 32 \<and> (n - sh) div 32 = n div 32 - sh div 32 \<and> (n - sh) mod 32 = n mod 32 - sh mod 32"
    if "sh mod 32 \<le> n mod 32"
  proof -
    have "s \<le> b"
      using that by (simp add: defs)
    with assms n sh have "k \<le> j" "n - sh = 32 * (j - k) + (b - s)" "b - s < 32"
      by (auto simp: diff_mult_distrib2)
    then show ?thesis
      by (simp flip: defs)
  qed
  show "sh div 32 + 1 \<le> n div 32 \<and> (n - sh) div 32 = n div 32 - sh div 32 - 1 \<and>
      (n - sh) mod 32 = n mod 32 + (32 - sh mod 32)"
    if "n mod 32 < sh mod 32"
  proof -
    have s: "b < s"
      using that by (simp add: defs)
    with assms n sh have kj: "k + 1 \<le> j"
      by linarith
    then have "n - sh = 32 * (j - k - 1) + (b + (32 - s))" "b + (32 - s) < 32"
      using s n sh by (auto simp: diff_mult_distrib2)
    with kj show ?thesis
      by (simp flip: defs)
  qed
qed

lemma shl_nth:
  assumes "j < length a"
  shows "shl_uint a sh ! j =
    ((if sh div 32 \<le> j then push_bit (sh mod 32) (a ! (j - sh div 32)) mod 2 ^ 32 else 0) OR
     (if sh div 32 + 1 \<le> j \<and> sh mod 32 \<noteq> 0
      then drop_bit (32 - sh mod 32) (a ! (j - sh div 32 - 1)) else 0))"
proof -
  have "j - sh div 32 < length a" "j - sh div 32 - 1 < length a"
    using assms by linarith+
  then show ?thesis
    using shl_limbs [of a "length a" "length a" "sh div 32" "sh mod 32"] assms
    unfolding shl_uint_def by auto
qed

lemma shr_nth:
  assumes "j < length a"
  shows "shr_uint a sh ! j =
    ((if j + sh div 32 < length a then drop_bit (sh mod 32) (a ! (j + sh div 32)) else 0) OR
     (if j + sh div 32 + 1 < length a \<and> sh mod 32 \<noteq> 0
      then push_bit (32 - sh mod 32) (a ! (j + sh div 32 + 1)) mod 2 ^ 32 else 0))"
  using shr_limbs [of a "length a" "length a" "sh div 32" "sh mod 32"] assms
  unfolding shr_uint_def by simp

lemma length_shl [simp]: "length (shl_uint a sh) = length a"
  using shl_limbs [of a "length a" "length a" "sh div 32" "sh mod 32"] by (simp add: shl_uint_def)

lemma length_shr [simp]: "length (shr_uint a sh) = length a"
  using shr_limbs [of a "length a" "length a" "sh div 32" "sh mod 32"] by (simp add: shr_uint_def)

lemma drop_bit_less: "(d::nat) < 2 ^ 32 \<Longrightarrow> drop_bit s d < 2 ^ 32"
  by (simp add: drop_bit_eq_div div_le_dividend [THEN le_less_trans])

lemma limbs_shl: "limbs a \<Longrightarrow> limbs (shl_uint a sh)"
  unfolding limbs_def all_set_conv_all_nth length_shl
  by (auto simp only: shl_nth intro!: numeral_or_less drop_bit_less split: if_splits)
     (simp_all add: less_imp_diff_less)

lemma limbs_shr: "limbs a \<Longrightarrow> limbs (shr_uint a sh)"
  unfolding limbs_def all_set_conv_all_nth length_shr
  by (auto simp only: shr_nth intro!: numeral_or_less drop_bit_less split: if_splits) simp_all

lemma bit_shl:
  assumes "limbs a"
  shows "bit (limb_value (shl_uint a sh)) n \<longleftrightarrow>
    n < 32 * length a \<and> sh \<le> n \<and> bit (limb_value a) (n - sh)"
proof (cases "n div 32 < length a")
  case True
  define j b k s where "j = n div 32" and "b = n mod 32" and "k = sh div 32" and "s = sh mod 32"
  note defs = this
  have n: "n < 32 * length a" and b: "b < 32" and s: "s < 32" and j: "j < length a"
    using True by (simp_all add: defs div_less_iff_less_mult mult.commute)
  have "bit (limb_value (shl_uint a sh)) n \<longleftrightarrow> bit (shl_uint a sh ! j) b"
    using True by (simp add: bit_limb_value limbs_shl assms defs)
  also have "\<dots> \<longleftrightarrow> (k \<le> j \<and> s \<le> b \<and> bit (a ! (j - k)) (b - s)) \<or>
      (k + 1 \<le> j \<and> s \<noteq> 0 \<and> bit (a ! (j - k - 1)) (b + (32 - s)))"
    using b j unfolding shl_nth [OF j] k_def [symmetric] s_def [symmetric]
    by (auto simp: bit_or_iff bit_push_bit_iff bit_drop_bit_eq bit_mod_limb add.commute)
  also have "\<dots> \<longleftrightarrow> sh \<le> n \<and> bit (limb_value a) (n - sh)"
  proof (cases "sh \<le> n")
    case sh: True
    show ?thesis
    proof (cases "s \<le> b")
      case True
      then have "\<not> bit (a ! (j - k - 1)) (b + (32 - s))"
        using limbs_nth [OF assms, of "j - k - 1"] j s by (intro bit_high_limb) simp_all
      moreover have "k \<le> j" "(n - sh) div 32 = j - k" "(n - sh) mod 32 = b - s"
        using shift_position(1) [OF sh] True by (simp_all add: defs)
      ultimately show ?thesis
        using sh True j by (simp add: bit_limb_value assms less_imp_diff_less)
    next
      case False
      then have "k + 1 \<le> j" "(n - sh) div 32 = j - k - 1" "(n - sh) mod 32 = b + (32 - s)"
        using shift_position(2) [OF sh] by (simp_all add: defs)
      then show ?thesis
        using sh False j by (simp add: bit_limb_value assms less_imp_diff_less)
    qed
  next
    case False
    then have "n < sh"
      by simp
    have "\<not> (k \<le> j \<and> s \<le> b)"
    proof
      assume "k \<le> j \<and> s \<le> b"
      then have "32 * k + s \<le> 32 * j + b"
        by (simp add: add_le_mono)
      with False show False
        by (simp add: defs)
    qed
    moreover have "\<not> (k + 1 \<le> j)"
    proof
      assume "k + 1 \<le> j"
      then have "32 * k + s \<le> 32 * j + b"
        using s by linarith
      with False show False
        by (simp add: defs)
    qed
    ultimately show ?thesis
      using False by blast
  qed
  finally show ?thesis
    using n by simp
next
  case False
  then show ?thesis
    by (auto simp: bit_limb_value limbs_shl assms div_less_iff_less_mult mult.commute)
qed

lemma bit_shr:
  assumes "limbs a"
  shows "bit (limb_value (shr_uint a sh)) n \<longleftrightarrow> bit (limb_value a) (n + sh)"
proof -
  define j b k s where "j = n div 32" and "b = n mod 32" and "k = sh div 32" and "s = sh mod 32"
  note defs = this
  have b: "b < 32" and s: "s < 32"
    by (simp_all add: defs)
  have sum: "n + sh = 32 * (j + k) + (b + s)"
    by (simp add: defs)
  show ?thesis
  proof (cases "j < length a")
    case j: True
    have "bit (limb_value (shr_uint a sh)) n \<longleftrightarrow> bit (shr_uint a sh ! j) b"
      using j by (simp add: bit_limb_value limbs_shr assms defs)
    also have "\<dots> \<longleftrightarrow> (j + k < length a \<and> bit (a ! (j + k)) (b + s)) \<or>
        (j + k + 1 < length a \<and> s \<noteq> 0 \<and> 32 - s \<le> b \<and> bit (a ! (j + k + 1)) (b - (32 - s)))"
      using b j unfolding shr_nth [OF j] k_def [symmetric] s_def [symmetric]
      by (auto simp: bit_or_iff bit_push_bit_iff bit_drop_bit_eq bit_mod_limb add.commute)
    also have "\<dots> \<longleftrightarrow> bit (limb_value a) (n + sh)"
    proof (cases "b + s < 32")
      case True
      then have "(n + sh) div 32 = j + k" "(n + sh) mod 32 = b + s"
        unfolding sum by (simp_all only: quotient_32)
      then show ?thesis
        using True s by (auto simp: bit_limb_value assms)
    next
      case False
      define c where "c = b - (32 - s)"
      have c: "b + s = c + 32" "c < 32" "32 - s \<le> b" "s \<noteq> 0"
        using False b s by (simp_all add: c_def)
      then have "n + sh = 32 * (j + k + 1) + c"
        by (simp add: sum)
      then have "(n + sh) div 32 = j + k + 1" "(n + sh) mod 32 = c"
        using c(2) by (simp_all only: quotient_32)
      moreover have "\<not> (j + k < length a \<and> bit (a ! (j + k)) (b + s))"
        using limbs_nth [OF assms] bit_high_limb False by auto
      ultimately show ?thesis
        using c by (auto simp: bit_limb_value assms simp flip: c_def)
    qed
    finally show ?thesis .
  next
    case False
    then have "length a \<le> (n + sh) div 32"
      using div_le_mono [of n "n + sh" 32] by (simp add: defs)
    with False show ?thesis
      by (simp add: bit_limb_value limbs_shr assms defs)
  qed
qed

lemma uint256_shl [simp]: "uint256 a \<Longrightarrow> uint256 (shl_uint a sh)"
  by (simp add: uint256_def limbs_shl)

lemma uint256_shr [simp]: "uint256 a \<Longrightarrow> uint256 (shr_uint a sh)"
  by (simp add: uint256_def limbs_shr)

lemma limb_value_shl:
  "uint256 a \<Longrightarrow> limb_value (shl_uint a sh) = (limb_value a * 2 ^ sh) mod 2 ^ 256"
proof -
  assume a: "uint256 a"
  have "limb_value (shl_uint a sh) = take_bit 256 (push_bit sh (limb_value a))"
    using a by (intro bit_eqI)
      (auto simp: bit_shl uint256_def bit_take_bit_iff bit_push_bit_iff)
  then show ?thesis
    by (simp add: take_bit_eq_mod push_bit_eq_mult)
qed

lemma limb_value_shr: "uint256 a \<Longrightarrow> limb_value (shr_uint a sh) = limb_value a div 2 ^ sh"
proof -
  assume a: "uint256 a"
  have "limb_value (shr_uint a sh) = drop_bit sh (limb_value a)"
    using a by (intro bit_eqI) (simp add: bit_shr uint256_def bit_drop_bit_eq add.commute)
  then show ?thesis
    by (simp add: drop_bit_eq_div)
qed

lemma GetLow64_value: "uint256 a \<Longrightarrow> GetLow64 a = limb_value a mod 2 ^ 64"
proof -
  assume a: "uint256 a"
  then obtain p q r where pq: "a = p # q # r"
    by (auto simp: uint256_def length_Suc_conv numeral_eq_Suc)
  have p: "p < 2 ^ 32" and q: "q < 2 ^ 32"
    using a by (simp_all add: pq uint256_def)
  have "GetLow64 a = p + 2 ^ 32 * q"
    using push_or_low [OF p, of q] by (simp add: GetLow64_def pq or.commute)
  moreover have "p + 2 ^ 32 * q < 2 ^ 64"
    using p q by simp
  moreover have "limb_value a = p + 2 ^ 32 * q + 2 ^ 64 * limb_value r"
    by (simp add: pq)
  ultimately show ?thesis
    by (simp only: mod_mult_self2 mod_less)
qed

section \<open>Division\<close>

lemma limb_value_set_bit:
  assumes "uint256 a" "sh < 256" "\<not> bit (limb_value a) sh"
  shows "limb_value (set_bit_uint sh a) = limb_value a + 2 ^ sh" and "uint256 (set_bit_uint sh a)"
proof -
  let ?j = "sh div 32" and ?b = "sh mod 32"
  have a: "limbs a" "length a = WIDTH" and j: "?j < WIDTH"
    using assms by (simp_all add: uint256_def div_less_iff_less_mult)
  have "(2::nat) ^ ?b < 2 ^ 32"
    by (intro power_strict_increasing) simp_all
  then have "a ! ?j OR push_bit ?b 1 < 2 ^ 32"
    using limbs_nth [OF a(1), of ?j] j a(2) by (intro numeral_or_less) (simp_all add: push_bit_eq_mult)
  then show wf: "uint256 (set_bit_uint sh a)"
    using assms(1) set_update_subset_insert [of a ?j "a ! ?j OR push_bit ?b 1"]
    by (auto simp: uint256_def set_bit_uint_def limbs_def)
  have "limb_value (set_bit_uint sh a) = limb_value a OR push_bit sh 1"
  proof (rule bit_eqI)
    fix n
    have "bit (set_bit_uint sh a ! (n div 32)) (n mod 32) \<longleftrightarrow>
        bit (a ! (n div 32)) (n mod 32) \<or> n = sh" if "n div 32 < WIDTH"
      using that a j
      by (auto simp: set_bit_uint_def nth_list_update bit_or_iff bit_push_bit_iff bit_1_iff bit_exp_iff)
         (metis div_mult_mod_eq)
    moreover have "sh div 32 < WIDTH"
      by (rule j)
    ultimately show "bit (limb_value (set_bit_uint sh a)) n \<longleftrightarrow> bit (limb_value a OR push_bit sh 1) n"
      using a wf
      by (auto simp: bit_limb_value uint256_def bit_or_iff bit_push_bit_iff bit_1_iff bit_exp_iff)
  qed
  also have "\<dots> = limb_value a + push_bit sh 1"
  proof (rule disjunctive_add_eq_or [symmetric], rule bit_eqI)
    show "bit (limb_value a AND push_bit sh 1) n \<longleftrightarrow> bit 0 n" for n
      using assms(3) by (auto simp: bit_and_iff bit_push_bit_iff bit_1_iff bit_exp_iff)
  qed
  finally show "limb_value (set_bit_uint sh a) = limb_value a + 2 ^ sh"
    by (simp add: push_bit_eq_mult)
qed

text \<open>The invariant of the loop: the divisor is shifted by \<open>shift\<close>, what is left of the numerator is
  less than twice that, and the quotient has no bit yet at \<open>shift\<close> or below.\<close>

lemma div_loop_correct:
  assumes "uint256 num" "uint256 dv" "uint256 quot" "shift < 256"
    and "limb_value dv = D * 2 ^ shift" and "0 < D" and "limb_value num < D * 2 ^ Suc shift"
    and "2 ^ Suc shift dvd limb_value quot"
  shows "limb_value (div_loop shift num dv quot) = limb_value quot + limb_value num div D \<and>
    uint256 (div_loop shift num dv quot)"
  using assms
proof (induction shift arbitrary: num dv quot)
  case (0 num dv quot)
  have clear: "\<not> bit (limb_value quot) 0"
    using "0.prems"(8) by (simp add: bit_0)
  show ?case
  proof (cases "D \<le> limb_value num")
    case True
    moreover have "limb_value num div D = 1"
      using "0.prems"(7) True by (intro div_nat_eqI) simp_all
    ultimately show ?thesis
      using "0.prems" limb_value_set_bit [OF "0.prems"(3,4) clear]
      by (simp add: div_loop.simps CompareTo_nonneg)
  next
    case False
    then show ?thesis
      using "0.prems" by (simp add: div_loop.simps CompareTo_nonneg)
  qed
next
  case (Suc s num dv quot)
  define S where "S = (2::nat) ^ Suc s"
  have clear: "\<not> bit (limb_value quot) (Suc s)"
  proof -
    obtain c where "limb_value quot = S * (2 * c)"
      using Suc.prems(8) by (auto simp: S_def elim!: dvdE)
    then show ?thesis
      by (simp add: bit_iff_odd S_def)
  qed
  have half: "limb_value (shr_uint dv 1) = D * 2 ^ s"
    using Suc.prems by (simp add: limb_value_shr)
  show ?case
  proof (cases "D * S \<le> limb_value num")
    case True
    let ?num = "sub_uint num dv" and ?quot = "set_bit_uint (Suc s) quot"
    have num: "limb_value ?num = limb_value num - D * S"
      using Suc.prems True by (simp add: limb_value_sub S_def)
    note quot = limb_value_set_bit [OF Suc.prems(3,4) clear]
    have "limb_value num div D = S + (limb_value num - D * S) div D"
    proof -
      have "limb_value num = (limb_value num - D * S) + S * D"
        using True by (simp add: mult.commute)
      then have "limb_value num div D = ((limb_value num - D * S) + S * D) div D"
        by simp
      then show ?thesis
        using Suc.prems(6) by simp
    qed
    moreover have "limb_value (div_loop s ?num (shr_uint dv 1) ?quot)
        = limb_value ?quot + limb_value ?num div D \<and> uint256 (div_loop s ?num (shr_uint dv 1) ?quot)"
    proof (rule Suc.IH)
      show "limb_value ?num < D * 2 ^ Suc s"
        using Suc.prems(7) True num by (simp add: S_def)
      show "2 ^ Suc s dvd limb_value ?quot"
        unfolding quot(1) using Suc.prems(8) by (auto intro!: dvd_add elim: dvd_trans [rotated])
    qed (use Suc.prems quot half in simp_all)
    ultimately show ?thesis
      using True Suc.prems num quot
      by (simp add: div_loop.simps [of "Suc s"] CompareTo_nonneg S_def)
  next
    case False
    have "limb_value (div_loop s num (shr_uint dv 1) quot) = limb_value quot + limb_value num div D \<and>
        uint256 (div_loop s num (shr_uint dv 1) quot)"
    proof (rule Suc.IH)
      show "2 ^ Suc s dvd limb_value quot"
        using Suc.prems(8) by (auto elim: dvd_trans [rotated])
    qed (use False Suc.prems half in \<open>simp_all add: S_def\<close>)
    then show ?thesis
      using False Suc.prems by (simp add: div_loop.simps [of "Suc s"] CompareTo_nonneg S_def)
  qed
qed

lemma div_uint_correct:
  assumes "uint256 a" "uint256 b" "0 < limb_value b"
  shows "\<exists>q. div_uint a b = Some q \<and> uint256 q \<and> limb_value q = limb_value a div limb_value b"
proof -
  let ?A = "limb_value a" and ?B = "limb_value b" and ?n = "bits_uint a" and ?d = "bits_uint b"
  note bits = bits_uint_correct [OF assms(1)] bits_uint_correct [OF assms(2)]
  have d: "0 < ?d" "2 ^ (?d - 1) \<le> ?B" "?B < 2 ^ ?d"
    using bits(2) assms(3) by (simp_all add: is_bit_length_def)
  show ?thesis
  proof (cases "?n < ?d")
    case True
    have "?A < 2 ^ ?n"
      by (rule is_bit_length_less [OF bits(1)])
    also have "(2::nat) ^ ?n \<le> 2 ^ (?d - 1)"
      using True by (intro power_increasing) simp_all
    finally have "?A < ?B"
      using d(2) by linarith
    then show ?thesis
      using True d(1) assms(1) by (auto simp: div_uint_def Let_def uint256_def)
  next
    case False
    define sh where "sh = ?n - ?d"
    have n: "?n \<le> 256"
      using is_bit_length_le [OF bits(1) uint256_value_less [OF assms(1)]] .
    have "?B * 2 ^ sh < 2 ^ ?d * 2 ^ sh"
      using d(3) by simp
    also have "(2::nat) ^ ?d * 2 ^ sh = 2 ^ ?n"
      using False by (simp add: sh_def flip: power_add)
    also have "(2::nat) ^ ?n \<le> 2 ^ 256"
      using n by (intro power_increasing) simp_all
    finally have shifted: "limb_value (shl_uint b sh) = ?B * 2 ^ sh"
      using assms(2) by (simp add: limb_value_shl)
    have "?A < 2 ^ ?n"
      by (rule is_bit_length_less [OF bits(1)])
    also have "(2::nat) ^ ?n = 2 ^ (?d - 1) * 2 ^ Suc sh"
      using False d(1) by (simp add: sh_def flip: power_add power_Suc)
    also have "\<dots> \<le> ?B * 2 ^ Suc sh"
      using d(2) by (rule mult_le_mono1)
    finally have "?A < ?B * 2 ^ Suc sh" .
    then have "limb_value (div_loop sh a (shl_uint b sh) (replicate WIDTH 0)) = 0 + ?A div ?B \<and>
        uint256 (div_loop sh a (shl_uint b sh) (replicate WIDTH 0))"
      using div_loop_correct [of a "shl_uint b sh" "replicate WIDTH 0" sh ?B] shifted assms n d(1) False
      by (simp add: uint256_zero sh_def)
    then show ?thesis
      using False d(1) assms(1) by (simp add: div_uint_def Let_def sh_def uint256_def)
  qed
qed

end
