(* ===== verification/Compact_Target.thy ===== *)
theory Compact_Target
  imports Arith_Uint256
begin

text \<open>
  The compact form of a proof-of-work target, \<open>SetCompact\<close> and \<open>GetCompact\<close> of
  \<open>src/arith_uint256.cpp\<close>: a byte count and a mantissa of 23 bits in a \<open>uint32_t\<close>. Writing a
  number in this form and reading it back rounds it down; the rounding is monotone, loses less than
  one part in \<open>2^15\<close>, and is the identity on what it has produced.
\<close>

section \<open>Reading and writing\<close>

text \<open>The number, and the two flags \<open>*pfNegative\<close> and \<open>*pfOverflow\<close>.\<close>

definition SetCompact :: "nat \<Rightarrow> base_uint \<times> bool \<times> bool" where
  "SetCompact nCompact =
     (let nSize = drop_bit 24 nCompact;
          nWord = nCompact AND (2 ^ 23 - 1);
          nWord = (if nSize \<le> 3 then drop_bit (8 * (3 - nSize)) nWord else nWord);
          n = (if nSize \<le> 3 then of_uint64 nWord else shl_uint (of_uint64 nWord) (8 * (nSize - 3)))
      in (n,
          nWord \<noteq> 0 \<and> bit nCompact 23,
          nWord \<noteq> 0 \<and> (34 < nSize \<or> 255 < nWord \<and> 33 < nSize \<or> 65535 < nWord \<and> 32 < nSize)))"

abbreviation compact_target :: "nat \<Rightarrow> base_uint" where
  "compact_target nCompact \<equiv> fst (SetCompact nCompact)"

text \<open>The mantissa and the byte count \<open>GetCompact\<close> arrives at before it packs them, and the packing
  of a number that is not negative.\<close>

definition compact_parts :: "base_uint \<Rightarrow> nat \<times> nat" where
  "compact_parts a =
     (let nSize = (bits_uint a + 7) div 8;
          nCompact = (if nSize \<le> 3 then push_bit (8 * (3 - nSize)) (GetLow64 a) mod 2 ^ 32
                      else GetLow64 (shr_uint a (8 * (nSize - 3))) mod 2 ^ 32)
      in if bit nCompact 23 then (drop_bit 8 nCompact, nSize + 1) else (nCompact, nSize))"

definition GetCompact :: "base_uint \<Rightarrow> nat" where
  "GetCompact a = (let (nCompact, nSize) = compact_parts a in nCompact OR push_bit 24 nSize)"

section \<open>The rounding on numbers\<close>

fun nat_bits :: "nat \<Rightarrow> nat" where
  "nat_bits n = (if n = 0 then 0 else Suc (nat_bits (n div 2)))"

declare nat_bits.simps [simp del]

text \<open>The number of bytes that are cut off, and what is left.\<close>

definition cut_bytes :: "nat \<Rightarrow> nat" where
  "cut_bytes n = nat_bits n div 8 - 2"

definition compact_round :: "nat \<Rightarrow> nat" where
  "compact_round n = n div 256 ^ cut_bytes n * 256 ^ cut_bytes n"

lemma nat_bits_0 [simp]: "nat_bits 0 = 0"
  by (simp add: nat_bits.simps)

lemma nat_bits_correct: "is_bit_length (nat_bits n) n"
proof (induction n rule: nat_bits.induct)
  case (1 n)
  show ?case
  proof (cases "n = 0")
    case False
    note step = nat_bits.simps [of n]
    show ?thesis
    proof (cases "n div 2 = 0")
      case True
      then have "n = 1"
        using False by linarith
      then show ?thesis
        by (simp add: nat_bits.simps is_bit_length_def)
    next
      case False
      let ?k = "nat_bits (n div 2)"
      have "0 < ?k" "2 ^ (?k - 1) \<le> n div 2" "n div 2 < 2 ^ ?k"
        using 1 False by (auto simp: is_bit_length_def)
      moreover from this have "2 * 2 ^ (?k - 1) = (2::nat) ^ ?k"
        by (simp flip: power_Suc)
      ultimately have "2 ^ ?k \<le> n" "n < 2 * 2 ^ ?k"
        by linarith+
      then show ?thesis
        using False step by (auto simp: is_bit_length_def)
    qed
  qed (simp add: is_bit_length_def)
qed

lemma is_bit_length_unique: "is_bit_length k n \<Longrightarrow> is_bit_length l n \<Longrightarrow> k = l"
  by (meson is_bit_length_le is_bit_length_less le_antisym)

lemma nat_bits_bounds: "0 < n \<Longrightarrow> 2 ^ (nat_bits n - 1) \<le> n" "n < 2 ^ nat_bits n" "0 < n \<Longrightarrow> 0 < nat_bits n"
  using nat_bits_correct [of n] by (simp_all add: is_bit_length_def split: if_splits)

lemma nat_bits_mono: "m \<le> n \<Longrightarrow> nat_bits m \<le> nat_bits n"
  using is_bit_length_le [OF nat_bits_correct] nat_bits_bounds(2) [of n] by (meson le_less_trans)

lemma nat_bits_ge: "2 ^ k \<le> n \<Longrightarrow> Suc k \<le> nat_bits n"
proof (rule ccontr)
  assume "2 ^ k \<le> n" "\<not> Suc k \<le> nat_bits n"
  then have "(2::nat) ^ nat_bits n \<le> 2 ^ k"
    by (intro power_increasing) simp_all
  with \<open>2 ^ k \<le> n\<close> nat_bits_bounds(2) [of n] show False
    by linarith
qed

lemma compact_round_le: "compact_round n \<le> n"
  by (simp add: compact_round_def)

lemma power_256: "(256::nat) ^ k = 2 ^ (8 * k)"
  by (simp add: power_mult)

lemma compact_round_ge:
  assumes "256 ^ cut_bytes n dvd m" "m \<le> n"
  shows "m \<le> compact_round n"
proof -
  obtain c where c: "m = 256 ^ cut_bytes n * c"
    using assms(1) ..
  then have "c \<le> n div 256 ^ cut_bytes n"
    using assms(2) by (simp add: less_eq_div_iff_mult_less_eq mult.commute)
  then show ?thesis
    by (simp add: compact_round_def c mult.commute)
qed

text \<open>The power of two below a number survives the rounding.\<close>

lemma compact_round_power:
  assumes "0 < n"
  shows "2 ^ (nat_bits n - 1) \<le> compact_round n"
proof (rule compact_round_ge)
  have "8 * cut_bytes n \<le> nat_bits n - 1"
    using nat_bits_bounds(3) [OF assms] by (simp add: cut_bytes_def)
  then show "256 ^ cut_bytes n dvd (2::nat) ^ (nat_bits n - 1)"
    by (simp add: power_256 le_imp_power_dvd)
qed (rule nat_bits_bounds(1) [OF assms])

lemma nat_bits_round: "nat_bits (compact_round n) = nat_bits n"
proof (cases "n = 0")
  case False
  then have n: "0 < n"
    by simp
  have "nat_bits n \<le> nat_bits (compact_round n)"
    using nat_bits_ge [OF compact_round_power [OF n]] nat_bits_bounds(3) [OF n] by simp
  then show ?thesis
    using nat_bits_mono [OF compact_round_le, of n] by simp
qed (simp add: compact_round_def)

lemma compact_round_idem: "compact_round (compact_round n) = compact_round n"
  unfolding compact_round_def [of "compact_round n"] cut_bytes_def nat_bits_round
  by (simp add: compact_round_def cut_bytes_def)

lemma compact_round_mono:
  assumes "m \<le> n"
  shows "compact_round m \<le> compact_round n"
proof (cases "cut_bytes m = cut_bytes n")
  case True
  then show ?thesis
    using div_le_mono [OF assms] by (simp add: compact_round_def)
next
  case False
  have le: "nat_bits m \<le> nat_bits n"
    by (rule nat_bits_mono [OF assms])
  with False have less: "nat_bits m < nat_bits n"
    by (auto simp: cut_bytes_def le_less)
  then have n: "0 < n"
    by (auto intro: gr0I)
  from less have "nat_bits m \<le> nat_bits n - 1"
    by simp
  then have "(2::nat) ^ nat_bits m \<le> 2 ^ (nat_bits n - 1)"
    by (intro power_increasing) simp_all
  then have "m < compact_round n"
    using nat_bits_bounds(2) [of m] compact_round_power [OF n] by linarith
  then show ?thesis
    using compact_round_le [of m] by linarith
qed

text \<open>The loss is less than one part in \<open>2^15\<close>.\<close>

lemma compact_round_loss: "(n - compact_round n) * 2 ^ 15 \<le> n"
proof (cases "cut_bytes n = 0")
  case True
  then show ?thesis
    by (simp add: compact_round_def)
next
  case False
  then have n: "0 < n"
    by (auto simp: cut_bytes_def intro: gr0I)
  have "n - compact_round n = n mod 256 ^ cut_bytes n"
    by (simp add: compact_round_def minus_div_mult_eq_mod)
  then have "n - compact_round n < 2 ^ (8 * cut_bytes n)"
    by (simp add: power_256)
  then have "(n - compact_round n) * 2 ^ 15 \<le> 2 ^ (8 * cut_bytes n) * 2 ^ 15"
    by (intro mult_le_mono1) simp
  also have "\<dots> \<le> 2 ^ (nat_bits n - 1)"
  proof -
    have "8 * cut_bytes n + 15 \<le> nat_bits n - 1"
      using False by (simp add: cut_bytes_def)
    then show ?thesis
      by (simp only: flip: power_add) (intro power_increasing; simp)
  qed
  also have "\<dots> \<le> n"
    by (rule nat_bits_bounds(1) [OF n])
  finally show ?thesis .
qed

section \<open>What the code computes\<close>

lemma bits_uint_nat_bits: "uint256 a \<Longrightarrow> bits_uint a = nat_bits (limb_value a)"
  by (rule is_bit_length_unique [OF bits_uint_correct nat_bits_correct])

text \<open>A number of \<open>k\<close> bytes, cut or filled to three.\<close>

definition three_bytes :: "nat \<Rightarrow> nat \<Rightarrow> nat" where
  "three_bytes n k = (if k \<le> 3 then n * 256 ^ (3 - k) else n div 256 ^ (k - 3))"

lemma three_bytes_less:
  assumes "n < 2 ^ (8 * k - j)" "j \<le> 8 * k" "j \<le> 24"
  shows "three_bytes n k < 2 ^ (24 - j)"
proof (cases "k \<le> 3")
  case True
  have "n * 2 ^ (8 * (3 - k)) < 2 ^ (8 * k - j) * 2 ^ (8 * (3 - k))"
    using assms(1) by simp
  also have "\<dots> = 2 ^ (24 - j)"
    using True assms by (simp flip: power_add; simp add: diff_mult_distrib2)
  finally show ?thesis
    using True by (simp add: three_bytes_def power_256)
next
  case False
  have "(2::nat) ^ (8 * k - j) = 2 ^ (24 - j) * 2 ^ (8 * (k - 3))"
    using False assms by (simp flip: power_add; simp add: diff_mult_distrib2)
  then have "n < 2 ^ (24 - j) * 2 ^ (8 * (k - 3))"
    using assms(1) by simp
  then show ?thesis
    using False by (simp add: three_bytes_def power_256 less_mult_imp_div_less)
qed

lemma three_bytes_ge:
  assumes "2 ^ (8 * k - 1) \<le> n" "0 < k"
  shows "2 ^ 23 \<le> three_bytes n k"
proof (cases "k \<le> 3")
  case True
  have "(2::nat) ^ 23 = 2 ^ (8 * k - 1) * 2 ^ (8 * (3 - k))"
    using True assms(2) by (simp flip: power_add; simp add: diff_mult_distrib2)
  also have "\<dots> \<le> n * 2 ^ (8 * (3 - k))"
    using assms(1) by (rule mult_le_mono1)
  finally show ?thesis
    using True by (simp add: three_bytes_def power_256)
next
  case False
  have "23 + 8 * (k - 3) = 8 * k - 1"
    using False by simp
  then have "(2::nat) ^ 23 * 2 ^ (8 * (k - 3)) = 2 ^ (8 * k - 1)"
    by (simp only: flip: power_add)
  then have "2 ^ 23 * 2 ^ (8 * (k - 3)) \<le> n"
    using assms(1) by simp
  then show ?thesis
    using False by (simp add: three_bytes_def power_256 less_eq_div_iff_mult_less_eq)
qed

lemma three_bytes_Suc: "three_bytes n k div 256 = three_bytes n (Suc k)"
proof (cases "k < 3")
  case True
  then have "3 - k = Suc (3 - Suc k)"
    by simp
  then show ?thesis
    using True by (simp add: three_bytes_def)
next
  case False
  then have "Suc k - 3 = Suc (k - 3)"
    by simp
  then have "n div 256 ^ (k - 3) div 256 = n div 256 ^ (Suc k - 3)"
    by (simp only: power_Suc2 div_mult2_eq)
  then show ?thesis
    using False by (cases "k = 3") (simp_all add: three_bytes_def)
qed

lemma bit_23: "(m::nat) < 2 ^ 24 \<Longrightarrow> bit m 23 \<longleftrightarrow> 2 ^ 23 \<le> m"
proof -
  assume m: "m < 2 ^ 24"
  show ?thesis
  proof (cases "2 ^ 23 \<le> m")
    case True
    then have "m div 2 ^ 23 = 1"
      using m by (intro div_nat_eqI) simp_all
    then show ?thesis
      using True by (simp add: bit_iff_odd)
  qed (simp add: bit_iff_odd)
qed

lemma compact_parts_correct:
  assumes "uint256 a" "0 < limb_value a"
  defines "n \<equiv> limb_value a" and "k \<equiv> nat_bits (limb_value a) div 8 + 1"
  shows "compact_parts a = (three_bytes n k, k)" "three_bytes n k < 2 ^ 23"
proof -
  let ?L = "nat_bits n"
  define j where "j = (?L + 7) div 8"
  have n: "0 < n" "n < 2 ^ 256" "n < 2 ^ ?L" "2 ^ (?L - 1) \<le> n" "0 < ?L"
    using assms(2) uint256_value_less [OF assms(1)] nat_bits_bounds [of n] by (simp_all add: n_def)
  have j: "?L \<le> 8 * j" "0 < j"
    using n(5) by (simp_all add: j_def)
  have full: "three_bytes n j < 2 ^ 24"
  proof -
    have "(2::nat) ^ ?L \<le> 2 ^ (8 * j)"
      using j by (intro power_increasing) simp_all
    then have "n < 2 ^ (8 * j)"
      using n(3) by (rule less_le_trans [rotated])
    then show ?thesis
      using three_bytes_less [of n j 0] by simp
  qed
  have mant: "(if j \<le> 3 then push_bit (8 * (3 - j)) (GetLow64 a) mod 2 ^ 32
      else GetLow64 (shr_uint a (8 * (j - 3))) mod 2 ^ 32) = three_bytes n j"
  proof (cases "j \<le> 3")
    case True
    have "n \<le> three_bytes n j"
      using True by (simp add: three_bytes_def)
    then have "n < 2 ^ 64"
      using full by simp
    then show ?thesis
      using True full
      by (simp add: GetLow64_value assms(1) push_bit_eq_mult three_bytes_def power_256 flip: n_def)
  next
    case False
    then show ?thesis
      using full
      by (simp add: GetLow64_value assms(1) limb_value_shr three_bytes_def power_256 flip: n_def)
  qed
  show "compact_parts a = (three_bytes n k, k)" and "three_bytes n k < 2 ^ 23"
  proof -
    show parts: "compact_parts a = (three_bytes n k, k)"
    proof (cases "?L mod 8 = 0")
      case True
      then have L: "?L = 8 * j" "k = Suc j"
        by (simp_all add: j_def k_def n_def [symmetric]) presburger+
      have "2 ^ 23 \<le> three_bytes n j"
        using three_bytes_ge [of j n] n(4) j(2) L(1) by simp
      then show ?thesis
        using mant full L(2) bits_uint_nat_bits [OF assms(1)]
        by (simp add: compact_parts_def Let_def bit_23 drop_bit_eq_div three_bytes_Suc
            flip: n_def j_def)
    next
      case False
      then have L: "?L \<le> 8 * j - 1" "k = j"
        by (simp_all add: j_def k_def n_def [symmetric]) presburger+
      have "(2::nat) ^ ?L \<le> 2 ^ (8 * j - 1)"
        using L(1) by (intro power_increasing) simp_all
      then have "n < 2 ^ (8 * j - 1)"
        using n(3) by (rule less_le_trans [rotated])
      then have "three_bytes n j < 2 ^ 23"
        using three_bytes_less [of n j 1] j(2) by simp
      then show ?thesis
        using mant full L(2) bits_uint_nat_bits [OF assms(1)]
        by (simp add: compact_parts_def Let_def bit_23 flip: n_def j_def)
    qed
    have "?L \<le> 8 * k - 1"
      by (simp add: k_def n_def [symmetric])
    then have "(2::nat) ^ ?L \<le> 2 ^ (8 * k - 1)"
      by (intro power_increasing) simp_all
    then have "n < 2 ^ (8 * k - 1)"
      using n(3) by (rule less_le_trans [rotated])
    then show "three_bytes n k < 2 ^ 23"
      using three_bytes_less [of n k 1] by (simp add: k_def)
  qed
qed

lemma uint256_SetCompact [simp]: "uint256 (compact_target c)"
  by (simp add: SetCompact_def Let_def)

lemma mantissa_less: "(c::nat) AND (2 ^ 23 - 1) < 2 ^ 23"
  by (metis mask_eq_exp_minus_1 take_bit_eq_mask take_bit_nat_less_exp)

text \<open>The value of a compact number of more than three bytes.\<close>

lemma compact_target_shift:
  assumes "3 < drop_bit 24 c"
  shows "limb_value (compact_target c) = ((c AND (2 ^ 23 - 1)) * 2 ^ (8 * (drop_bit 24 c - 3))) mod 2 ^ 256"
proof -
  define w where "w = c AND (2 ^ 23 - 1)"
  have w: "w < 2 ^ 23"
    unfolding w_def by (rule mantissa_less)
  have "compact_target c = shl_uint (of_uint64 w) (8 * (drop_bit 24 c - 3))"
    using assms by (simp add: SetCompact_def Let_def w_def)
  then have "limb_value (compact_target c) = (w * 2 ^ (8 * (drop_bit 24 c - 3))) mod 2 ^ 256"
    using w by (simp add: limb_value_shl limb_value_of_uint64)
  then show ?thesis
    unfolding w_def .
qed

lemma GetCompact_zero: "uint256 a \<Longrightarrow> limb_value a = 0 \<Longrightarrow> GetCompact a = 0"
  by (simp add: GetCompact_def compact_parts_def bits_uint_nat_bits GetLow64_value)

lemma GetCompact_value:
  assumes "uint256 a" "0 < limb_value a"
  defines "k \<equiv> nat_bits (limb_value a) div 8 + 1"
  shows "GetCompact a = k * 2 ^ 24 + three_bytes (limb_value a) k"
proof -
  note parts = compact_parts_correct [OF assms(1,2), folded k_def]
  have "three_bytes (limb_value a) k < 2 ^ 24"
    using parts(2) by simp
  from push_or_low [OF this, of k] show ?thesis
    by (simp add: GetCompact_def parts(1) or.commute)
qed

text \<open>The two assertions of \<open>GetCompact\<close> hold: the mantissa fits into 23 bits, the count into a byte.\<close>

lemma GetCompact_asserts:
  assumes "uint256 a"
  shows "fst (compact_parts a) < 2 ^ 23 \<and> snd (compact_parts a) < 256"
proof (cases "limb_value a = 0")
  case True
  then show ?thesis
    using assms by (simp add: compact_parts_def bits_uint_nat_bits GetLow64_value)
next
  case False
  have "nat_bits (limb_value a) \<le> 256"
    by (rule is_bit_length_le [OF nat_bits_correct uint256_value_less [OF assms]])
  then show ?thesis
    using compact_parts_correct [OF assms] False by simp
qed

lemma three_bytes_back:
  assumes "0 < n" and "k = nat_bits n div 8 + 1"
  shows "(if k \<le> 3 then three_bytes n k div 256 ^ (3 - k) else three_bytes n k * 256 ^ (k - 3))
    = compact_round n"
proof -
  have "cut_bytes n = k - 3"
    using assms(2) by (simp add: cut_bytes_def)
  then show ?thesis
    by (simp add: compact_round_def three_bytes_def)
qed

text \<open>Writing and reading back rounds, and sets neither flag.\<close>

lemma SetCompact_GetCompact:
  assumes "uint256 a"
  shows "limb_value (compact_target (GetCompact a)) = compact_round (limb_value a) \<and>
    snd (SetCompact (GetCompact a)) = (False, False)"
proof (cases "limb_value a = 0")
  case True
  have "limb_value (of_uint64 0) = 0"
    by (rule limb_value_of_uint64) simp
  then show ?thesis
    using assms True by (simp add: GetCompact_zero SetCompact_def compact_round_def)
next
  case False
  define n k where "n = limb_value a" and "k = nat_bits n div 8 + 1"
  have n: "0 < n" "n < 2 ^ 256"
    using False uint256_value_less [OF assms] by (simp_all add: n_def)
  define m where "m = three_bytes n k"
  have m: "m < 2 ^ 23" and c: "GetCompact a = k * 2 ^ 24 + m"
    using compact_parts_correct [OF assms] GetCompact_value [OF assms] n(1)
    by (simp_all add: m_def n_def k_def)
  have "nat_bits n \<le> 256"
    by (rule is_bit_length_le [OF nat_bits_correct n(2)])
  then have k: "k \<le> 33"
    by (simp add: k_def)
  have size: "drop_bit 24 (k * 2 ^ 24 + m) = k"
    using m by (simp add: drop_bit_eq_div)
  have "(k * 2 ^ 24 + m) mod 2 ^ 23 = (m + 2 ^ 23 * (2 * k)) mod 2 ^ 23"
    by (simp add: algebra_simps)
  then have word: "(k * 2 ^ 24 + m) AND (2 ^ 23 - 1) = m"
    using m and_low_bits [of "k * 2 ^ 24 + m" 23] by (simp only: mod_mult_self2) simp
  have "(k * 2 ^ 24 + m) div 2 ^ 23 = 2 * k"
  proof -
    have "k * 2 ^ 24 + m = 2 ^ 23 * (2 * k) + m"
      by simp
    then show ?thesis
      using m by (simp only: div_mult_self4) simp
  qed
  then have positive: "\<not> bit (k * 2 ^ 24 + m) 23"
    by (simp only: bit_iff_odd) simp
  have restored: "(if k \<le> 3 then m div 256 ^ (3 - k) else m * 256 ^ (k - 3)) = compact_round n"
    unfolding m_def by (rule three_bytes_back [OF n(1) k_def])
  show ?thesis
  proof (cases "k \<le> 3")
    case True
    have "m < 2 ^ 64"
      using m by simp
    then have "m div 2 ^ (8 * (3 - k)) < 2 ^ 64"
      by (rule le_less_trans [OF div_le_dividend])
    then show ?thesis
      using True positive restored k unfolding c SetCompact_def Let_def size word
      by (simp add: limb_value_of_uint64 drop_bit_eq_div power_256 flip: n_def)
  next
    case False
    have exact: "m * 256 ^ (k - 3) < 2 ^ 256"
      using restored False compact_round_le [of n] n(2) by simp
    have "m \<le> 65535" if "32 < k"
    proof -
      have "m * 256 ^ 30 \<le> m * 256 ^ (k - 3)"
        using that by (intro mult_le_mono2 power_increasing) simp_all
      also have "\<dots> < 2 ^ 256"
        by (rule exact)
      also have "(2::nat) ^ 256 = 65536 * 256 ^ 30"
        by simp
      finally have "m * 256 ^ 30 < 65536 * 256 ^ 30" .
      then show ?thesis
        by (simp only: mult_less_cancel2) simp
    qed
    then have flags: "\<not> (34 < k \<or> 255 < m \<and> 33 < k \<or> 65535 < m \<and> 32 < k)"
      using k by auto
    have "m < 2 ^ 64"
      using m by simp
    then have "limb_value (shl_uint (of_uint64 m) (8 * (k - 3))) = compact_round n"
      using restored False exact by (simp only: limb_value_shl uint256_of_uint64 limb_value_of_uint64
          power_256 if_False mod_less)
    then show ?thesis
      using False positive flags unfolding c SetCompact_def Let_def size word
      by (simp only: if_False fst_conv snd_conv simp_thms n_def)
  qed
qed

text \<open>Rounding first makes no difference to what is written.\<close>

lemma three_bytes_round:
  assumes "k = nat_bits n div 8 + 1"
  shows "three_bytes (compact_round n) k = three_bytes n k"
proof (cases "k \<le> 3")
  case True
  then have "cut_bytes n = 0"
    using assms by (simp add: cut_bytes_def)
  then show ?thesis
    by (simp add: compact_round_def)
next
  case False
  then have "cut_bytes n = k - 3"
    using assms by (simp add: cut_bytes_def)
  with False show ?thesis
    by (simp add: three_bytes_def compact_round_def)
qed

lemma GetCompact_round:
  assumes "uint256 a" "uint256 b" "limb_value b = compact_round (limb_value a)"
  shows "GetCompact b = GetCompact a"
proof (cases "limb_value a = 0")
  case True
  then show ?thesis
    using assms by (simp add: GetCompact_zero compact_round_def)
next
  case False
  then have "0 < compact_round (limb_value a)"
    by (intro less_le_trans [OF _ compact_round_power]) simp_all
  then show ?thesis
    using False assms by (simp add: GetCompact_value nat_bits_round three_bytes_round)
qed

lemma GetCompact_less: "uint256 a \<Longrightarrow> GetCompact a < 2 ^ 32"
proof (cases "limb_value a = 0")
  case False
  assume a: "uint256 a"
  have "nat_bits (limb_value a) \<le> 256"
    by (rule is_bit_length_le [OF nat_bits_correct uint256_value_less [OF a]])
  then have "nat_bits (limb_value a) div 8 + 1 \<le> 33"
    by simp
  moreover have "three_bytes (limb_value a) (nat_bits (limb_value a) div 8 + 1) < 2 ^ 23"
    using compact_parts_correct(2) [OF a] False by simp
  ultimately show ?thesis
    using GetCompact_value [OF a] False by simp
qed (simp add: GetCompact_zero)

section \<open>Properties\<close>

text \<open>C23: A 256-bit number written in compact form and read back is neither negative nor overflowing,
  and it is the number rounded down by less than one part in \<open>2^15\<close>; a larger number never reads back
  smaller, and writing again what was read back gives the same 32 bits.\<close>

theorem compact_round_trip:
  assumes "uint256 a" "uint256 b" "limb_value a \<le> limb_value b"
  shows "GetCompact a < 2 ^ 32 \<and> snd (SetCompact (GetCompact a)) = (False, False) \<and>
    limb_value (compact_target (GetCompact a)) \<le> limb_value a \<and>
    (limb_value a - limb_value (compact_target (GetCompact a))) * 2 ^ 15 \<le> limb_value a \<and>
    limb_value (compact_target (GetCompact a)) \<le> limb_value (compact_target (GetCompact b)) \<and>
    GetCompact (compact_target (GetCompact a)) = GetCompact a"
proof -
  have "limb_value (compact_target (GetCompact a)) = compact_round (limb_value a)"
    "snd (SetCompact (GetCompact a)) = (False, False)"
    "limb_value (compact_target (GetCompact b)) = compact_round (limb_value b)"
    using SetCompact_GetCompact assms by auto
  moreover from this(1) have "GetCompact (compact_target (GetCompact a)) = GetCompact a"
    by (rule GetCompact_round [OF assms(1) uint256_SetCompact])
  ultimately show ?thesis
    using GetCompact_less [OF assms(1)] compact_round_le compact_round_loss compact_round_mono [OF assms(3)]
    by simp
qed

theorem compact_round_trip_witness:
  "GetCompact (compact_target (GetCompact (of_uint64 0x123456789a))) = GetCompact (of_uint64 0x123456789a) \<and>
   limb_value (compact_target (GetCompact (of_uint64 0x123456789a))) \<le> 0x123456789a"
  using compact_round_trip [of "of_uint64 0x123456789a" "of_uint64 0x123456789a"]
    limb_value_of_uint64 [of "0x123456789a"] by simp

end
