(* ===== verification/Chain_Index.thy ===== *)
theory Chain_Index
  imports Compact_Target "HOL-Library.Monad_Syntax"
begin

text \<open>
  The block index of the node: \<open>CBlockIndex\<close> (\<open>src/chain.h\<close>, \<open>src/chain.cpp\<close>) and
  \<open>AddToBlockIndex\<close> (\<open>src/node/blockstorage.cpp\<close>). The entries live in a map from block hashes, as
  in \<open>m_block_index\<close>; a pointer to an entry is its key, and a null pointer is \<open>None\<close>. An operation
  that may fail an assertion or divide by zero returns an option around its value. The index grown
  by \<open>AddToBlockIndex\<close> is a forest whose skip pointers are ancestors, and on such an index the jumps
  of \<open>GetAncestor\<close> end where the walk along \<open>pprev\<close> does.
\<close>

section \<open>Entries\<close>

type_synonym block_hash = nat

record block_header =
  hd_nVersion :: int
  hd_hashPrevBlock :: block_hash
  hd_hashMerkleRoot :: block_hash
  hd_nTime :: nat
  hd_nBits :: nat
  hd_nNonce :: nat

record block_index =
  bi_pprev :: "block_hash option"
  bi_pskip :: "block_hash option"
  bi_nHeight :: nat
  bi_nChainWork :: base_uint
  bi_nStatus :: nat
  bi_nVersion :: int
  bi_hashMerkleRoot :: block_hash
  bi_nTime :: nat
  bi_nBits :: nat
  bi_nNonce :: nat
  bi_nTimeMax :: nat

type_synonym block_map = "block_hash \<rightharpoonup> block_index"

definition CBlockIndex :: "block_header \<Rightarrow> block_index" where
  "CBlockIndex block =
     \<lparr>bi_pprev = None, bi_pskip = None, bi_nHeight = 0, bi_nChainWork = of_uint64 0, bi_nStatus = 0,
      bi_nVersion = hd_nVersion block, bi_hashMerkleRoot = hd_hashMerkleRoot block,
      bi_nTime = hd_nTime block, bi_nBits = hd_nBits block, bi_nNonce = hd_nNonce block,
      bi_nTimeMax = 0\<rparr>"

definition GetBlockHeader :: "block_index \<Rightarrow> block_header" where
  "GetBlockHeader b =
     \<lparr>hd_nVersion = bi_nVersion b,
      hd_hashPrevBlock = (case bi_pprev b of None \<Rightarrow> 0 | Some q \<Rightarrow> q),
      hd_hashMerkleRoot = bi_hashMerkleRoot b, hd_nTime = bi_nTime b, hd_nBits = bi_nBits b,
      hd_nNonce = bi_nNonce b\<rparr>"

abbreviation (input) BLOCK_VALID_TREE :: nat where "BLOCK_VALID_TREE \<equiv> 2"

abbreviation (input) BLOCK_VALID_MASK :: nat where "BLOCK_VALID_MASK \<equiv> 7"

abbreviation (input) BLOCK_FAILED_MASK :: nat where "BLOCK_FAILED_MASK \<equiv> 96"

definition RaiseValidity :: "nat \<Rightarrow> block_index \<Rightarrow> block_index \<times> bool" where
  "RaiseValidity nUpTo b =
     (if bi_nStatus b AND BLOCK_FAILED_MASK \<noteq> 0 then (b, False)
      else if bi_nStatus b AND BLOCK_VALID_MASK < nUpTo
      then (b\<lparr>bi_nStatus := push_bit 3 (drop_bit 3 (bi_nStatus b)) OR nUpTo\<rparr>, True)
      else (b, False))"

section \<open>Ancestors\<close>

definition InvertLowestOne :: "nat \<Rightarrow> nat" where
  "InvertLowestOne n = n AND (n - 1)"

definition GetSkipHeight :: "nat \<Rightarrow> nat" where
  "GetSkipHeight height =
     (if height < 2 then 0
      else if odd height then InvertLowestOne (InvertLowestOne (height - 1)) + 1
      else InvertLowestOne height)"

lemma InvertLowestOne_le: "InvertLowestOne n \<le> n - 1"
proof -
  have "int (n AND (n - 1)) \<le> int (n - 1)"
    by (simp only: of_nat_and_eq) (rule AND_upper2, simp)
  then show ?thesis
    by (simp add: InvertLowestOne_def)
qed

lemma GetSkipHeight_less: "0 < height \<Longrightarrow> GetSkipHeight height < height"
  using InvertLowestOne_le [of height] InvertLowestOne_le [of "height - 1"]
    InvertLowestOne_le [of "InvertLowestOne (height - 1)"]
  by (auto simp: GetSkipHeight_def)

text \<open>The loop of \<open>GetAncestor\<close>; \<open>None\<close> is the failed assertion on \<open>pprev\<close>.\<close>

function ancestor_walk :: "block_map \<Rightarrow> nat \<Rightarrow> block_hash \<Rightarrow> nat \<Rightarrow> block_hash option" where
  "ancestor_walk m height pindexWalk heightWalk =
     (if height < heightWalk
      then let heightSkip = GetSkipHeight heightWalk;
               heightSkipPrev = GetSkipHeight (heightWalk - 1)
           in do {
             b \<leftarrow> m pindexWalk;
             if bi_pskip b \<noteq> None \<and>
                (heightSkip = height \<or>
                 height < heightSkip \<and> \<not> (heightSkipPrev + 2 < heightSkip \<and> height \<le> heightSkipPrev))
             then ancestor_walk m height (the (bi_pskip b)) heightSkip
             else do {
               q \<leftarrow> bi_pprev b;
               ancestor_walk m height q (heightWalk - 1)
             }
           }
      else Some pindexWalk)"
  by pat_completeness auto
termination
  by (relation "measure (\<lambda>(m, height, p, heightWalk). heightWalk)") (auto intro: GetSkipHeight_less)

declare ancestor_walk.simps [simp del]

definition GetAncestor :: "block_map \<Rightarrow> block_hash \<Rightarrow> int \<Rightarrow> block_hash option option" where
  "GetAncestor m p height = do {
     b \<leftarrow> m p;
     if int (bi_nHeight b) < height \<or> height < 0 then Some None
     else map_option Some (ancestor_walk m (nat height) p (bi_nHeight b))
   }"

definition BuildSkip :: "block_map \<Rightarrow> block_index \<Rightarrow> block_index option" where
  "BuildSkip m b =
     (case bi_pprev b of
        None \<Rightarrow> Some b
      | Some q \<Rightarrow> map_option (\<lambda>s. b\<lparr>bi_pskip := s\<rparr>) (GetAncestor m q (int (GetSkipHeight (bi_nHeight b)))))"

section \<open>Work\<close>

text \<open>\<open>GetBlockProof\<close> depends on \<open>nBits\<close> alone; \<open>None\<close> is the division by zero.\<close>

definition GetBlockProof :: "nat \<Rightarrow> base_uint option" where
  "GetBlockProof nBits =
     (let (bnTarget, fNegative, fOverflow) = SetCompact nBits in
      if fNegative \<or> fOverflow \<or> bnTarget = of_uint64 0 then Some (of_uint64 0)
      else map_option (\<lambda>q. add_uint q (of_uint64 1))
             (div_uint (complement bnTarget) (add_uint bnTarget (of_uint64 1))))"

section \<open>Growing the index\<close>

record block_manager =
  m_block_index :: block_map
  m_best_header :: "block_hash option"
  m_dirty_blockindex :: "block_hash set"

definition work_less :: "block_map \<Rightarrow> block_hash \<Rightarrow> base_uint \<Rightarrow> bool" where
  "work_less m p w = (case m p of None \<Rightarrow> False | Some b \<Rightarrow> CompareTo (bi_nChainWork b) w < 0)"

text \<open>What a new entry takes from its predecessor, first the link and then the running totals.\<close>

definition link_entry :: "block_map \<Rightarrow> block_hash \<Rightarrow> block_header \<Rightarrow> block_index option" where
  "link_entry m h block =
     (let new = CBlockIndex block in
      case m (hd_hashPrevBlock block) of
        None \<Rightarrow> Some new
      | Some prev \<Rightarrow>
          let new = new\<lparr>bi_pprev := Some (hd_hashPrevBlock block), bi_nHeight := bi_nHeight prev + 1\<rparr>
          in BuildSkip (m(h \<mapsto> new)) new)"

definition total_entry :: "block_map \<Rightarrow> block_index \<Rightarrow> block_index option" where
  "total_entry m new =
     (let prev = Option.bind (bi_pprev new) m in
      map_option (\<lambda>work.
        fst (RaiseValidity BLOCK_VALID_TREE
          (new\<lparr>bi_nTimeMax := (case prev of None \<Rightarrow> bi_nTime new
                                | Some c \<Rightarrow> max (bi_nTimeMax c) (bi_nTime new)),
               bi_nChainWork :=
                 add_uint (case prev of None \<Rightarrow> of_uint64 0 | Some c \<Rightarrow> bi_nChainWork c) work\<rparr>)))
        (GetBlockProof (bi_nBits new)))"

text \<open>The entry is emplaced before its predecessor is looked up, so the look-up sees the entry
  itself.\<close>

definition AddToBlockIndex ::
  "(block_header \<Rightarrow> block_hash) \<Rightarrow> block_header \<Rightarrow> block_manager \<Rightarrow> (block_manager \<times> block_hash) option" where
  "AddToBlockIndex GetHash block bm =
     (let h = GetHash block; m = m_block_index bm in
      if m h \<noteq> None then Some (bm, h)
      else do {
        new \<leftarrow> link_entry (m(h \<mapsto> CBlockIndex block)) h block;
        new \<leftarrow> total_entry (m(h \<mapsto> new)) new;
        Some (bm\<lparr>m_block_index := m(h \<mapsto> new),
                 m_best_header :=
                   (case m_best_header bm of
                      None \<Rightarrow> Some h
                    | Some p \<Rightarrow>
                        if work_less (m(h \<mapsto> new)) p (bi_nChainWork new) then Some h else Some p),
                 m_dirty_blockindex := insert h (m_dirty_blockindex bm)\<rparr>, h)
      })"

section \<open>The work of a block\<close>

lemma compact_target_not_max: "limb_value (compact_target nBits) + 1 < 2 ^ 256"
proof -
  define w where "w = nBits AND (2 ^ 23 - 1)"
  have w: "w < 2 ^ 23"
    unfolding w_def by (rule mantissa_less)
  show ?thesis
  proof (cases "drop_bit 24 nBits \<le> 3")
    case True
    have "drop_bit (8 * (3 - drop_bit 24 nBits)) w \<le> w"
      by (simp add: drop_bit_eq_div)
    with w have "drop_bit (8 * (3 - drop_bit 24 nBits)) w < 2 ^ 23"
      by (rule le_less_trans [rotated])
    moreover have "compact_target nBits = of_uint64 (drop_bit (8 * (3 - drop_bit 24 nBits)) w)"
      using True by (simp add: SetCompact_def Let_def w_def)
    ultimately show ?thesis
      by (simp add: limb_value_of_uint64)
  next
    case False
    then have "limb_value (compact_target nBits) = (w * 2 ^ (8 * (drop_bit 24 nBits - 3))) mod 2 ^ 256"
      unfolding w_def by (intro compact_target_shift) simp
    moreover have "even (w * 2 ^ (8 * (drop_bit 24 nBits - 3)))"
      using False by simp
    ultimately have "even (limb_value (compact_target nBits))"
      by (metis dvd_mod_iff even_numeral even_power zero_less_numeral)
    moreover have "limb_value (compact_target nBits) < 2 ^ 256"
      by (rule uint256_value_less) simp
    moreover have "odd ((2::nat) ^ 256 - 1)"
      by simp
    ultimately show ?thesis
      by (metis Suc_eq_plus1 Suc_lessI diff_Suc_1)
  qed
qed

lemma uint256_zero_iff: "uint256 a \<Longrightarrow> a = of_uint64 0 \<longleftrightarrow> limb_value a = 0"
  using limb_value_inj [of a "of_uint64 0"] uint256_of_uint64 [of 0] limb_value_of_uint64 [of 0]
  by (auto simp: uint256_def simp del: uint256_of_uint64)

lemma div_complement:
  fixes t :: nat
  assumes "t + 1 < N" "0 < t"
  shows "(N - 1 - t) div (t + 1) + 1 = N div (t + 1)" "N div (t + 1) < N"
proof -
  have "N = (N - 1 - t) + (t + 1)"
    using assms by simp
  then show "(N - 1 - t) div (t + 1) + 1 = N div (t + 1)"
    by (metis Suc_eq_plus1 add_is_0 div_add_self2 one_neq_zero)
  show "N div (t + 1) < N"
    using assms by (intro div_less_dividend) simp_all
qed

lemma GetBlockProof_correct:
  "\<exists>w. GetBlockProof nBits = Some w \<and> uint256 w \<and>
     limb_value w =
       (if snd (SetCompact nBits) = (False, False) \<and> limb_value (compact_target nBits) \<noteq> 0
        then 2 ^ 256 div (limb_value (compact_target nBits) + 1) else 0)"
proof -
  obtain t neg ovf where s: "SetCompact nBits = (t, neg, ovf)"
    by (metis prod_cases3)
  have t: "uint256 t" "limb_value t + 1 < 2 ^ 256"
    using compact_target_not_max [of nBits] uint256_SetCompact [of nBits] by (simp_all add: s)
  show ?thesis
  proof (cases "\<not> neg \<and> \<not> ovf \<and> limb_value t \<noteq> 0")
    case True
    have one: "limb_value (of_uint64 1) = 1"
      by (rule limb_value_of_uint64) simp
    have succ: "limb_value (add_uint t (of_uint64 1)) = limb_value t + 1"
      unfolding limb_value_add [OF t(1) uint256_of_uint64] one by (rule mod_less) (rule t(2))
    obtain q where q: "div_uint (complement t) (add_uint t (of_uint64 1)) = Some q" "uint256 q"
      "limb_value q = (2 ^ 256 - 1 - limb_value t) div (limb_value t + 1)"
      using div_uint_correct [of "complement t" "add_uint t (of_uint64 1)"] t(1) succ
      by (auto simp: limb_value_complement)
    have pos: "0 < limb_value t"
      using True by simp
    have "limb_value (add_uint q (of_uint64 1)) = 2 ^ 256 div (limb_value t + 1)"
      unfolding limb_value_add [OF q(2) uint256_of_uint64] one q(3) div_complement(1) [OF t(2) pos]
      by (rule mod_less) (rule div_complement(2) [OF t(2) pos])
    then show ?thesis
      using True q(1,2) by (simp add: GetBlockProof_def s uint256_zero_iff [OF t(1)])
  next
    case False
    then show ?thesis
      by (auto simp: GetBlockProof_def s uint256_zero_iff [OF t(1)] limb_value_of_uint64)
  qed
qed

section \<open>A well-formed index\<close>

text \<open>\<open>n\<close> steps along \<open>pprev\<close>.\<close>

fun prev_steps :: "block_map \<Rightarrow> nat \<Rightarrow> block_hash \<Rightarrow> block_hash option" where
  "prev_steps m 0 p = Some p"
| "prev_steps m (Suc n) p = do { b \<leftarrow> m p; q \<leftarrow> bi_pprev b; prev_steps m n q }"

definition link_wf :: "block_map \<Rightarrow> block_hash \<Rightarrow> block_index \<Rightarrow> bool" where
  "link_wf m p b =
     (case bi_pprev b of
        None \<Rightarrow> bi_nHeight b = 0 \<and> bi_pskip b = None
      | Some q \<Rightarrow>
          (case m q of None \<Rightarrow> False | Some c \<Rightarrow> bi_nHeight b = bi_nHeight c + 1) \<and>
          bi_pskip b = prev_steps m (bi_nHeight b - GetSkipHeight (bi_nHeight b)) p)"

definition block_work :: "nat \<Rightarrow> nat" where
  "block_work nBits = limb_value (the (GetBlockProof nBits))"

definition total_wf :: "block_map \<Rightarrow> block_index \<Rightarrow> bool" where
  "total_wf m b \<longleftrightarrow>
     uint256 (bi_nChainWork b) \<and>
     (case Option.bind (bi_pprev b) m of
        None \<Rightarrow> bi_nTimeMax b = bi_nTime b \<and> limb_value (bi_nChainWork b) = block_work (bi_nBits b)
      | Some c \<Rightarrow> bi_nTimeMax b = max (bi_nTimeMax c) (bi_nTime b) \<and>
          limb_value (bi_nChainWork b) =
            (limb_value (bi_nChainWork c) + block_work (bi_nBits b)) mod 2 ^ 256)"

definition index_wf :: "block_map \<Rightarrow> bool" where
  "index_wf m \<longleftrightarrow> (\<forall>p b. m p = Some b \<longrightarrow> link_wf m p b \<and> total_wf m b)"

lemma index_wf_link: "index_wf m \<Longrightarrow> m p = Some b \<Longrightarrow> link_wf m p b"
  by (simp add: index_wf_def)

lemma index_wf_total: "index_wf m \<Longrightarrow> m p = Some b \<Longrightarrow> total_wf m b"
  by (simp add: index_wf_def)

lemma index_wf_prev:
  assumes "index_wf m" "m p = Some b" "bi_pprev b = Some q"
  obtains c where "m q = Some c" "bi_nHeight b = Suc (bi_nHeight c)"
  using index_wf_link [OF assms(1,2)] assms(3) by (auto simp: link_wf_def split: option.splits)

lemma index_wf_root: "index_wf m \<Longrightarrow> m p = Some b \<Longrightarrow> bi_pprev b = None \<longleftrightarrow> bi_nHeight b = 0"
  using index_wf_link [of m p b] by (auto simp: link_wf_def split: option.splits)

lemma index_wf_skip:
  "index_wf m \<Longrightarrow> m p = Some b \<Longrightarrow> bi_pskip b = Some s \<Longrightarrow>
     0 < bi_nHeight b \<and> prev_steps m (bi_nHeight b - GetSkipHeight (bi_nHeight b)) p = Some s"
  using index_wf_link [of m p b] by (auto simp: link_wf_def split: option.splits)

lemma prev_steps_add: "prev_steps m (i + j) p = Option.bind (prev_steps m i p) (prev_steps m j)"
proof (induction i arbitrary: p)
  case (Suc i)
  then have "prev_steps m (i + j) = (\<lambda>q. Option.bind (prev_steps m i q) (prev_steps m j))"
    by (rule ext)
  then show ?case
    by simp
qed simp

lemma prev_steps_total:
  assumes "index_wf m" "m p = Some b" "n \<le> bi_nHeight b"
  shows "\<exists>q c. prev_steps m n p = Some q \<and> m q = Some c \<and> bi_nHeight c = bi_nHeight b - n"
  using assms(2,3)
proof (induction n arbitrary: p b)
  case (Suc n)
  then obtain q where q: "bi_pprev b = Some q"
    using index_wf_root [OF assms(1) Suc.prems(1)] by auto
  obtain c where "m q = Some c" "bi_nHeight b = Suc (bi_nHeight c)"
    using index_wf_prev [OF assms(1) Suc.prems(1) q] .
  then show ?case
    using Suc.IH [of q c] Suc.prems q by simp
qed simp

lemma prev_steps_past:
  assumes "index_wf m" "m p = Some b" "bi_nHeight b < n"
  shows "prev_steps m n p = None"
  using assms(2,3)
proof (induction n arbitrary: p b)
  case (Suc n)
  show ?case
  proof (cases "bi_pprev b")
    case (Some q)
    then obtain c where "m q = Some c" "bi_nHeight b = Suc (bi_nHeight c)"
      using index_wf_prev [OF assms(1) Suc.prems(1)] by blast
    then show ?thesis
      using Suc.IH [of q c] Suc.prems Some by simp
  qed (use Suc.prems in simp)
qed simp

lemma index_wf_has_skip:
  assumes "index_wf m" "m p = Some b" "0 < bi_nHeight b"
  shows "\<exists>s. bi_pskip b = Some s"
  using prev_steps_total [OF assms(1,2), of "bi_nHeight b - GetSkipHeight (bi_nHeight b)"]
    index_wf_link [OF assms(1,2)] assms(3)
  by (auto simp: link_wf_def split: option.splits)

lemma index_wf_skip_entry:
  assumes "index_wf m" "m p = Some b" "bi_pskip b = Some s"
  obtains c where "m s = Some c" "bi_nHeight c = GetSkipHeight (bi_nHeight b)"
proof -
  have "0 < bi_nHeight b" "prev_steps m (bi_nHeight b - GetSkipHeight (bi_nHeight b)) p = Some s"
    using index_wf_skip [OF assms] by simp_all
  then show ?thesis
    using prev_steps_total [OF assms(1,2), of "bi_nHeight b - GetSkipHeight (bi_nHeight b)"]
      GetSkipHeight_less [of "bi_nHeight b"] that by auto
qed

text \<open>The jumps of \<open>GetAncestor\<close> agree with the steps.\<close>

lemma ancestor_walk_steps:
  assumes "index_wf m" "m p = Some b" "bi_nHeight b = heightWalk" "height \<le> heightWalk"
  shows "ancestor_walk m height p heightWalk = prev_steps m (heightWalk - height) p"
  using assms
proof (induction m height p heightWalk arbitrary: b rule: ancestor_walk.induct)
  case (1 m height p hw)
  show ?case
  proof (cases "height < hw")
    case False
    then show ?thesis
      using 1(6) by (subst ancestor_walk.simps) simp
  next
    case True
    let ?hs = "GetSkipHeight hw" and ?hp = "GetSkipHeight (hw - 1)"
    let ?c = "bi_pskip b \<noteq> None \<and>
       (?hs = height \<or> height < ?hs \<and> \<not> (?hp + 2 < ?hs \<and> height \<le> ?hp))"
    show ?thesis
    proof (cases ?c)
      case jump: True
      then obtain s where s: "bi_pskip b = Some s"
        by blast
      have less: "?hs < hw"
        using True by (intro GetSkipHeight_less) simp
      have steps: "prev_steps m (hw - ?hs) p = Some s"
        using index_wf_skip [OF 1(3,4) s] 1(5) by simp
      obtain c where c: "m s = Some c" "bi_nHeight c = ?hs"
        using index_wf_skip_entry [OF 1(3,4) s] 1(5) by auto
      have "ancestor_walk m height p hw = ancestor_walk m height s ?hs"
        using True jump 1(4) s by (subst ancestor_walk.simps) (simp add: Let_def)
      also have "\<dots> = prev_steps m (?hs - height) s"
        using 1(1) [OF True refl refl 1(4) jump, of c] c s jump 1(3) by fastforce
      also have "\<dots> = prev_steps m ((hw - ?hs) + (?hs - height)) p"
        unfolding prev_steps_add steps by simp
      also have "(hw - ?hs) + (?hs - height) = hw - height"
        using jump less by auto
      finally show ?thesis .
    next
      case walk: False
      obtain q where q: "bi_pprev b = Some q"
        using index_wf_root [OF 1(3,4)] True 1(5) by auto
      obtain c where c: "m q = Some c" "bi_nHeight b = Suc (bi_nHeight c)"
        using index_wf_prev [OF 1(3,4) q] .
      have "ancestor_walk m height p hw = ancestor_walk m height q (hw - 1)"
        using True walk 1(4) q by (subst ancestor_walk.simps) (auto simp: Let_def)
      also have "\<dots> = prev_steps m (hw - 1 - height) q"
        using 1(2) [OF True refl refl 1(4) walk q, of c] c 1(3,5) True by auto
      also have "\<dots> = prev_steps m (Suc (hw - 1 - height)) p"
        using 1(4) q by simp
      also have "Suc (hw - 1 - height) = hw - height"
        using True by simp
      finally show ?thesis .
    qed
  qed
qed

lemma GetAncestor_steps:
  assumes "index_wf m" "m p = Some b"
  shows "GetAncestor m p height =
    Some (if 0 \<le> height \<and> height \<le> int (bi_nHeight b)
          then prev_steps m (bi_nHeight b - nat height) p else None)"
proof (cases "0 \<le> height \<and> height \<le> int (bi_nHeight b)")
  case True
  then have "nat height \<le> bi_nHeight b"
    by (simp add: nat_le_iff)
  with True show ?thesis
    using ancestor_walk_steps [OF assms refl, of "nat height"]
      prev_steps_total [OF assms, of "bi_nHeight b - nat height"] assms(2)
    by (auto simp: GetAncestor_def)
qed (use assms in \<open>auto simp: GetAncestor_def\<close>)

section \<open>Every addition keeps the index well-formed\<close>

text \<open>A fresh entry is out of reach of the old ones.\<close>

lemma prev_steps_extend:
  assumes "index_wf m" "m h = None" "m p = Some b"
  shows "prev_steps (m(h \<mapsto> x)) n p = prev_steps m n p"
  using assms(3)
proof (induction n arbitrary: p b)
  case (Suc n)
  then have "p \<noteq> h"
    using assms(2) by auto
  show ?case
  proof (cases "bi_pprev b")
    case (Some q)
    then obtain c where "m q = Some c"
      using index_wf_prev [OF assms(1) Suc.prems] by blast
    then show ?thesis
      using Suc.IH [of q c] Suc.prems Some \<open>p \<noteq> h\<close> by simp
  qed (use Suc.prems \<open>p \<noteq> h\<close> in simp)
qed simp

lemma ancestor_walk_extend:
  assumes "index_wf m" "m h = None" "m p = Some b" "bi_nHeight b = hw"
  shows "ancestor_walk (m(h \<mapsto> x)) height p hw = ancestor_walk m height p hw"
  using assms(3,4)
proof (induction hw arbitrary: p b rule: less_induct)
  case (less hw)
  then have ph: "p \<noteq> h"
    using assms(2) by auto
  have jump: "ancestor_walk (m(h \<mapsto> x)) height s (GetSkipHeight hw) = ancestor_walk m height s (GetSkipHeight hw)"
    if s: "bi_pskip b = Some s" for s
    using index_wf_skip_entry [OF assms(1) less.prems(1) s] index_wf_skip [OF assms(1) less.prems(1) s]
      less.IH [of "GetSkipHeight hw" s] GetSkipHeight_less [of hw] less.prems(2) by metis
  have walk: "Option.bind (bi_pprev b) (\<lambda>q. ancestor_walk (m(h \<mapsto> x)) height q (hw - 1)) =
      Option.bind (bi_pprev b) (\<lambda>q. ancestor_walk m height q (hw - 1))"
  proof (cases "bi_pprev b")
    case (Some q)
    then show ?thesis
      using index_wf_prev [OF assms(1) less.prems(1) Some] less.IH [of "hw - 1" q] less.prems(2)
      by (metis bind.bind_lunit diff_Suc_1 lessI)
  qed simp
  show ?case
    using jump walk less.prems(1) ph
    by (subst (1 2) ancestor_walk.simps) (auto simp: Let_def)
qed

lemma GetAncestor_extend:
  assumes "index_wf m" "m h = None" "m p = Some b"
  shows "GetAncestor (m(h \<mapsto> x)) p height = GetAncestor m p height"
proof -
  have "p \<noteq> h"
    using assms by auto
  then show ?thesis
    using assms(3) by (simp add: GetAncestor_def ancestor_walk_extend [OF assms refl])
qed

lemma link_wf_extend:
  assumes "index_wf m" "m h = None" "m p = Some b"
  shows "link_wf (m(h \<mapsto> x)) p b \<and> total_wf (m(h \<mapsto> x)) b"
proof (cases "bi_pprev b")
  case None
  then show ?thesis
    using index_wf_link [OF assms(1,3)] index_wf_total [OF assms(1,3)]
    by (simp add: link_wf_def total_wf_def)
next
  case (Some q)
  then obtain c where "m q = Some c"
    using index_wf_prev [OF assms(1,3)] by blast
  moreover from this have "q \<noteq> h"
    using assms(2) by auto
  ultimately show ?thesis
    using index_wf_link [OF assms(1,3)] index_wf_total [OF assms(1,3)] Some prev_steps_extend [OF assms]
    by (simp add: link_wf_def total_wf_def)
qed

lemma index_wf_insert:
  assumes "index_wf m" "m h = None" "link_wf (m(h \<mapsto> new)) h new" "total_wf (m(h \<mapsto> new)) new"
  shows "index_wf (m(h \<mapsto> new))"
  using link_wf_extend [OF assms(1,2)] assms(3,4) by (auto simp: index_wf_def)

lemma RaiseValidity_entry: "\<exists>st. fst (RaiseValidity nUpTo b) = b\<lparr>bi_nStatus := st\<rparr>"
proof (cases "fst (RaiseValidity nUpTo b) = b")
  case True
  then have "fst (RaiseValidity nUpTo b) = b\<lparr>bi_nStatus := bi_nStatus b\<rparr>"
    by simp
  then show ?thesis ..
qed (auto simp: RaiseValidity_def split: if_splits)

definition entry_of :: "block_map \<Rightarrow> block_header \<Rightarrow> block_index \<Rightarrow> bool" where
  "entry_of m block b \<longleftrightarrow>
     bi_pprev b = (if m (hd_hashPrevBlock block) = None then None else Some (hd_hashPrevBlock block)) \<and>
     bi_nVersion b = hd_nVersion block \<and> bi_hashMerkleRoot b = hd_hashMerkleRoot block \<and>
     bi_nTime b = hd_nTime block \<and> bi_nBits b = hd_nBits block \<and> bi_nNonce b = hd_nNonce block"

definition linked :: "block_map \<Rightarrow> block_hash \<Rightarrow> block_header \<Rightarrow> block_index \<Rightarrow> bool" where
  "linked m h block new \<longleftrightarrow> link_wf (m(h \<mapsto> new)) h new \<and> entry_of m block new"

lemma link_entry_linked:
  assumes "index_wf m" "m h = None" "hd_hashPrevBlock block \<noteq> h"
  shows "\<exists>new. link_entry (m(h \<mapsto> CBlockIndex block)) h block = Some new \<and> linked m h block new"
proof (cases "m (hd_hashPrevBlock block)")
  case None
  then show ?thesis
    using assms(3) by (simp add: link_entry_def linked_def entry_of_def link_wf_def CBlockIndex_def)
next
  case (Some c)
  let ?q = "hd_hashPrevBlock block" and ?k = "GetSkipHeight (Suc (bi_nHeight c))"
  have k: "?k \<le> bi_nHeight c"
    using GetSkipHeight_less [of "Suc (bi_nHeight c)"] by simp
  obtain s where s: "prev_steps m (bi_nHeight c - ?k) ?q = Some s"
    using prev_steps_total [OF assms(1) Some, of "bi_nHeight c - ?k"] by auto
  have anc: "GetAncestor (m(h \<mapsto> x)) ?q (int ?k) = Some (Some s)" for x
    using GetAncestor_extend [OF assms(1,2) Some] GetAncestor_steps [OF assms(1) Some, of "int ?k"] k s
    by simp
  have steps: "prev_steps (m(h \<mapsto> x)) (Suc (bi_nHeight c) - ?k) h = Some s" if "bi_pprev x = Some ?q" for x
    using that s k prev_steps_extend [OF assms(1,2) Some] by (simp add: Suc_diff_le)
  have twice: "m(h \<mapsto> x, h \<mapsto> y) = m(h \<mapsto> y)" for x y
    by simp
  show ?thesis
    using Some assms(3) anc steps
    by (auto simp: link_entry_def BuildSkip_def linked_def entry_of_def link_wf_def CBlockIndex_def Let_def twice)
qed

lemma link_wf_cong:
  assumes "index_wf m" "m h = None" "bi_pprev x \<noteq> Some h"
    and "bi_pprev y = bi_pprev x" "bi_pskip y = bi_pskip x" "bi_nHeight y = bi_nHeight x"
    and "link_wf (m(h \<mapsto> x)) h x"
  shows "link_wf (m(h \<mapsto> y)) h y"
proof (cases "bi_pprev x")
  case (Some q)
  then obtain c where c: "m q = Some c"
    using assms(3,7) by (auto simp: link_wf_def split: option.splits if_splits)
  have "prev_steps (m(h \<mapsto> y)) n h = prev_steps (m(h \<mapsto> x)) n h" for n
    using Some assms(4) by (cases n) (simp_all add: prev_steps_extend [OF assms(1,2) c])
  then show ?thesis
    using assms(3-7) Some c by (simp add: link_wf_def)
qed (use assms in \<open>simp add: link_wf_def\<close>)

lemma total_entry_wf:
  assumes "index_wf m" "m h = None" "linked m h block new" "hd_hashPrevBlock block \<noteq> h"
  shows "\<exists>new'. total_entry (m(h \<mapsto> new)) new = Some new' \<and> linked m h block new' \<and>
    total_wf (m(h \<mapsto> new')) new'"
proof -
  obtain w where w: "GetBlockProof (bi_nBits new) = Some w" "uint256 w"
    using GetBlockProof_correct [of "bi_nBits new"] by auto
  define prev where "prev = Option.bind (bi_pprev new) m"
  have not_h: "bi_pprev new \<noteq> Some h"
    using assms(3,4) by (simp add: linked_def entry_of_def)
  then have prev: "Option.bind (bi_pprev new) (m(h \<mapsto> x)) = prev" for x
    by (cases "bi_pprev new") (simp_all add: prev_def)
  have prev_u: "uint256 (bi_nChainWork c)" if "prev = Some c" for c
    using that index_wf_total [OF assms(1)] by (auto simp: prev_def total_wf_def bind_eq_Some_conv)
  define new' where "new' = new\<lparr>bi_nTimeMax := (case prev of None \<Rightarrow> bi_nTime new
       | Some c \<Rightarrow> max (bi_nTimeMax c) (bi_nTime new)),
     bi_nChainWork := add_uint (case prev of None \<Rightarrow> of_uint64 0 | Some c \<Rightarrow> bi_nChainWork c) w\<rparr>"
  obtain st where st: "fst (RaiseValidity BLOCK_VALID_TREE new') = new'\<lparr>bi_nStatus := st\<rparr>"
    using RaiseValidity_entry by blast
  have "total_entry (m(h \<mapsto> new)) new = Some (new'\<lparr>bi_nStatus := st\<rparr>)"
    using st unfolding total_entry_def prev w(1) Let_def option.map new'_def by simp
  moreover have "linked m h block (new'\<lparr>bi_nStatus := st\<rparr>)"
    using assms(3) link_wf_cong [OF assms(1,2) not_h, of "new'\<lparr>bi_nStatus := st\<rparr>"]
    by (simp add: linked_def entry_of_def new'_def)
  moreover have "total_wf (m(h \<mapsto> new'\<lparr>bi_nStatus := st\<rparr>)) (new'\<lparr>bi_nStatus := st\<rparr>)"
  proof -
    have "block_work (bi_nBits new) < 2 ^ 256"
      using w uint256_value_less [of w] by (simp add: block_work_def)
    then show ?thesis
      using prev prev_u w
      by (simp add: total_wf_def new'_def limb_value_add block_work_def limb_value_of_uint64
          split: option.splits)
  qed
  ultimately show ?thesis
    by blast
qed

definition manager_wf :: "block_manager \<Rightarrow> bool" where
  "manager_wf bm \<longleftrightarrow>
     index_wf (m_block_index bm) \<and>
     (case m_best_header bm of
        None \<Rightarrow> m_block_index bm = Map.empty
      | Some p \<Rightarrow> \<exists>b. m_block_index bm p = Some b \<and>
          (\<forall>q c. m_block_index bm q = Some c \<longrightarrow>
             limb_value (bi_nChainWork c) \<le> limb_value (bi_nChainWork b)))"

lemma work_less_iff:
  assumes "index_wf m" "m p = Some b" "uint256 w"
  shows "work_less m p w \<longleftrightarrow> limb_value (bi_nChainWork b) < limb_value w"
proof -
  have "uint256 (bi_nChainWork b)"
    using index_wf_total [OF assms(1,2)] by (simp add: total_wf_def)
  then show ?thesis
    using CompareTo_nonneg [of "bi_nChainWork b" w] assms(2,3) by (simp add: work_less_def) linarith
qed

lemma manager_wf_best:
  assumes wf: "manager_wf bm" and fresh: "m_block_index bm h = None"
    and wf': "index_wf ((m_block_index bm)(h \<mapsto> new))"
  shows "manager_wf (bm\<lparr>m_block_index := (m_block_index bm)(h \<mapsto> new),
    m_best_header := (case m_best_header bm of
       None \<Rightarrow> Some h
     | Some p \<Rightarrow> if work_less ((m_block_index bm)(h \<mapsto> new)) p (bi_nChainWork new) then Some h else Some p),
    m_dirty_blockindex := d\<rparr>)"
proof (cases "m_best_header bm")
  case None
  then show ?thesis
    using wf wf' by (simp add: manager_wf_def)
next
  case (Some p)
  then obtain b where b: "m_block_index bm p = Some b"
    "\<And>q c. m_block_index bm q = Some c \<Longrightarrow> limb_value (bi_nChainWork c) \<le> limb_value (bi_nChainWork b)"
    using wf by (auto simp: manager_wf_def)
  then have ph: "p \<noteq> h"
    using fresh by auto
  have "uint256 (bi_nChainWork new)"
    using index_wf_total [OF wf', of h new] by (simp add: total_wf_def)
  then have less: "work_less ((m_block_index bm)(h \<mapsto> new)) p (bi_nChainWork new) \<longleftrightarrow>
      limb_value (bi_nChainWork b) < limb_value (bi_nChainWork new)"
    using work_less_iff [OF wf'] b(1) ph by simp
  show ?thesis
  proof (cases "limb_value (bi_nChainWork b) < limb_value (bi_nChainWork new)")
    case True
    then show ?thesis
      using wf' less Some b(2) by (auto simp: manager_wf_def intro: less_imp_le le_less_trans)
  next
    case False
    then show ?thesis
      using wf' less Some b ph by (auto simp: manager_wf_def)
  qed
qed

lemma AddToBlockIndex_known:
  "m_block_index bm (GetHash block) = Some b \<Longrightarrow> AddToBlockIndex GetHash block bm = Some (bm, GetHash block)"
  by (simp add: AddToBlockIndex_def)

lemma AddToBlockIndex_new:
  assumes "manager_wf bm" "m_block_index bm (GetHash block) = None" "hd_hashPrevBlock block \<noteq> GetHash block"
  shows "\<exists>bm' new. AddToBlockIndex GetHash block bm = Some (bm', GetHash block) \<and> manager_wf bm' \<and>
    m_block_index bm' = (m_block_index bm)(GetHash block \<mapsto> new) \<and> entry_of (m_block_index bm) block new"
proof -
  let ?m = "m_block_index bm" and ?h = "GetHash block"
  have wf: "index_wf ?m"
    using assms(1) by (simp add: manager_wf_def)
  obtain new0 where n0: "link_entry (?m(?h \<mapsto> CBlockIndex block)) ?h block = Some new0" "linked ?m ?h block new0"
    using link_entry_linked [OF wf assms(2,3)] by blast
  obtain new where n: "total_entry (?m(?h \<mapsto> new0)) new0 = Some new" "linked ?m ?h block new"
    "total_wf (?m(?h \<mapsto> new)) new"
    using total_entry_wf [OF wf assms(2) n0(2) assms(3)] by blast
  have wf': "index_wf (?m(?h \<mapsto> new))"
    using index_wf_insert [OF wf assms(2) _ n(3)] n(2) by (simp add: linked_def)
  show ?thesis
    using manager_wf_best [OF assms(1,2) wf'] n0(1) n(1,2) assms(2)
    by (auto simp: AddToBlockIndex_def Let_def linked_def)
qed

lemma AddToBlockIndex_total:
  assumes "manager_wf bm" "hd_hashPrevBlock block \<noteq> GetHash block"
  obtains bm' where "AddToBlockIndex GetHash block bm = Some (bm', GetHash block)"
  using AddToBlockIndex_new [of bm GetHash block, OF assms(1) _ assms(2)]
    AddToBlockIndex_known [of bm GetHash block]
  by (cases "m_block_index bm (GetHash block)") auto

text \<open>The managers that the additions of headers lead to.\<close>

definition empty_manager :: block_manager where
  "empty_manager = \<lparr>m_block_index = Map.empty, m_best_header = None, m_dirty_blockindex = {}\<rparr>"

inductive index_reachable :: "(block_header \<Rightarrow> block_hash) \<Rightarrow> block_manager \<Rightarrow> bool" for GetHash where
  index_empty: "index_reachable GetHash empty_manager"
| index_add: "index_reachable GetHash bm \<Longrightarrow> hd_hashPrevBlock block \<noteq> GetHash block \<Longrightarrow>
    AddToBlockIndex GetHash block bm = Some (bm', h) \<Longrightarrow> index_reachable GetHash bm'"

lemma index_reachable_wf: "index_reachable GetHash bm \<Longrightarrow> manager_wf bm"
proof (induction rule: index_reachable.induct)
  case index_empty
  then show ?case
    by (simp add: empty_manager_def manager_wf_def index_wf_def)
next
  case (index_add bm block bm' h)
  then show ?case
    using AddToBlockIndex_new [of bm GetHash block] AddToBlockIndex_known [of bm GetHash block]
    by (cases "m_block_index bm (GetHash block)") auto
qed

lemma manager_wf_index: "manager_wf bm \<Longrightarrow> index_wf (m_block_index bm)"
  by (simp add: manager_wf_def)

section \<open>Properties\<close>

text \<open>C16: On an index grown header by header, \<open>GetAncestor\<close> never fails its assertion, and the block it
  reaches over the skip pointers is the one that as many steps along \<open>pprev\<close> reach: the ancestor at
  the height asked for, which exists for every height from 0 to the block's own; for any other height
  the answer is the null pointer.\<close>

theorem ancestor_by_skip_pointers:
  assumes "index_reachable GetHash bm" "m_block_index bm p = Some b"
  shows "(0 \<le> height \<and> height \<le> int (bi_nHeight b) \<longrightarrow>
     (\<exists>q c. GetAncestor (m_block_index bm) p height = Some (Some q) \<and>
        prev_steps (m_block_index bm) (bi_nHeight b - nat height) p = Some q \<and>
        m_block_index bm q = Some c \<and> int (bi_nHeight c) = height)) \<and>
    (height < 0 \<or> int (bi_nHeight b) < height \<longrightarrow> GetAncestor (m_block_index bm) p height = Some None)"
proof -
  have wf: "index_wf (m_block_index bm)"
    by (rule manager_wf_index [OF index_reachable_wf [OF assms(1)]])
  show ?thesis
    using GetAncestor_steps [OF wf assms(2), of height]
      prev_steps_total [OF wf assms(2), of "bi_nHeight b - nat height"]
    by (auto simp: nat_le_iff)
qed

text \<open>Four headers in a row, for the witnesses: block \<open>n\<close> has hash \<open>n\<close> and follows block \<open>n - 1\<close>.\<close>

definition example_header :: "nat \<Rightarrow> block_header" where
  "example_header n = \<lparr>hd_nVersion = 1, hd_hashPrevBlock = n - 1, hd_hashMerkleRoot = 0,
     hd_nTime = 10 * n, hd_nBits = 0x1d00ffff, hd_nNonce = n\<rparr>"

fun example_index :: "nat \<Rightarrow> block_manager" where
  "example_index 0 = empty_manager"
| "example_index (Suc n) = fst (the (AddToBlockIndex hd_nNonce (example_header (Suc n)) (example_index n)))"

lemma example_step:
  assumes "index_reachable hd_nNonce (example_index n)"
  shows "index_reachable hd_nNonce (example_index (Suc n)) \<and>
    (m_block_index (example_index n) (Suc n) = None \<longrightarrow>
       (\<exists>new. m_block_index (example_index (Suc n)) = (m_block_index (example_index n))(Suc n \<mapsto> new) \<and>
          entry_of (m_block_index (example_index n)) (example_header (Suc n)) new))"
proof -
  let ?h = "example_header (Suc n)"
  have h: "hd_hashPrevBlock ?h \<noteq> hd_nNonce ?h" "hd_nNonce ?h = Suc n"
    by (simp_all add: example_header_def)
  note add = AddToBlockIndex_new [where GetHash = hd_nNonce and block = ?h, OF index_reachable_wf [OF assms] _ h(1)]
  show ?thesis
  proof (cases "m_block_index (example_index n) (Suc n)")
    case None
    then obtain bm' new where "AddToBlockIndex hd_nNonce ?h (example_index n) = Some (bm', Suc n)"
      "m_block_index bm' = (m_block_index (example_index n))(Suc n \<mapsto> new)"
      "entry_of (m_block_index (example_index n)) ?h new"
      using add h(2) by auto
    then show ?thesis
      using index_add [OF assms h(1)] by auto
  next
    case (Some b)
    then show ?thesis
      using AddToBlockIndex_known [of "example_index n" hd_nNonce ?h b] assms h(2) by simp
  qed
qed

lemma example_reachable: "index_reachable hd_nNonce (example_index n)"
  by (induction n) (simp_all add: index_empty example_step del: example_index.simps(2))

lemma example_domain: "m_block_index (example_index n) k \<noteq> None \<longleftrightarrow> 1 \<le> k \<and> k \<le> n"
proof (induction n arbitrary: k)
  case (Suc n)
  have "m_block_index (example_index n) (Suc n) = None"
    using Suc [of "Suc n"] by simp
  then show ?case
    using example_step [OF example_reachable, of n] Suc [of k]
    by (cases "k = Suc n") (auto simp del: example_index.simps)
qed (simp add: empty_manager_def)

lemma example_entry:
  "m_block_index (example_index n) k = Some b \<Longrightarrow>
     bi_pprev b = (if k = 1 then None else Some (k - 1)) \<and> bi_nBits b = 0x1d00ffff \<and> bi_nTime b = 10 * k"
proof (induction n)
  case (Suc n)
  have "m_block_index (example_index n) (Suc n) = None"
    using example_domain [of n "Suc n"] by simp
  then obtain new where new: "m_block_index (example_index (Suc n)) = (m_block_index (example_index n))(Suc n \<mapsto> new)"
    "entry_of (m_block_index (example_index n)) (example_header (Suc n)) new"
    using example_step [OF example_reachable, of n] by auto
  show ?case
  proof (cases "k = Suc n")
    case True
    then show ?thesis
      using new Suc.prems example_domain [of n n] by (auto simp: entry_of_def example_header_def)
  qed (use new Suc in simp)
qed (simp add: empty_manager_def)

lemma example_prev:
  "m_block_index (example_index n) k = Some b \<Longrightarrow> bi_pprev b = (if k = 1 then None else Some (k - 1))"
  using example_entry by blast

lemma example_height:
  "m_block_index (example_index n) k = Some b \<Longrightarrow> bi_nHeight b = k - 1"
proof (induction k arbitrary: b)
  case (Suc k)
  have wf: "index_wf (m_block_index (example_index n))"
    by (rule manager_wf_index [OF index_reachable_wf [OF example_reachable]])
  show ?case
  proof (cases k)
    case 0
    then show ?thesis
      using index_wf_root [OF wf Suc.prems] example_prev [OF Suc.prems] by simp
  next
    case j: (Suc j)
    then have "bi_pprev b = Some k"
      using example_prev [OF Suc.prems] by simp
    then obtain c where "m_block_index (example_index n) k = Some c" "bi_nHeight b = Suc (bi_nHeight c)"
      by (rule index_wf_prev [OF wf Suc.prems])
    then show ?thesis
      using Suc.IH j by simp
  qed
qed (use example_domain [of n 0] in simp)

theorem ancestor_by_skip_pointers_witness:
  "\<exists>q c. GetAncestor (m_block_index (example_index 4)) 4 1 = Some (Some q) \<and>
     prev_steps (m_block_index (example_index 4)) 2 4 = Some q \<and>
     m_block_index (example_index 4) q = Some c \<and> bi_nHeight c = 1"
proof -
  obtain b where b: "m_block_index (example_index 4) 4 = Some b"
    using example_domain [of 4 4] by auto
  have "bi_nHeight b = 3"
    using example_height [OF b] by simp
  then show ?thesis
    using ancestor_by_skip_pointers [OF example_reachable b, of 1] by simp
qed

text \<open>C17: Adding a header never fails. It leaves every entry already there as it was; a new header is
  linked to its predecessor, can be read back from the entry, and its chain work is that of the
  predecessor plus its own (as a 256-bit number). Afterwards the best header is an entry with the
  most chain work of all.\<close>

theorem header_added:
  assumes "index_reachable GetHash bm" "hd_hashPrevBlock block \<noteq> GetHash block"
  shows "\<exists>bm' b p best. AddToBlockIndex GetHash block bm = Some (bm', GetHash block) \<and>
    m_block_index bm' (GetHash block) = Some b \<and>
    (\<forall>q c. m_block_index bm q = Some c \<longrightarrow> m_block_index bm' q = Some c) \<and>
    (m_block_index bm (GetHash block) = None \<longrightarrow>
       (case m_block_index bm (hd_hashPrevBlock block) of
          None \<Rightarrow> bi_nHeight b = 0 \<and> limb_value (bi_nChainWork b) = block_work (hd_nBits block)
        | Some c \<Rightarrow> GetBlockHeader b = block \<and> bi_nHeight b = bi_nHeight c + 1 \<and>
            limb_value (bi_nChainWork b) =
              (limb_value (bi_nChainWork c) + block_work (hd_nBits block)) mod 2 ^ 256)) \<and>
    m_best_header bm' = Some p \<and> m_block_index bm' p = Some best \<and>
    (\<forall>q c. m_block_index bm' q = Some c \<longrightarrow> limb_value (bi_nChainWork c) \<le> limb_value (bi_nChainWork best))"
proof (cases "m_block_index bm (GetHash block)")
  case (Some b)
  have "manager_wf bm"
    by (rule index_reachable_wf [OF assms(1)])
  then show ?thesis
    using Some AddToBlockIndex_known [of bm GetHash block b]
    by (auto simp: manager_wf_def split: option.splits)
next
  case None
  let ?h = "GetHash block" and ?q = "hd_hashPrevBlock block"
  have wf: "manager_wf bm"
    by (rule index_reachable_wf [OF assms(1)])
  obtain bm' new where new: "AddToBlockIndex GetHash block bm = Some (bm', ?h)" "manager_wf bm'"
    "m_block_index bm' = (m_block_index bm)(?h \<mapsto> new)" "entry_of (m_block_index bm) block new"
    using AddToBlockIndex_new [of bm GetHash block, OF wf None assms(2)] by blast
  have b: "m_block_index bm' ?h = Some new"
    by (simp add: new(3))
  note entry = index_wf_link [OF manager_wf_index [OF new(2)] b]
    index_wf_total [OF manager_wf_index [OF new(2)] b]
  have totals: "case m_block_index bm ?q of
        None \<Rightarrow> bi_nHeight new = 0 \<and> limb_value (bi_nChainWork new) = block_work (hd_nBits block)
      | Some c \<Rightarrow> GetBlockHeader new = block \<and> bi_nHeight new = bi_nHeight c + 1 \<and>
          limb_value (bi_nChainWork new) =
            (limb_value (bi_nChainWork c) + block_work (hd_nBits block)) mod 2 ^ 256"
    using entry new(3,4) assms(2)
    by (cases "m_block_index bm ?q") (simp_all add: link_wf_def total_wf_def entry_of_def GetBlockHeader_def)
  obtain p best where best: "m_best_header bm' = Some p" "m_block_index bm' p = Some best"
    "\<forall>q c. m_block_index bm' q = Some c \<longrightarrow> limb_value (bi_nChainWork c) \<le> limb_value (bi_nChainWork best)"
    using new(2) b by (auto simp: manager_wf_def split: option.splits)
  have old: "\<forall>q c. m_block_index bm q = Some c \<longrightarrow> m_block_index bm' q = Some c"
    using None new(3) by auto
  show ?thesis
    using new(1) b old totals best by blast
qed

theorem header_added_witness:
  "\<exists>bm' b. AddToBlockIndex hd_nNonce (example_header 5) (example_index 4) = Some (bm', 5) \<and>
     m_block_index bm' 5 = Some b \<and> GetBlockHeader b = example_header 5 \<and> bi_nHeight b = 4"
proof -
  have h: "hd_hashPrevBlock (example_header 5) = 4" "hd_nNonce (example_header 5) = 5"
    by (simp_all add: example_header_def)
  obtain c where c: "m_block_index (example_index 4) 4 = Some c" "bi_nHeight c = 3"
    using example_domain [of 4 4] example_height [of 4 4] by auto
  have "m_block_index (example_index 4) 5 = None"
    using example_domain [of 4 5] by simp
  then show ?thesis
    using header_added [OF example_reachable, of "example_header 5" 4] c h by auto
qed

end
