(* ===== verification/Chain_Active.thy ===== *)
theory Chain_Active
  imports Chain_Index
begin

text \<open>
  The active chain, \<open>CChain\<close>, and the fork of two branches, \<open>LastCommonAncestor\<close> (\<open>src/chain.h\<close>,
  \<open>src/chain.cpp\<close>). The vector \<open>vChain\<close> is a list of pointers. A loop that follows pointers is a
  partial function: \<open>None\<close> covers a failed assertion, a vector access out of range and a loop that
  does not end. On a well-formed index none of them happens: \<open>SetTip\<close> leaves exactly the ancestors of
  the tip, \<open>FindFork\<close> and \<open>LastCommonAncestor\<close> return the last block two branches share, and the
  binary search of \<open>FindEarliestAtLeast\<close> the first block that qualifies.
\<close>

section \<open>Operations\<close>

type_synonym chain_vector = "block_hash option list"

definition resize :: "chain_vector \<Rightarrow> nat \<Rightarrow> chain_vector" where
  "resize v n = take n v @ replicate (n - length v) None"

partial_function (option) set_tip_loop ::
  "block_map \<Rightarrow> block_hash option \<Rightarrow> chain_vector \<Rightarrow> chain_vector option" where
  "set_tip_loop m pindex v =
     (case pindex of
        None \<Rightarrow> Some v
      | Some p \<Rightarrow>
          (case m p of
             None \<Rightarrow> None
           | Some b \<Rightarrow>
               if bi_nHeight b < length v
               then if v ! bi_nHeight b \<noteq> Some p
                    then set_tip_loop m (bi_pprev b) (v[bi_nHeight b := Some p])
                    else Some v
               else None))"

definition SetTip :: "block_map \<Rightarrow> block_hash \<Rightarrow> chain_vector \<Rightarrow> chain_vector option" where
  "SetTip m p v = do { b \<leftarrow> m p; set_tip_loop m (Some p) (resize v (bi_nHeight b + 1)) }"

definition Tip :: "chain_vector \<Rightarrow> block_hash option" where
  "Tip v = (if 0 < length v then v ! (length v - 1) else None)"

definition chain_at :: "chain_vector \<Rightarrow> int \<Rightarrow> block_hash option" where
  "chain_at v nHeight = (if nHeight < 0 \<or> int (length v) \<le> nHeight then None else v ! nat nHeight)"

definition chain_Height :: "chain_vector \<Rightarrow> int" where
  "chain_Height v = int (length v) - 1"

definition Contains :: "block_map \<Rightarrow> chain_vector \<Rightarrow> block_hash \<Rightarrow> bool option" where
  "Contains m v p = do { b \<leftarrow> m p; Some (chain_at v (int (bi_nHeight b)) = Some p) }"

definition chain_Next :: "block_map \<Rightarrow> chain_vector \<Rightarrow> block_hash \<Rightarrow> block_hash option option" where
  "chain_Next m v p = do {
     b \<leftarrow> m p;
     here \<leftarrow> Contains m v p;
     Some (if here then chain_at v (int (bi_nHeight b) + 1) else None)
   }"

partial_function (option) fork_loop ::
  "block_map \<Rightarrow> chain_vector \<Rightarrow> block_hash option \<Rightarrow> block_hash option option" where
  "fork_loop m v pindex =
     (case pindex of
        None \<Rightarrow> Some None
      | Some p \<Rightarrow>
          (case m p of
             None \<Rightarrow> None
           | Some b \<Rightarrow>
               if Contains m v p = Some True then Some (Some p) else fork_loop m v (bi_pprev b)))"

definition FindFork :: "block_map \<Rightarrow> chain_vector \<Rightarrow> block_hash option \<Rightarrow> block_hash option option" where
  "FindFork m v pindex =
     (case pindex of
        None \<Rightarrow> Some None
      | Some p \<Rightarrow> do {
          b \<leftarrow> m p;
          q \<leftarrow> (if chain_Height v < int (bi_nHeight b) then GetAncestor m p (chain_Height v)
                else Some (Some p));
          fork_loop m v q
        })"

text \<open>\<open>std::lower_bound\<close>: the first position at which \<open>cmp\<close> does not hold, by halving the range of
  \<open>count\<close> elements from \<open>first\<close> on.\<close>

function lower_bound :: "('a \<Rightarrow> bool) \<Rightarrow> 'a list \<Rightarrow> nat \<Rightarrow> nat \<Rightarrow> nat" where
  "lower_bound cmp xs first count =
     (if 0 < count
      then let step = count div 2 in
           if cmp (xs ! (first + step)) then lower_bound cmp xs (first + step + 1) (count - (step + 1))
           else lower_bound cmp xs first step
      else first)"
  by pat_completeness auto
termination
  by (relation "measure (\<lambda>(cmp, xs, first, count). count)") auto

declare lower_bound.simps [simp del]

definition before :: "block_map \<Rightarrow> int \<Rightarrow> int \<Rightarrow> block_hash option \<Rightarrow> bool" where
  "before m nTime height q =
     (case Option.bind q m of
        None \<Rightarrow> False
      | Some b \<Rightarrow> int (bi_nTimeMax b) < nTime \<or> int (bi_nHeight b) < height)"

definition FindEarliestAtLeast :: "block_map \<Rightarrow> chain_vector \<Rightarrow> int \<Rightarrow> int \<Rightarrow> block_hash option" where
  "FindEarliestAtLeast m v nTime height =
     (let lower = lower_bound (before m nTime height) v 0 (length v) in
      if lower = length v then None else v ! lower)"

text \<open>The two loops of \<open>LastCommonAncestor\<close>. A failed \<open>Assume\<close> is \<open>None\<close>, as in a debug build.\<close>

partial_function (option) skip_loop ::
  "block_map \<Rightarrow> block_hash \<Rightarrow> block_hash \<Rightarrow> (block_hash \<times> block_hash) option" where
  "skip_loop m pa pb =
     (case (m pa, m pb) of
        (Some a, Some b) \<Rightarrow>
          if bi_pskip a \<noteq> bi_pskip b
          then (case (bi_pskip a, bi_pskip b) of
                  (Some sa, Some sb) \<Rightarrow>
                    if bi_nHeight a = bi_nHeight b \<and>
                       map_option bi_nHeight (m sa) = map_option bi_nHeight (m sb)
                    then skip_loop m sa sb else None
                | _ \<Rightarrow> None)
          else Some (pa, pb)
      | _ \<Rightarrow> None)"

partial_function (option) common_loop ::
  "block_map \<Rightarrow> block_hash option \<Rightarrow> block_hash option \<Rightarrow> block_hash option option" where
  "common_loop m pa pb =
     (if pa \<noteq> pb
      then (case (pa, pb) of
              (Some a, Some b) \<Rightarrow>
                Option.bind (skip_loop m a b)
                  (\<lambda>(a, b). common_loop m (Option.bind (m a) bi_pprev) (Option.bind (m b) bi_pprev))
            | _ \<Rightarrow> None)
      else Some pa)"

definition LastCommonAncestor :: "block_map \<Rightarrow> block_hash \<Rightarrow> block_hash \<Rightarrow> block_hash option option" where
  "LastCommonAncestor m pa pb = do {
     a \<leftarrow> m pa;
     b \<leftarrow> m pb;
     qa \<leftarrow> (if bi_nHeight b < bi_nHeight a then GetAncestor m pa (int (bi_nHeight b)) else Some (Some pa));
     qb \<leftarrow> (if bi_nHeight a < bi_nHeight b then GetAncestor m pb (int (bi_nHeight a)) else Some (Some pb));
     common_loop m qa qb
   }"

section \<open>Ancestors\<close>

definition ancestors :: "block_map \<Rightarrow> block_hash option \<Rightarrow> block_hash set" where
  "ancestors m p = {q. \<exists>a n. p = Some a \<and> prev_steps m n a = Some q}"

abbreviation height_of :: "block_map \<Rightarrow> block_hash \<Rightarrow> nat" where
  "height_of m p \<equiv> bi_nHeight (the (m p))"

lemma ancestors_None [simp]: "ancestors m None = {}"
  by (simp add: ancestors_def)

lemma ancestors_self: "p \<in> ancestors m (Some p)"
  unfolding ancestors_def using prev_steps.simps(1) by blast

lemma ancestors_prev:
  assumes "m p = Some b"
  shows "ancestors m (Some p) = insert p (ancestors m (bi_pprev b))"
proof (intro set_eqI iffI)
  fix q assume "q \<in> ancestors m (Some p)"
  then obtain n where "prev_steps m n p = Some q"
    by (auto simp: ancestors_def)
  then show "q \<in> insert p (ancestors m (bi_pprev b))"
    using assms by (cases n) (auto simp: ancestors_def bind_eq_Some_conv)
next
  fix q assume "q \<in> insert p (ancestors m (bi_pprev b))"
  then consider "q = p" | a n where "bi_pprev b = Some a" "prev_steps m n a = Some q"
    by (auto simp: ancestors_def)
  then show "q \<in> ancestors m (Some p)"
  proof cases
    case 2
    then have "prev_steps m (Suc n) p = Some q"
      using assms by simp
    then show ?thesis
      unfolding ancestors_def by blast
  qed (simp add: ancestors_self)
qed

text \<open>An ancestor is in the index, and is found at its height.\<close>

lemma ancestors_iff:
  assumes "index_wf m" "m p = Some b"
  shows "q \<in> ancestors m (Some p) \<longleftrightarrow>
    (\<exists>c. m q = Some c \<and> bi_nHeight c \<le> bi_nHeight b \<and>
         prev_steps m (bi_nHeight b - bi_nHeight c) p = Some q)"
proof
  assume "q \<in> ancestors m (Some p)"
  then obtain n where n: "prev_steps m n p = Some q"
    by (auto simp: ancestors_def)
  then have le: "n \<le> bi_nHeight b"
    using prev_steps_past [OF assms, of n] by (cases "n \<le> bi_nHeight b") auto
  then show "\<exists>c. m q = Some c \<and> bi_nHeight c \<le> bi_nHeight b \<and>
      prev_steps m (bi_nHeight b - bi_nHeight c) p = Some q"
    using prev_steps_total [OF assms le] n by auto
qed (auto simp: ancestors_def)

lemma ancestors_trans:
  "q \<in> ancestors m (Some p) \<Longrightarrow> r \<in> ancestors m (Some q) \<Longrightarrow> r \<in> ancestors m (Some p)"
proof -
  assume "q \<in> ancestors m (Some p)" "r \<in> ancestors m (Some q)"
  then obtain i j where "prev_steps m i p = Some q" "prev_steps m j q = Some r"
    by (auto simp: ancestors_def)
  then have "prev_steps m (i + j) p = Some r"
    by (simp add: prev_steps_add)
  then show ?thesis
    unfolding ancestors_def by blast
qed

text \<open>Two ancestors of a block are ancestors of one another.\<close>

lemma ancestors_linear:
  assumes "index_wf m" "m p = Some b" "q \<in> ancestors m (Some p)" "r \<in> ancestors m (Some p)"
    and "height_of m r \<le> height_of m q"
  shows "r \<in> ancestors m (Some q)"
proof -
  obtain c d where c: "m q = Some c" "bi_nHeight c \<le> bi_nHeight b"
      "prev_steps m (bi_nHeight b - bi_nHeight c) p = Some q"
    and d: "m r = Some d" "bi_nHeight d \<le> bi_nHeight b"
      "prev_steps m (bi_nHeight b - bi_nHeight d) p = Some r"
    using assms(3,4) ancestors_iff [OF assms(1,2)] by auto
  have "bi_nHeight b - bi_nHeight d = (bi_nHeight b - bi_nHeight c) + (bi_nHeight c - bi_nHeight d)"
    using assms(5) c(1,2) d(1,2) by simp
  then have "prev_steps m (bi_nHeight c - bi_nHeight d) q = Some r"
    using c(3) d(3) by (simp add: prev_steps_add)
  then show ?thesis
    unfolding ancestors_def by blast
qed

lemma ancestors_same_height:
  assumes "index_wf m" "m p = Some b" "q \<in> ancestors m (Some p)" "r \<in> ancestors m (Some p)"
    and "height_of m r = height_of m q"
  shows "r = q"
  using assms ancestors_iff [OF assms(1,2)] by auto

section \<open>The vector of the active chain\<close>

definition chain_of :: "block_map \<Rightarrow> block_hash \<Rightarrow> chain_vector" where
  "chain_of m p = map (\<lambda>i. prev_steps m (height_of m p - i) p) [0..<Suc (height_of m p)]"

definition chain_wf :: "block_map \<Rightarrow> chain_vector \<Rightarrow> bool" where
  "chain_wf m v \<longleftrightarrow> v = [] \<or> (\<exists>p. m p \<noteq> None \<and> v = chain_of m p)"

lemma length_chain_of [simp]: "length (chain_of m p) = Suc (height_of m p)"
  by (simp add: chain_of_def)

lemma chain_of_nth: "i \<le> height_of m p \<Longrightarrow> chain_of m p ! i = prev_steps m (height_of m p - i) p"
  by (simp add: chain_of_def del: upt_Suc)

text \<open>Below a block that it contains, a chain is the chain of that block.\<close>

lemma chain_wf_below:
  assumes "index_wf m" "chain_wf m v" "k < length v" "v ! k = Some p" "i \<le> k"
  shows "v ! i = prev_steps m (k - i) p"
proof -
  obtain t where t: "v = chain_of m t"
    using assms(2,3) by (auto simp: chain_wf_def)
  have "height_of m t - i = (height_of m t - k) + (k - i)"
    using assms(3,5) t by simp
  then have "prev_steps m (height_of m t - i) t =
      Option.bind (prev_steps m (height_of m t - k) t) (prev_steps m (k - i))"
    using prev_steps_add by metis
  then show ?thesis
    using assms(3-5) t by (simp add: chain_of_nth)
qed

lemma set_tip_loop_correct:
  assumes "index_wf m" "chain_wf m old" "m p = Some b"
    and "bi_nHeight b < length v"
    and "\<And>i. i \<le> bi_nHeight b \<Longrightarrow> v ! i = (if i < length old then old ! i else None)"
  shows "set_tip_loop m (Some p) v = Some (chain_of m p @ drop (Suc (bi_nHeight b)) v)"
  using assms(3-5)
proof (induction "bi_nHeight b" arbitrary: p b v rule: less_induct)
  case less
  let ?k = "bi_nHeight b"
  note k = less.prems(2)
  show ?case
  proof (cases "v ! ?k = Some p")
    case True
    then have old: "?k < length old" "old ! ?k = Some p"
      using less.prems(3) [of ?k] by (simp_all split: if_splits)
    have "v = chain_of m p @ drop (Suc ?k) v"
    proof (rule nth_equalityI)
      fix i assume "i < length v"
      show "v ! i = (chain_of m p @ drop (Suc ?k) v) ! i"
        using less.prems(1,3) old k chain_wf_below [OF assms(1,2) old]
        by (cases "i \<le> ?k") (simp_all add: nth_append chain_of_nth)
    qed (use k less.prems(1) in simp)
    then show ?thesis
      using True k less.prems(1) by (subst set_tip_loop.simps) simp
  next
    case False
    let ?v = "v[?k := Some p]"
    have step: "set_tip_loop m (Some p) v = set_tip_loop m (bi_pprev b) ?v"
      using False k less.prems(1) by (subst set_tip_loop.simps) simp
    show ?thesis
    proof (cases "bi_pprev b")
      case None
      then have "?k = 0"
        using index_wf_root [OF assms(1) less.prems(1)] by simp
      moreover have "v \<noteq> []"
        using k by auto
      ultimately show ?thesis
        using step None less.prems(1)
        by (cases v) (simp_all add: chain_of_def set_tip_loop.simps [of m None])
    next
      case (Some q)
      obtain c where c: "m q = Some c" "?k = Suc (bi_nHeight c)"
        using index_wf_prev [OF assms(1) less.prems(1) Some] .
      have "set_tip_loop m (Some q) ?v = Some (chain_of m q @ drop (Suc (bi_nHeight c)) ?v)"
        using less.hyps [of c q ?v] c k less.prems(3) by simp
      also have "drop (Suc (bi_nHeight c)) ?v = Some p # drop (Suc ?k) v"
        using k c(2) by (simp add: Cons_nth_drop_Suc [symmetric] drop_update_cancel)
      also have "chain_of m q @ Some p # drop (Suc ?k) v = chain_of m p @ drop (Suc ?k) v"
        using less.prems(1) Some c by (simp add: chain_of_def Suc_diff_le)
      finally show ?thesis
        using step Some by simp
    qed
  qed
qed

lemma SetTip_correct:
  assumes "index_wf m" "chain_wf m v" "m p = Some b"
  shows "SetTip m p v = Some (chain_of m p)"
proof -
  have "set_tip_loop m (Some p) (resize v (Suc (bi_nHeight b))) =
      Some (chain_of m p @ drop (Suc (bi_nHeight b)) (resize v (Suc (bi_nHeight b))))"
    by (rule set_tip_loop_correct [OF assms]) (auto simp: resize_def nth_append)
  then show ?thesis
    using assms(3) by (simp add: SetTip_def resize_def)
qed

lemma Contains_chain_of:
  assumes "index_wf m" "m t = Some b" "m p = Some c"
  shows "Contains m (chain_of m t) p = Some (p \<in> ancestors m (Some t))"
  using assms(2,3) ancestors_iff [OF assms(1,2), of p]
  by (auto simp: Contains_def chain_at_def chain_of_nth)

lemma Contains_chain_wf:
  assumes "index_wf m" "chain_wf m v" "m p = Some c"
  shows "Contains m v p = Some (p \<in> ancestors m (Tip v))"
proof (cases "v = []")
  case True
  then show ?thesis
    using assms(3) by (simp add: Contains_def chain_at_def Tip_def)
next
  case False
  then obtain t b where t: "m t = Some b" "v = chain_of m t"
    using assms(2) by (auto simp: chain_wf_def)
  then have "Tip v = Some t"
    by (simp add: Tip_def chain_of_nth)
  then show ?thesis
    using Contains_chain_of [OF assms(1) t(1) assms(3)] t(2) by simp
qed

section \<open>Forks\<close>

text \<open>The last of a set of blocks: all of them are its ancestors.\<close>

definition is_last :: "block_map \<Rightarrow> block_hash set \<Rightarrow> block_hash option \<Rightarrow> bool" where
  "is_last m C r = (case r of None \<Rightarrow> C = {} | Some q \<Rightarrow> q \<in> C \<and> C \<subseteq> ancestors m (Some q))"

lemma is_last_unique:
  assumes "index_wf m" "C \<subseteq> ancestors m (Some p)" "m p = Some b" "is_last m C r" "is_last m C s"
  shows "r = s"
proof (cases r)
  case None
  then show ?thesis
    using assms(4,5) by (cases s) (auto simp: is_last_def)
next
  case (Some q)
  then obtain q' where q': "s = Some q'"
    using assms(4,5) by (cases s) (auto simp: is_last_def)
  have "q \<in> C" "q' \<in> C" "q \<in> ancestors m (Some q')" "q' \<in> ancestors m (Some q)"
    using assms(4,5) Some q' by (auto simp: is_last_def)
  moreover from this obtain c c' where "m q = Some c" "m q' = Some c'"
    using assms(2) ancestors_iff [OF assms(1,3)] by blast
  ultimately have "q' = q"
    using ancestors_same_height [OF assms(1,3), of q q'] ancestors_iff [OF assms(1)] assms(2)
    by (metis le_antisym option.sel subsetD)
  then show ?thesis
    using Some q' by simp
qed

lemma fork_loop_correct:
  assumes "index_wf m" "chain_wf m v" "pindex = None \<or> (\<exists>p b. pindex = Some p \<and> m p = Some b)"
  shows "\<exists>r. fork_loop m v pindex = Some r \<and> is_last m (ancestors m pindex \<inter> ancestors m (Tip v)) r"
proof (cases pindex)
  case None
  then show ?thesis
    by (subst fork_loop.simps) (simp add: is_last_def)
next
  case (Some p)
  then obtain b where "m p = Some b"
    using assms(3) by auto
  then show ?thesis
    unfolding Some
  proof (induction "bi_nHeight b" arbitrary: p b rule: less_induct)
    case less
    note contains = Contains_chain_wf [OF assms(1,2) less.prems]
    show ?case
    proof (cases "p \<in> ancestors m (Tip v)")
      case True
      then have "fork_loop m v (Some p) = Some (Some p)"
        using less.prems contains by (subst fork_loop.simps) simp
      then show ?thesis
        using True ancestors_self by (auto simp: is_last_def)
    next
      case False
      then have "fork_loop m v (Some p) = fork_loop m v (bi_pprev b)"
        using less.prems contains by (subst fork_loop.simps) simp
      moreover have "ancestors m (Some p) \<inter> ancestors m (Tip v) = ancestors m (bi_pprev b) \<inter> ancestors m (Tip v)"
        using False ancestors_prev [of m p b, OF less.prems] by auto
      moreover have "\<exists>r. fork_loop m v (bi_pprev b) = Some r \<and>
          is_last m (ancestors m (bi_pprev b) \<inter> ancestors m (Tip v)) r"
      proof (cases "bi_pprev b")
        case None
        then show ?thesis
          by (subst fork_loop.simps) (simp add: is_last_def)
      next
        case (Some q)
        then show ?thesis
          using index_wf_prev [OF assms(1) less.prems Some] less.hyps by (metis lessI)
      qed
      ultimately show ?thesis
        by simp
    qed
  qed
qed

text \<open>Going back to a height that no common ancestor exceeds loses none of them.\<close>

lemma common_rewind:
  assumes "index_wf m" "m p = Some b" "q \<in> ancestors m (Some p)"
    and "\<And>r. r \<in> C \<Longrightarrow> height_of m r \<le> height_of m q"
  shows "ancestors m (Some p) \<inter> C = ancestors m (Some q) \<inter> C"
  using ancestors_linear [OF assms(1-3)] ancestors_trans [OF assms(3)] assms(4) by blast

lemma FindFork_correct:
  assumes "index_wf m" "chain_wf m v" "m p = Some b"
  shows "\<exists>r. FindFork m v (Some p) = Some r \<and> is_last m (ancestors m (Some p) \<inter> ancestors m (Tip v)) r"
proof (cases "chain_Height v < int (bi_nHeight b)")
  case False
  then show ?thesis
    using fork_loop_correct [OF assms(1,2), of "Some p"] assms(3) by (simp add: FindFork_def)
next
  case True
  show ?thesis
  proof (cases "v = []")
    case v: True
    then show ?thesis
      using True assms(3) GetAncestor_steps [OF assms(1,3), of "- 1"]
      by (simp add: FindFork_def chain_Height_def Tip_def is_last_def fork_loop.simps [of m _ None])
  next
    case False
    then obtain t where t: "m t \<noteq> None" "v = chain_of m t"
      using assms(2) by (auto simp: chain_wf_def)
    then obtain c where c: "m t = Some c"
      by auto
    have tip: "Tip v = Some t" and h: "chain_Height v = int (bi_nHeight c)"
      using t c by (simp_all add: Tip_def chain_of_nth chain_Height_def)
    then have le: "bi_nHeight c \<le> bi_nHeight b"
      using True by simp
    then obtain q d where q: "prev_steps m (bi_nHeight b - bi_nHeight c) p = Some q" "m q = Some d"
      "bi_nHeight d = bi_nHeight c"
      using prev_steps_total [OF assms(1,3), of "bi_nHeight b - bi_nHeight c"] by auto
    then have "FindFork m v (Some p) = fork_loop m v (Some q)"
      using True h le assms(3) GetAncestor_steps [OF assms(1,3), of "int (bi_nHeight c)"]
      by (simp add: FindFork_def)
    moreover have "ancestors m (Some p) \<inter> ancestors m (Some t) = ancestors m (Some q) \<inter> ancestors m (Some t)"
    proof (rule common_rewind [OF assms(1,3)])
      show "q \<in> ancestors m (Some p)"
        using q(1) unfolding ancestors_def by blast
      show "height_of m r \<le> height_of m q" if "r \<in> ancestors m (Some t)" for r
        using that ancestors_iff [OF assms(1) c] q(2,3) by auto
    qed
    ultimately show ?thesis
      using fork_loop_correct [OF assms(1,2), of "Some q"] q(2) tip by simp
  qed
qed

text \<open>Above two different ancestors of one height the branches have nothing in common.\<close>

lemma common_diverged:
  assumes "index_wf m" "m a = Some x" "m b = Some y"
    and "sa \<in> ancestors m (Some a)" "sb \<in> ancestors m (Some b)" "height_of m sa = height_of m sb" "sa \<noteq> sb"
  shows "ancestors m (Some a) \<inter> ancestors m (Some b) = ancestors m (Some sa) \<inter> ancestors m (Some sb)"
proof -
  have "height_of m r \<le> height_of m sa" if r: "r \<in> ancestors m (Some a)" "r \<in> ancestors m (Some b)" for r
  proof (rule ccontr)
    assume "\<not> height_of m r \<le> height_of m sa"
    then have "sa \<in> ancestors m (Some r)"
      using ancestors_linear [OF assms(1,2) r(1) assms(4)] by simp
    then have "sa \<in> ancestors m (Some b)"
      using ancestors_trans r(2) by blast
    then show False
      using ancestors_same_height [OF assms(1,3) assms(5)] assms(6,7) by simp
  qed
  then have "r \<in> ancestors m (Some sa) \<inter> ancestors m (Some sb)"
    if "r \<in> ancestors m (Some a) \<inter> ancestors m (Some b)" for r
    using that ancestors_linear [OF assms(1,2,4)] ancestors_linear [OF assms(1,3,5)] assms(6) by simp
  then show ?thesis
    using ancestors_trans [OF assms(4)] ancestors_trans [OF assms(5)] by blast
qed

lemma skip_ancestor:
  assumes "index_wf m" "m p = Some b" "bi_pskip b = Some s"
  shows "s \<in> ancestors m (Some p)"
  using index_wf_skip [OF assms] unfolding ancestors_def by blast

lemma skip_loop_correct:
  assumes "index_wf m" "m a = Some x" "m b = Some y" "bi_nHeight x = bi_nHeight y" "a \<noteq> b"
  shows "\<exists>a' b' x' y'. skip_loop m a b = Some (a', b') \<and> m a' = Some x' \<and> m b' = Some y' \<and>
    bi_nHeight x' = bi_nHeight y' \<and> bi_nHeight x' \<le> bi_nHeight x \<and> a' \<noteq> b' \<and>
    ancestors m (Some a) \<inter> ancestors m (Some b) = ancestors m (Some a') \<inter> ancestors m (Some b')"
  using assms(2-)
proof (induction "bi_nHeight x" arbitrary: a b x y rule: less_induct)
  case less
  show ?case
  proof (cases "bi_pskip x = bi_pskip y")
    case True
    then show ?thesis
      using less.prems by (subst skip_loop.simps) auto
  next
    case False
    then have "0 < bi_nHeight x"
      using index_wf_link [OF assms(1) less.prems(1)] index_wf_link [OF assms(1) less.prems(2)] less.prems(3)
      by (auto simp: link_wf_def split: option.splits)
    then obtain sa sb where s: "bi_pskip x = Some sa" "bi_pskip y = Some sb" "sa \<noteq> sb"
      using index_wf_has_skip [OF assms(1)] less.prems False by metis
    obtain c where c: "m sa = Some c" "bi_nHeight c = GetSkipHeight (bi_nHeight x)"
      using index_wf_skip_entry [OF assms(1) less.prems(1) s(1)] .
    obtain d where d: "m sb = Some d" "bi_nHeight d = GetSkipHeight (bi_nHeight y)"
      using index_wf_skip_entry [OF assms(1) less.prems(2) s(2)] .
    have less_h: "bi_nHeight c < bi_nHeight x"
      using c(2) GetSkipHeight_less \<open>0 < bi_nHeight x\<close> by simp
    have eq: "ancestors m (Some a) \<inter> ancestors m (Some b) = ancestors m (Some sa) \<inter> ancestors m (Some sb)"
      using common_diverged [OF assms(1) less.prems(1,2)] skip_ancestor [OF assms(1)] less.prems s c d
      by simp
    have "skip_loop m a b = skip_loop m sa sb"
      using less.prems s c d by (subst skip_loop.simps) simp
    moreover have "bi_nHeight c = bi_nHeight d"
      using c(2) d(2) less.prems(3) by simp
    ultimately show ?thesis
      unfolding eq using less.hyps [OF less_h c(1) d(1) _ s(3)] less_h by (metis less_imp_le order_trans)
  qed
qed

lemma common_loop_same: "common_loop m p p = Some p"
  by (subst common_loop.simps) simp

lemma common_loop_correct:
  assumes "index_wf m" "m a = Some x" "m b = Some y" "bi_nHeight x = bi_nHeight y"
  shows "\<exists>r. common_loop m (Some a) (Some b) = Some r \<and>
    is_last m (ancestors m (Some a) \<inter> ancestors m (Some b)) r"
  using assms(2-)
proof (induction "bi_nHeight x" arbitrary: a b x y rule: less_induct)
  case less
  show ?case
  proof (cases "a = b")
    case True
    then show ?thesis
      using ancestors_self by (auto simp: common_loop_same is_last_def)
  next
    case False
    obtain a' b' x' y' where s: "skip_loop m a b = Some (a', b')" "m a' = Some x'" "m b' = Some y'"
      "bi_nHeight x' = bi_nHeight y'" "bi_nHeight x' \<le> bi_nHeight x" "a' \<noteq> b'"
      "ancestors m (Some a) \<inter> ancestors m (Some b) = ancestors m (Some a') \<inter> ancestors m (Some b')"
      using skip_loop_correct [OF assms(1) less.prems False] by blast
    have step: "common_loop m (Some a) (Some b) = common_loop m (bi_pprev x') (bi_pprev y')"
      using False s(1-3) by (subst common_loop.simps) simp
    have apart: "a' \<notin> ancestors m (Some b')" "b' \<notin> ancestors m (Some a')"
      using ancestors_same_height [OF assms(1) s(3) ancestors_self, of a']
        ancestors_same_height [OF assms(1) s(2) ancestors_self, of b'] s(2-4,6) by auto
    then have eq: "ancestors m (Some a) \<inter> ancestors m (Some b) =
        ancestors m (bi_pprev x') \<inter> ancestors m (bi_pprev y')"
      unfolding s(7) using s(6) ancestors_prev [of m, OF s(2)] ancestors_prev [of m, OF s(3)] by auto
    show ?thesis
    proof (cases "bi_nHeight x' = 0")
      case True
      then have "bi_pprev x' = None" "bi_pprev y' = None"
        using index_wf_root [OF assms(1)] s(2-4) by auto
      then show ?thesis
        unfolding step eq by (simp add: common_loop_same is_last_def)
    next
      case False
      then obtain p q where pq: "bi_pprev x' = Some p" "bi_pprev y' = Some q"
        using index_wf_root [OF assms(1)] s(2-4) by (metis option.exhaust)
      obtain c where c: "m p = Some c" "bi_nHeight x' = Suc (bi_nHeight c)"
        using index_wf_prev [OF assms(1) s(2) pq(1)] .
      obtain d where d: "m q = Some d" "bi_nHeight y' = Suc (bi_nHeight d)"
        using index_wf_prev [OF assms(1) s(3) pq(2)] .
      show ?thesis
        unfolding step eq pq using less.hyps [OF _ c(1) d(1)] c(2) d(2) s(4,5) by simp
    qed
  qed
qed

lemma GetAncestor_entry:
  assumes "index_wf m" "m p = Some b" "k \<le> bi_nHeight b"
  obtains q c where "GetAncestor m p (int k) = Some (Some q)" "m q = Some c" "bi_nHeight c = k"
    "q \<in> ancestors m (Some p)"
proof -
  obtain q c where "prev_steps m (bi_nHeight b - k) p = Some q" "m q = Some c" "bi_nHeight c = k"
    using prev_steps_total [OF assms(1,2), of "bi_nHeight b - k"] assms(3) by auto
  moreover from this have "q \<in> ancestors m (Some p)"
    unfolding ancestors_def by blast
  ultimately show ?thesis
    using that GetAncestor_steps [OF assms(1,2), of "int k"] assms(3) by simp
qed

lemma rewind_common:
  assumes "index_wf m" "m p = Some b" "m t = Some c" "q \<in> ancestors m (Some p)" "m q = Some d"
    and "bi_nHeight d = bi_nHeight c"
  shows "ancestors m (Some p) \<inter> ancestors m (Some t) = ancestors m (Some q) \<inter> ancestors m (Some t)"
  by (rule common_rewind [OF assms(1,2,4)]) (use ancestors_iff [OF assms(1,3)] assms(5,6) in auto)

lemma LastCommonAncestor_correct:
  assumes "index_wf m" "m a = Some x" "m b = Some y"
  shows "\<exists>r. LastCommonAncestor m a b = Some r \<and>
    is_last m (ancestors m (Some a) \<inter> ancestors m (Some b)) r"
proof -
  consider "bi_nHeight y < bi_nHeight x" | "bi_nHeight x < bi_nHeight y" | "bi_nHeight x = bi_nHeight y"
    by linarith
  then show ?thesis
  proof cases
    case 1
    then obtain q c where q: "GetAncestor m a (int (bi_nHeight y)) = Some (Some q)" "m q = Some c"
      "bi_nHeight c = bi_nHeight y" "q \<in> ancestors m (Some a)"
      using GetAncestor_entry [OF assms(1,2), of "bi_nHeight y"] by auto
    then show ?thesis
      using 1 assms common_loop_correct [OF assms(1) q(2) assms(3) q(3)]
        rewind_common [OF assms(1,2,3) q(4,2,3)] by (simp add: LastCommonAncestor_def)
  next
    case 2
    then obtain q c where q: "GetAncestor m b (int (bi_nHeight x)) = Some (Some q)" "m q = Some c"
      "bi_nHeight c = bi_nHeight x" "q \<in> ancestors m (Some b)"
      using GetAncestor_entry [OF assms(1,3), of "bi_nHeight x"] by auto
    then show ?thesis
      using 2 assms common_loop_correct [OF assms(1,2) q(2)] q(3)
        rewind_common [OF assms(1,3,2) q(4,2,3)] by (simp add: LastCommonAncestor_def Int_commute)
  next
    case 3
    then show ?thesis
      using common_loop_correct [OF assms 3] assms by (simp add: LastCommonAncestor_def)
  qed
qed

section \<open>Binary search\<close>

lemma lower_bound_correct:
  assumes "first + count \<le> length xs"
    and "\<And>i j. i \<le> j \<Longrightarrow> j < length xs \<Longrightarrow> cmp (xs ! j) \<Longrightarrow> cmp (xs ! i)"
    and "\<And>i. i < first \<Longrightarrow> cmp (xs ! i)" "\<And>i. first + count \<le> i \<Longrightarrow> i < length xs \<Longrightarrow> \<not> cmp (xs ! i)"
  shows "lower_bound cmp xs first count \<le> length xs \<and>
    (\<forall>i < length xs. cmp (xs ! i) \<longleftrightarrow> i < lower_bound cmp xs first count)"
  using assms
proof (induction count arbitrary: first rule: less_induct)
  case (less count)
  note mono = less.prems(2)
  show ?case
  proof (cases "count = 0")
    case True
    then have eq: "lower_bound cmp xs first count = first"
      by (subst lower_bound.simps) simp
    show ?thesis
      unfolding eq
    proof (intro conjI allI impI iffI)
      show "i < first" if "i < length xs" "cmp (xs ! i)" for i
        using less.prems(4) [OF _ that(1)] that(2) True by (cases "i < first") simp_all
    qed (use less.prems(1,3) in \<open>simp_all add: True\<close>)
  next
    case False
    let ?s = "count div 2"
    have s: "?s < count"
      using False by simp
    show ?thesis
    proof (cases "cmp (xs ! (first + ?s))")
      case True
      have eq: "lower_bound cmp xs first count = lower_bound cmp xs (first + ?s + 1) (count - (?s + 1))"
        using False True by (subst lower_bound.simps) (simp add: Let_def)
      have pre: "cmp (xs ! i)" if "i < first + ?s + 1" for i
        by (rule mono [OF _ _ True]) (use that s less.prems(1) in simp_all)
      have post: "\<not> cmp (xs ! i)" if "first + ?s + 1 + (count - (?s + 1)) \<le> i" "i < length xs" for i
        by (rule less.prems(4)) (use that s in simp_all)
      show ?thesis
        unfolding eq
        by (rule less.IH [OF _ _ mono pre post]) (use s less.prems(1) in simp_all)
    next
      case cmp: False
      have eq: "lower_bound cmp xs first count = lower_bound cmp xs first ?s"
        using False cmp by (subst lower_bound.simps) (simp add: Let_def)
      have post: "\<not> cmp (xs ! i)" if "first + ?s \<le> i" "i < length xs" for i
        using mono [OF that] cmp by blast
      show ?thesis
        unfolding eq
        by (rule less.IH [OF _ _ mono less.prems(3) post]) (use s less.prems(1) in simp_all)
    qed
  qed
qed

lemma nTimeMax_mono:
  assumes "index_wf m" "m p = Some b" "q \<in> ancestors m (Some p)" "m q = Some c"
  shows "bi_nTimeMax c \<le> bi_nTimeMax b"
proof -
  obtain n where "prev_steps m n p = Some q"
    using assms(3) by (auto simp: ancestors_def)
  then show ?thesis
    using assms(2)
  proof (induction n arbitrary: p b)
    case 0
    then show ?case
      using assms(4) by simp
  next
    case (Suc n)
    then obtain r where r: "bi_pprev b = Some r" "prev_steps m n r = Some q"
      by (auto simp: bind_eq_Some_conv)
    obtain d where d: "m r = Some d"
      using index_wf_prev [OF assms(1) Suc.prems(2) r(1)] .
    have "bi_nTimeMax d \<le> bi_nTimeMax b"
      using index_wf_total [OF assms(1) Suc.prems(2)] r(1) d by (simp add: total_wf_def)
    then show ?case
      using Suc.IH [OF r(2) d] by simp
  qed
qed

lemma chain_of_entry:
  assumes "index_wf m" "m t = Some b" "i \<le> bi_nHeight b"
  obtains q c where "chain_of m t ! i = Some q" "m q = Some c" "bi_nHeight c = i" "q \<in> ancestors m (Some t)"
proof -
  obtain q c where "prev_steps m (bi_nHeight b - i) t = Some q" "m q = Some c" "bi_nHeight c = i"
    using prev_steps_total [OF assms(1,2), of "bi_nHeight b - i"] assms(3) by auto
  moreover from this have "q \<in> ancestors m (Some t)"
    unfolding ancestors_def by blast
  ultimately show ?thesis
    using that assms(2,3) by (simp add: chain_of_nth)
qed

lemma chain_wf_entries:
  assumes "index_wf m" "chain_wf m v" "q \<in> set v"
  obtains p c where "q = Some p" "m p = Some c"
proof -
  obtain t b where t: "m t = Some b" "v = chain_of m t"
    using assms(2,3) by (auto simp: chain_wf_def)
  then obtain i where "i \<le> bi_nHeight b" "q = v ! i"
    using assms(3) by (auto simp: in_set_conv_nth less_Suc_eq_le)
  then show ?thesis
    using chain_of_entry [OF assms(1) t(1)] t(2) that by metis
qed

lemma before_mono:
  assumes "index_wf m" "chain_wf m v" "i \<le> j" "j < length v" "before m nTime height (v ! j)"
  shows "before m nTime height (v ! i)"
proof -
  obtain t b where t: "m t = Some b" "v = chain_of m t"
    using assms(2,4) by (auto simp: chain_wf_def)
  have ij: "i \<le> bi_nHeight b" "j \<le> bi_nHeight b"
    using assms(3,4) t by simp_all
  obtain p c where p: "v ! i = Some p" "m p = Some c" "bi_nHeight c = i" "p \<in> ancestors m (Some t)"
    using chain_of_entry [OF assms(1) t(1) ij(1)] t(2) by auto
  obtain q d where q: "v ! j = Some q" "m q = Some d" "bi_nHeight d = j" "q \<in> ancestors m (Some t)"
    using chain_of_entry [OF assms(1) t(1) ij(2)] t(2) by auto
  have "p \<in> ancestors m (Some q)"
    using ancestors_linear [OF assms(1) t(1) q(4) p(4)] p q assms(3) by simp
  then have "bi_nTimeMax c \<le> bi_nTimeMax d"
    using nTimeMax_mono [OF assms(1) q(2) _ p(2)] by simp
  then show ?thesis
    using assms(3,5) p q by (auto simp: before_def)
qed

lemma FindEarliestAtLeast_correct:
  assumes "index_wf m" "chain_wf m v"
  shows "FindEarliestAtLeast m v nTime height =
    Option.bind (find (\<lambda>q. \<not> before m nTime height q) v) id"
proof -
  let ?l = "lower_bound (before m nTime height) v 0 (length v)"
  have l: "?l \<le> length v" "\<And>i. i < length v \<Longrightarrow> before m nTime height (v ! i) \<longleftrightarrow> i < ?l"
    using lower_bound_correct [of 0 "length v" v "before m nTime height"] before_mono [OF assms]
    by auto
  show ?thesis
  proof (cases "?l = length v")
    case True
    then have "find (\<lambda>q. \<not> before m nTime height q) v = None"
      using l(2) by (auto simp: find_None_iff in_set_conv_nth)
    then show ?thesis
      using True by (simp add: FindEarliestAtLeast_def)
  next
    case False
    then have "find (\<lambda>q. \<not> before m nTime height q) v = Some (v ! ?l)"
      using l by (auto simp: find_Some_iff intro!: exI [of _ ?l])
    then show ?thesis
      using False by (simp add: FindEarliestAtLeast_def)
  qed
qed

section \<open>The index and the active chain together\<close>

inductive chain_reachable :: "(block_header \<Rightarrow> block_hash) \<Rightarrow> block_manager \<Rightarrow> chain_vector \<Rightarrow> bool"
  for GetHash where
  chain_start: "chain_reachable GetHash empty_manager []"
| chain_header: "chain_reachable GetHash bm v \<Longrightarrow> hd_hashPrevBlock block \<noteq> GetHash block \<Longrightarrow>
    AddToBlockIndex GetHash block bm = Some (bm', h) \<Longrightarrow> chain_reachable GetHash bm' v"
| chain_tip: "chain_reachable GetHash bm v \<Longrightarrow> m_block_index bm p \<noteq> None \<Longrightarrow>
    SetTip (m_block_index bm) p v = Some v' \<Longrightarrow> chain_reachable GetHash bm v'"

lemma chain_wf_extend:
  assumes "index_wf m" "m h = None" "chain_wf m v"
  shows "chain_wf (m(h \<mapsto> x)) v"
proof (cases "v = []")
  case False
  then obtain t b where t: "m t = Some b" "v = chain_of m t"
    using assms(3) by (auto simp: chain_wf_def)
  then have "t \<noteq> h"
    using assms(2) by auto
  then have "chain_of (m(h \<mapsto> x)) t = chain_of m t"
    using prev_steps_extend [OF assms(1,2) t(1)] by (simp add: chain_of_def)
  then show ?thesis
    using t \<open>t \<noteq> h\<close> by (auto simp: chain_wf_def intro!: exI [of _ t])
qed (simp add: chain_wf_def)

lemma chain_reachable_wf:
  "chain_reachable GetHash bm v \<Longrightarrow> index_reachable GetHash bm \<and> chain_wf (m_block_index bm) v"
proof (induction rule: chain_reachable.induct)
  case chain_start
  then show ?case
    by (simp add: index_empty chain_wf_def)
next
  case (chain_header bm v block bm' h)
  have wf: "manager_wf bm"
    using chain_header.IH index_reachable_wf by blast
  show ?case
  proof (cases "m_block_index bm (GetHash block)")
    case None
    then have "chain_wf (m_block_index bm') v"
      using AddToBlockIndex_new [of bm GetHash block, OF wf None] chain_header.hyps
        chain_wf_extend [OF manager_wf_index [OF wf] None] chain_header.IH by auto
    then show ?thesis
      using index_add chain_header by blast
  next
    case (Some b)
    then show ?thesis
      using AddToBlockIndex_known [of bm GetHash block, OF Some] chain_header by simp
  qed
next
  case (chain_tip bm v p v')
  then obtain b where "m_block_index bm p = Some b"
    by auto
  then show ?case
    using SetTip_correct [of "m_block_index bm" v p b] chain_tip manager_wf_index index_reachable_wf
    by (auto simp: chain_wf_def)
qed

lemma chain_reachable_index: "chain_reachable GetHash bm v \<Longrightarrow> index_wf (m_block_index bm)"
  using chain_reachable_wf index_reachable_wf manager_wf_index by blast

lemma chain_of_Tip: "m p = Some b \<Longrightarrow> Tip (chain_of m p) = Some p"
  by (simp add: Tip_def chain_of_nth)

section \<open>Properties\<close>

text \<open>C14: Whatever chain was active before, \<open>SetTip\<close> returns, and the vector it leaves is the chain of the
  new tip: the tip is its last element, its length is the height of the tip plus one, and \<open>Contains\<close>
  holds for exactly the ancestors of the tip (the tip included), although the loop stops at the first
  block that was already in place.\<close>

theorem set_tip_leaves_the_chain:
  assumes "chain_reachable GetHash bm v" "m_block_index bm p = Some b"
  shows "\<exists>v'. SetTip (m_block_index bm) p v = Some v' \<and> Tip v' = Some p \<and>
    chain_Height v' = int (bi_nHeight b) \<and>
    (\<forall>q c. m_block_index bm q = Some c \<longrightarrow>
       Contains (m_block_index bm) v' q = Some (\<exists>n. prev_steps (m_block_index bm) n p = Some q))"
proof -
  note wf = chain_reachable_index [OF assms(1)]
  have "SetTip (m_block_index bm) p v = Some (chain_of (m_block_index bm) p)"
    using SetTip_correct [OF wf _ assms(2)] chain_reachable_wf [OF assms(1)] by simp
  then show ?thesis
    using Contains_chain_of [OF wf assms(2)] chain_of_Tip [of "m_block_index bm", OF assms(2)] assms(2)
    by (auto simp: chain_Height_def ancestors_def)
qed

lemma example_chain_reachable: "chain_reachable hd_nNonce (example_index n) []"
proof (induction n)
  case (Suc n)
  let ?h = "example_header (Suc n)"
  have prev: "hd_hashPrevBlock ?h \<noteq> hd_nNonce ?h"
    by (simp add: example_header_def)
  obtain bm' h where "AddToBlockIndex hd_nNonce ?h (example_index n) = Some (bm', h)"
    using AddToBlockIndex_total [of "example_index n" ?h hd_nNonce]
      index_reachable_wf [OF example_reachable] prev by blast
  then show ?case
    using chain_header [OF Suc prev] by simp
qed (simp add: chain_start)

lemma example_chain:
  assumes "1 \<le> k" "k \<le> n"
  shows "chain_reachable hd_nNonce (example_index n) (chain_of (m_block_index (example_index n)) k)"
proof -
  let ?m = "m_block_index (example_index n)"
  have k: "?m k \<noteq> None"
    using example_domain [of n k] assms by simp
  then obtain b where "?m k = Some b"
    by blast
  then have "SetTip ?m k [] = Some (chain_of ?m k)"
    by (intro SetTip_correct [OF chain_reachable_index [OF example_chain_reachable]])
      (simp_all add: chain_wf_def)
  then show ?thesis
    by (rule chain_tip [OF example_chain_reachable k])
qed

theorem set_tip_leaves_the_chain_witness:
  "\<exists>v'. SetTip (m_block_index empty_manager) 1 [] = None \<and>
     SetTip (m_block_index (example_index 4)) 4 [] = Some v' \<and> Tip v' = Some 4 \<and> chain_Height v' = 3"
proof -
  obtain b where "m_block_index (example_index 4) 4 = Some b" "bi_nHeight b = 3"
    using example_domain [of 4 4] example_height [of 4 4] by auto
  then show ?thesis
    using set_tip_leaves_the_chain [OF example_chain_reachable, of 4 4 b] by (auto simp: SetTip_def empty_manager_def)
qed

text \<open>C15: \<open>FindFork\<close> and \<open>LastCommonAncestor\<close> always return, the assumptions of the latter about equal
  heights hold on the way, and both return the last block that the block and the active chain have in
  common: a common ancestor of which every common ancestor is an ancestor, or the null pointer when
  there is none.\<close>

theorem fork_is_last_common_block:
  assumes "chain_reachable GetHash bm v" "m_block_index bm p = Some b"
    and "Tip v = Some t" "m_block_index bm t = Some c"
  shows "\<exists>r. FindFork (m_block_index bm) v (Some p) = Some r \<and>
    LastCommonAncestor (m_block_index bm) p t = Some r \<and>
    (case r of
       None \<Rightarrow> ancestors (m_block_index bm) (Some p) \<inter> ancestors (m_block_index bm) (Some t) = {}
     | Some q \<Rightarrow> q \<in> ancestors (m_block_index bm) (Some p) \<inter> ancestors (m_block_index bm) (Some t) \<and>
         ancestors (m_block_index bm) (Some p) \<inter> ancestors (m_block_index bm) (Some t)
           \<subseteq> ancestors (m_block_index bm) (Some q))"
proof -
  let ?m = "m_block_index bm" and ?C = "ancestors (m_block_index bm) (Some p) \<inter> ancestors (m_block_index bm) (Some t)"
  note wf = chain_reachable_index [OF assms(1)]
  obtain r where r: "FindFork ?m v (Some p) = Some r" "is_last ?m ?C r"
    using FindFork_correct [OF wf _ assms(2)] chain_reachable_wf [OF assms(1)] assms(3) by force
  obtain s where s: "LastCommonAncestor ?m p t = Some s" "is_last ?m ?C s"
    using LastCommonAncestor_correct [OF wf assms(2,4)] by blast
  have "s = r"
    by (rule is_last_unique [OF wf _ assms(2) s(2) r(2)]) simp
  then show ?thesis
    using r s by (auto simp: is_last_def)
qed

theorem fork_is_last_common_block_witness:
  "FindFork (m_block_index (example_index 4)) (chain_of (m_block_index (example_index 4)) 3) (Some 4) = Some (Some 3) \<and>
   LastCommonAncestor (m_block_index (example_index 4)) 4 3 = Some (Some 3)"
proof -
  let ?m = "m_block_index (example_index 4)"
  let ?C = "ancestors ?m (Some 4) \<inter> ancestors ?m (Some 3)"
  have reach: "chain_reachable hd_nNonce (example_index 4) (chain_of ?m 3)"
    by (rule example_chain) simp_all
  obtain b c where b: "?m 4 = Some b" and c: "?m 3 = Some c"
    using example_domain [of 4 4] example_domain [of 4 3] by auto
  have "ancestors ?m (Some 4) = insert 4 (ancestors ?m (Some 3))"
    using ancestors_prev [of ?m, OF b] example_prev [OF b] by simp
  then have three: "is_last ?m ?C (Some 3)"
    using ancestors_self by (auto simp: is_last_def)
  obtain r where r: "FindFork ?m (chain_of ?m 3) (Some 4) = Some r" "LastCommonAncestor ?m 4 3 = Some r"
    "is_last ?m ?C r"
    using fork_is_last_common_block [OF reach b chain_of_Tip [of ?m, OF c] c] by (auto simp: is_last_def)
  have "r = Some 3"
    by (rule is_last_unique [OF chain_reachable_index [OF reach] _ b r(3) three]) simp
  then show ?thesis
    using r by simp
qed

text \<open>The binary search of \<open>FindEarliestAtLeast\<close> over the active chain finds what a search from the
  genesis block on would: the first block whose greatest time so far and whose height are both at
  least the ones asked for, and the null pointer when the chain has no such block.\<close>

theorem find_earliest_is_first:
  assumes "chain_reachable GetHash bm v"
  shows "FindEarliestAtLeast (m_block_index bm) v nTime height =
    (case find (\<lambda>q. case q of None \<Rightarrow> False
                  | Some p \<Rightarrow> (case m_block_index bm p of None \<Rightarrow> False
                               | Some b \<Rightarrow> nTime \<le> int (bi_nTimeMax b) \<and> height \<le> int (bi_nHeight b))) v of
       None \<Rightarrow> None | Some q \<Rightarrow> q)"
proof -
  let ?P = "\<lambda>q. case q of None \<Rightarrow> False
    | Some p \<Rightarrow> (case m_block_index bm p of None \<Rightarrow> False
                 | Some b \<Rightarrow> nTime \<le> int (bi_nTimeMax b) \<and> height \<le> int (bi_nHeight b))"
  note wf = chain_reachable_index [OF assms]
  have "chain_wf (m_block_index bm) v"
    using chain_reachable_wf [OF assms] by simp
  then have "(\<not> before (m_block_index bm) nTime height q) = ?P q" if "q \<in> set v" for q
    by (rule chain_wf_entries [OF wf _ that]) (simp add: before_def not_less)
  then have "find (\<lambda>q. \<not> before (m_block_index bm) nTime height q) v = find ?P v"
    by (intro find_cong) simp_all
  then show ?thesis
    using FindEarliestAtLeast_correct [OF wf] chain_reachable_wf [OF assms]
    by (simp split: option.split)
qed

theorem find_earliest_is_first_witness:
  "FindEarliestAtLeast (m_block_index (example_index 2)) (chain_of (m_block_index (example_index 2)) 2) 0 1 = Some 2"
proof -
  let ?m = "m_block_index (example_index 2)"
  obtain b c where bc: "?m 2 = Some b" "?m 1 = Some c"
    using example_domain [of 2 2] example_domain [of 2 1] by auto
  have b: "?m 2 = Some b" "bi_nHeight b = 1" "bi_pprev b = Some 1"
    using bc(1) example_height [OF bc(1)] example_prev [OF bc(1)] by simp_all
  have c: "?m 1 = Some c" "bi_nHeight c = 0"
    using bc(2) example_height [OF bc(2)] by simp_all
  have "chain_of ?m 2 = [Some 1, Some 2]"
    using b by (simp add: chain_of_def)
  moreover have "chain_reachable hd_nNonce (example_index 2) (chain_of ?m 2)"
    by (rule example_chain) simp_all
  ultimately show ?thesis
    using find_earliest_is_first [of hd_nNonce "example_index 2" "chain_of ?m 2" 0 1] b c by simp
qed

end
