(* ===== verification/Consensus_Params.thy ===== *)
theory Consensus_Params
  imports Compact_Target
begin

text \<open>
  The consensus parameters, \<open>Consensus::Params\<close> of \<open>src/consensus/params.h\<close>, as far as the modelled
  rules read them, with the values that \<open>src/kernel/chainparams.cpp\<close> gives them on the main network and
  on the two test networks. A \<open>uint256\<close> is the number its hexadecimal string denotes;
  \<open>UintToArith256\<close> cuts it into limbs.
\<close>

section \<open>Parameters\<close>

definition UintToArith256 :: "nat \<Rightarrow> base_uint" where
  "UintToArith256 a = map (\<lambda>x. a div 2 ^ (32 * x) mod 2 ^ 32) [0..<WIDTH]"

record consensus_params =
  hashGenesisBlock :: nat
  nSubsidyHalvingInterval :: int
  BIP34Height :: int
  BIP34Hash :: nat
  BIP65Height :: int
  BIP66Height :: int
  CSVHeight :: int
  SegwitHeight :: int
  powLimit :: nat
  fPowAllowMinDifficultyBlocks :: bool
  enforce_BIP94 :: bool
  fPowNoRetargeting :: bool
  nPowTargetSpacing :: int
  nPowTargetTimespan :: int

definition DifficultyAdjustmentInterval :: "consensus_params \<Rightarrow> int" where
  "DifficultyAdjustmentInterval params = nPowTargetTimespan params div nPowTargetSpacing params"

definition main_params :: consensus_params where
  "main_params = \<lparr>hashGenesisBlock = 0x0000000092231d99339b168144703e3e36cceee158fce4eb70f93883a53b4fc8,
     nSubsidyHalvingInterval = 210000, BIP34Height = 1, BIP34Hash = 0, BIP65Height = 1, BIP66Height = 1,
     CSVHeight = 1, SegwitHeight = 1,
     powLimit = 0x00000000ffffffffffffffffffffffffffffffffffffffffffffffffffffffff,
     fPowAllowMinDifficultyBlocks = False, enforce_BIP94 = False, fPowNoRetargeting = False,
     nPowTargetSpacing = 10 * 60, nPowTargetTimespan = 14 * 24 * 60 * 60\<rparr>"

definition testnet_params :: consensus_params where
  "testnet_params = \<lparr>hashGenesisBlock = 0x58ff356066b8fd4c2b606d0b0fb3f8f787fefcbb5ec6147858cc0b0f1ccd9aec,
     nSubsidyHalvingInterval = 210000, BIP34Height = 1, BIP34Hash = 0, BIP65Height = 1, BIP66Height = 1,
     CSVHeight = 1, SegwitHeight = 1,
     powLimit = 0x7fffffffffffffffffffffffffffffffffffffffffffffffffffffffffffffff,
     fPowAllowMinDifficultyBlocks = True, enforce_BIP94 = False, fPowNoRetargeting = False,
     nPowTargetSpacing = 10 * 60, nPowTargetTimespan = 14 * 24 * 60 * 60\<rparr>"

definition testnet4_params :: consensus_params where
  "testnet4_params = \<lparr>hashGenesisBlock = 0x74b2e981c72c326ba6d640900a3d951928105e1b48c13ceffcdc729540c32273,
     nSubsidyHalvingInterval = 210000, BIP34Height = 1, BIP34Hash = 0, BIP65Height = 1, BIP66Height = 1,
     CSVHeight = 1, SegwitHeight = 1,
     powLimit = 0x7fffffffffffffffffffffffffffffffffffffffffffffffffffffffffffffff,
     fPowAllowMinDifficultyBlocks = True, enforce_BIP94 = True, fPowNoRetargeting = False,
     nPowTargetSpacing = 10 * 60, nPowTargetTimespan = 14 * 24 * 60 * 60\<rparr>"

lemma main_params_simps [simp]:
  "nSubsidyHalvingInterval main_params = 210000" "BIP34Height main_params = 1" "BIP65Height main_params = 1"
  "BIP66Height main_params = 1" "BIP34Hash main_params = 0" "CSVHeight main_params = 1" "SegwitHeight main_params = 1"
  "powLimit main_params = 2 ^ 224 - 1"
  "\<not> fPowAllowMinDifficultyBlocks main_params" "\<not> enforce_BIP94 main_params" "\<not> fPowNoRetargeting main_params"
  "nPowTargetSpacing main_params = 600" "nPowTargetTimespan main_params = 1209600"
  "DifficultyAdjustmentInterval main_params = 2016"
  by (simp_all add: main_params_def DifficultyAdjustmentInterval_def)

lemma testnet_params_simps [simp]:
  "powLimit testnet_params = 2 ^ 255 - 1" "\<not> enforce_BIP94 testnet_params" "\<not> fPowNoRetargeting testnet_params"
  "nPowTargetTimespan testnet_params = 1209600"
  by (simp_all add: testnet_params_def)

section \<open>Limbs of a number\<close>

lemma limb_value_digits:
  "limb_value (map (\<lambda>x. a div 2 ^ (32 * x) mod 2 ^ 32) [0..<k]) = a mod 2 ^ (32 * k)"
proof (induction k)
  case (Suc k)
  have "limb_value (map (\<lambda>x. a div 2 ^ (32 * x) mod 2 ^ 32) [0..<Suc k]) =
      a mod 2 ^ (32 * k) + 2 ^ (32 * k) * (a div 2 ^ (32 * k) mod 2 ^ 32)"
    using Suc by (simp add: limb_value_append)
  also have "\<dots> = a mod (2 ^ (32 * k) * 2 ^ 32)"
    by (simp only: mod_mult2_eq add.commute)
  finally show ?case
    by (simp only: mult_Suc_right power_add mult.commute [of "2 ^ 32"])
qed simp

lemma uint256_UintToArith256 [simp]: "uint256 (UintToArith256 a)"
  by (auto simp: uint256_def limbs_def UintToArith256_def)

lemma limb_value_UintToArith256: "limb_value (UintToArith256 a) = a mod 2 ^ 256"
  using limb_value_digits [of a WIDTH] by (simp add: UintToArith256_def)

end
