(* ===== verification/Proof_Of_Work.thy ===== *)
theory Proof_Of_Work
  imports Chain_Index Consensus_Params
begin

text \<open>
  The proof-of-work rules of the node: \<open>src/pow.cpp\<close>, the median of the last times
  (\<open>GetMedianTimePast\<close> of \<open>src/chain.h\<close>) and the header checks of \<open>src/validation.cpp\<close>. \<open>None\<close> stands
  for a failed assertion, a null pointer followed, or a division by zero. Every rule is brought down
  to numbers: the difficulty the code asks for is the old target times the time the last period took
  over the time it should have taken, within the limits, rounded to the compact form, provided the
  product fits into 256 bits. On the main network it does; on the test networks it does not.
\<close>

section \<open>Targets\<close>

definition DeriveTarget :: "nat \<Rightarrow> nat \<Rightarrow> base_uint option" where
  "DeriveTarget nBits pow_limit =
     (let (bnTarget, fNegative, fOverflow) = SetCompact nBits in
      if fNegative \<or> bnTarget = of_uint64 0 \<or> fOverflow \<or> 0 < CompareTo bnTarget (UintToArith256 pow_limit)
      then None else Some bnTarget)"

definition CheckProofOfWorkImpl :: "nat \<Rightarrow> nat \<Rightarrow> consensus_params \<Rightarrow> bool" where
  "CheckProofOfWorkImpl hash nBits params =
     (case DeriveTarget nBits (powLimit params) of
        None \<Rightarrow> False
      | Some bnTarget \<Rightarrow> \<not> 0 < CompareTo (UintToArith256 hash) bnTarget)"

text \<open>In a fuzzing build the check looks at the highest bit of the hash alone.\<close>

definition CheckProofOfWork :: "bool \<Rightarrow> nat \<Rightarrow> nat \<Rightarrow> consensus_params \<Rightarrow> bool" where
  "CheckProofOfWork EnableFuzzDeterminism hash nBits params =
     (if EnableFuzzDeterminism then \<not> bit hash 255 else CheckProofOfWorkImpl hash nBits params)"

text \<open>A target times a timespan over the intended one, at most the limit: \<open>*=\<close> takes a \<open>uint32_t\<close>, so
  the timespan is converted modulo \<open>2^32\<close>.\<close>

definition scaled_target :: "consensus_params \<Rightarrow> nat \<Rightarrow> int \<Rightarrow> base_uint option" where
  "scaled_target params nBits timespan =
     map_option
       (\<lambda>bn. if 0 < CompareTo bn (UintToArith256 (powLimit params)) then UintToArith256 (powLimit params) else bn)
       (div_uint (mul32_uint (compact_target nBits) (nat (timespan mod 2 ^ 32)))
                 (of_uint64 (nat (nPowTargetTimespan params mod 2 ^ 64))))"

definition clamp_timespan :: "consensus_params \<Rightarrow> int \<Rightarrow> int" where
  "clamp_timespan params nActualTimespan =
     (let n = (if nActualTimespan < nPowTargetTimespan params div 4
               then nPowTargetTimespan params div 4 else nActualTimespan)
      in if nPowTargetTimespan params * 4 < n then nPowTargetTimespan params * 4 else n)"

definition CalculateNextWorkRequired ::
  "block_map \<Rightarrow> block_hash \<Rightarrow> int \<Rightarrow> consensus_params \<Rightarrow> nat option" where
  "CalculateNextWorkRequired m pindexLast nFirstBlockTime params = do {
     last \<leftarrow> m pindexLast;
     if fPowNoRetargeting params then Some (bi_nBits last)
     else do {
       bits \<leftarrow> (if enforce_BIP94 params
                then do {
                  pindexFirst \<leftarrow> GetAncestor m pindexLast
                    (int (bi_nHeight last) - (DifficultyAdjustmentInterval params - 1));
                  p \<leftarrow> pindexFirst;
                  first \<leftarrow> m p;
                  Some (bi_nBits first)
                }
                else Some (bi_nBits last));
       map_option GetCompact
         (scaled_target params bits (clamp_timespan params (int (bi_nTime last) - nFirstBlockTime)))
     }
   }"

text \<open>Back over the blocks that the minimum-difficulty rule of the test networks let in.\<close>

partial_function (option) min_rule_loop :: "block_map \<Rightarrow> int \<Rightarrow> nat \<Rightarrow> block_hash \<Rightarrow> nat option" where
  "min_rule_loop m interval limit p =
     (case m p of
        None \<Rightarrow> None
      | Some b \<Rightarrow>
          (case bi_pprev b of
             None \<Rightarrow> Some (bi_nBits b)
           | Some q \<Rightarrow>
               if int (bi_nHeight b) mod interval \<noteq> 0 \<and> bi_nBits b = limit
               then min_rule_loop m interval limit q else Some (bi_nBits b)))"

definition GetNextWorkRequired ::
  "block_map \<Rightarrow> block_hash \<Rightarrow> block_header \<Rightarrow> consensus_params \<Rightarrow> nat option" where
  "GetNextWorkRequired m pindexLast pblock params =
     (let nProofOfWorkLimit = GetCompact (UintToArith256 (powLimit params));
          interval = DifficultyAdjustmentInterval params
      in do {
        last \<leftarrow> m pindexLast;
        if (int (bi_nHeight last) + 1) mod interval \<noteq> 0
        then if fPowAllowMinDifficultyBlocks params
             then if int (bi_nTime last) + nPowTargetSpacing params * 2 < int (hd_nTime pblock)
                  then Some nProofOfWorkLimit
                  else min_rule_loop m interval nProofOfWorkLimit pindexLast
             else Some (bi_nBits last)
        else let nHeightFirst = int (bi_nHeight last) - (interval - 1) in
             if nHeightFirst < 0 then None
             else do {
               pindexFirst \<leftarrow> GetAncestor m pindexLast nHeightFirst;
               p \<leftarrow> pindexFirst;
               first \<leftarrow> m p;
               CalculateNextWorkRequired m pindexLast (int (bi_nTime first)) params
             }
      })"

definition PermittedDifficultyTransition ::
  "consensus_params \<Rightarrow> int \<Rightarrow> nat \<Rightarrow> nat \<Rightarrow> bool option" where
  "PermittedDifficultyTransition params height old_nbits new_nbits =
     (if fPowAllowMinDifficultyBlocks params then Some True
      else if height mod DifficultyAdjustmentInterval params = 0
      then do {
        largest \<leftarrow> scaled_target params old_nbits (nPowTargetTimespan params * 4);
        if CompareTo (compact_target (GetCompact largest)) (compact_target new_nbits) < 0 then Some False
        else do {
          smallest \<leftarrow> scaled_target params old_nbits (nPowTargetTimespan params div 4);
          Some (\<not> 0 < CompareTo (compact_target (GetCompact smallest)) (compact_target new_nbits))
        }
      }
      else Some (old_nbits = new_nbits))"

section \<open>Header checks\<close>

abbreviation (input) nMedianTimeSpan :: nat where "nMedianTimeSpan \<equiv> 11"

abbreviation (input) MAX_TIMEWARP :: int where "MAX_TIMEWARP \<equiv> 600"

abbreviation (input) MAX_FUTURE_BLOCK_TIME :: int where "MAX_FUTURE_BLOCK_TIME \<equiv> 2 * 60 * 60"

text \<open>The times of the last blocks, the youngest first.\<close>

fun last_times :: "block_map \<Rightarrow> nat \<Rightarrow> block_hash option \<Rightarrow> nat list" where
  "last_times m (Suc i) (Some p) =
     (case m p of None \<Rightarrow> [] | Some b \<Rightarrow> bi_nTime b # last_times m i (bi_pprev b))"
| "last_times m _ _ = []"

definition GetMedianTimePast :: "block_map \<Rightarrow> block_hash \<Rightarrow> nat" where
  "GetMedianTimePast m p = (let ts = last_times m nMedianTimeSpan (Some p) in sort ts ! (length ts div 2))"

text \<open>The reject reason of a header; \<open>Bad_Version\<close> carries the version that the reason prints.\<close>

datatype header_result = Header_Valid | Header_Invalid string | Bad_Version int

definition CheckBlockHeader ::
  "(block_header \<Rightarrow> block_hash) \<Rightarrow> block_header \<Rightarrow> consensus_params \<Rightarrow> bool \<Rightarrow> header_result" where
  "CheckBlockHeader GetHash block params fCheckPOW =
     (if fCheckPOW \<and> \<not> CheckProofOfWork False (GetHash block) (hd_nBits block) params
      then Header_Invalid ''high-hash'' else Header_Valid)"

text \<open>\<open>DeploymentActiveAfter\<close> for the deployments that are buried at a height.\<close>

definition DeploymentActiveAfter :: "block_index option \<Rightarrow> int \<Rightarrow> bool" where
  "DeploymentActiveAfter pindexPrev height \<longleftrightarrow>
     height \<le> (case pindexPrev of None \<Rightarrow> 0 | Some prev \<Rightarrow> int (bi_nHeight prev) + 1)"

definition ContextualCheckBlockHeader ::
  "block_map \<Rightarrow> block_hash \<Rightarrow> block_header \<Rightarrow> consensus_params \<Rightarrow> int \<Rightarrow> header_result option" where
  "ContextualCheckBlockHeader m pindexPrev block params now = do {
     prev \<leftarrow> m pindexPrev;
     bits \<leftarrow> GetNextWorkRequired m pindexPrev block params;
     Some (if hd_nBits block \<noteq> bits then Header_Invalid ''bad-diffbits''
           else if hd_nTime block \<le> GetMedianTimePast m pindexPrev then Header_Invalid ''time-too-old''
           else if enforce_BIP94 params \<and>
                   (int (bi_nHeight prev) + 1) mod DifficultyAdjustmentInterval params = 0 \<and>
                   int (hd_nTime block) < int (bi_nTime prev) - MAX_TIMEWARP
                then Header_Invalid ''time-timewarp-attack''
           else if now + MAX_FUTURE_BLOCK_TIME < int (hd_nTime block) then Header_Invalid ''time-too-new''
           else if hd_nVersion block < 2 \<and> DeploymentActiveAfter (Some prev) (BIP34Height params) \<or>
                   hd_nVersion block < 3 \<and> DeploymentActiveAfter (Some prev) (BIP66Height params) \<or>
                   hd_nVersion block < 4 \<and> DeploymentActiveAfter (Some prev) (BIP65Height params)
                then Bad_Version (hd_nVersion block)
           else Header_Valid)
   }"

section \<open>Down to numbers\<close>

definition valid_bits :: "nat \<Rightarrow> nat \<Rightarrow> bool" where
  "valid_bits limit nBits \<longleftrightarrow>
     snd (SetCompact nBits) = (False, False) \<and> 0 < limb_value (compact_target nBits) \<and>
     limb_value (compact_target nBits) \<le> limit"

lemma DeriveTarget_iff:
  assumes "limit < 2 ^ 256"
  shows "DeriveTarget nBits limit = (if valid_bits limit nBits then Some (compact_target nBits) else None)"
proof -
  obtain t neg ovf where s: "SetCompact nBits = (t, neg, ovf)"
    by (metis prod_cases3)
  have t: "uint256 t"
    using uint256_SetCompact [of nBits] by (simp add: s)
  have "limb_value (UintToArith256 limit) = limit"
    unfolding limb_value_UintToArith256 using assms by (rule mod_less)
  then show ?thesis
    by (auto simp: DeriveTarget_def s valid_bits_def uint256_zero_iff [OF t] CompareTo_pos [OF t] not_less)
qed

definition scaled_number :: "nat \<Rightarrow> nat \<Rightarrow> nat \<Rightarrow> nat \<Rightarrow> nat" where
  "scaled_number limit T t ts = min (t * ts mod 2 ^ 256 div T) limit"

lemma scaled_target_value:
  assumes "powLimit params < 2 ^ 256" "0 < nPowTargetTimespan params" "nPowTargetTimespan params < 2 ^ 63"
    and "0 \<le> ts" "ts < 2 ^ 32"
  shows "\<exists>r. scaled_target params nBits ts = Some r \<and> uint256 r \<and>
    limb_value r = scaled_number (powLimit params) (nat (nPowTargetTimespan params))
      (limb_value (compact_target nBits)) (nat ts)"
proof -
  let ?T = "nPowTargetTimespan params" and ?t = "compact_target nBits"
  let ?L = "UintToArith256 (powLimit params)"
  have T: "nat (?T mod 2 ^ 64) = nat ?T" "nat ?T < 2 ^ 64" "0 < nat ?T"
    using assms(2,3) by simp_all
  have ts: "nat (ts mod 2 ^ 32) = nat ts" "nat ts < 2 ^ 32"
    using assms(4,5) by simp_all
  have L: "limb_value ?L = powLimit params"
    unfolding limb_value_UintToArith256 using assms(1) by (rule mod_less)
  have d: "limb_value (of_uint64 (nat ?T)) = nat ?T"
    by (rule limb_value_of_uint64 [OF T(2)])
  have n: "uint256 (mul32_uint ?t (nat ts))"
    "limb_value (mul32_uint ?t (nat ts)) = limb_value ?t * nat ts mod 2 ^ 256"
    using ts(2) by (simp_all add: limb_value_mul32)
  obtain q where q: "div_uint (mul32_uint ?t (nat ts)) (of_uint64 (nat ?T)) = Some q" "uint256 q"
    "limb_value q = limb_value ?t * nat ts mod 2 ^ 256 div nat ?T"
    using div_uint_correct [OF n(1) uint256_of_uint64, of "nat ?T"] T(3) unfolding d n(2) by blast
  show ?thesis
    unfolding scaled_target_def T(1) ts(1) q(1) scaled_number_def
    using q(2,3) L by (auto simp: CompareTo_pos [OF q(2)] min_def)
qed

lemma clamp_timespan_bounds:
  assumes "0 \<le> nPowTargetTimespan params"
  shows "nPowTargetTimespan params div 4 \<le> clamp_timespan params a" "clamp_timespan params a \<le> nPowTargetTimespan params * 4"
  using assms by (auto simp: clamp_timespan_def Let_def)

text \<open>The loop of the minimum-difficulty rule ends on every index, at an ancestor that the rule did not let
  in or at the root.\<close>

lemma min_rule_loop_returns:
  assumes "index_wf m" "m p = Some b"
  shows "\<exists>n q c. prev_steps m n p = Some q \<and> m q = Some c \<and>
    min_rule_loop m interval limit p = Some (bi_nBits c) \<and>
    (bi_pprev c = None \<or> int (bi_nHeight c) mod interval = 0 \<or> bi_nBits c \<noteq> limit)"
  using assms(2)
proof (induction "bi_nHeight b" arbitrary: p b rule: less_induct)
  case less
  show ?case
  proof (cases "\<exists>q. bi_pprev b = Some q \<and> int (bi_nHeight b) mod interval \<noteq> 0 \<and> bi_nBits b = limit")
    case False
    then have "min_rule_loop m interval limit p = Some (bi_nBits b)"
      using less.prems by (auto simp: min_rule_loop.simps [of _ _ _ p] split: option.split)
    then show ?thesis
      using False less.prems by (intro exI [of _ 0] exI [of _ p] exI [of _ b]) auto
  next
    case True
    then obtain q where q: "bi_pprev b = Some q" and
      "min_rule_loop m interval limit p = min_rule_loop m interval limit q"
      using less.prems by (auto simp: min_rule_loop.simps [of _ _ _ p])
    moreover obtain c where "m q = Some c" "bi_nHeight b = Suc (bi_nHeight c)"
      by (rule index_wf_prev [OF assms(1) less.prems q])
    ultimately obtain n r d where "prev_steps m n q = Some r" "m r = Some d"
      "min_rule_loop m interval limit p = Some (bi_nBits d)"
      "bi_pprev d = None \<or> int (bi_nHeight d) mod interval = 0 \<or> bi_nBits d \<noteq> limit"
      using less.hyps [of c q] by auto
    then show ?thesis
      using q less.prems by (intro exI [of _ "Suc n"] exI [of _ r] exI [of _ d]) simp
  qed
qed

text \<open>What one adjustment of the difficulty does, when no product overflows.\<close>

locale retargeting =
  fixes params :: consensus_params
  assumes limit: "powLimit params < 2 ^ 256"
    and timespan: "4 \<le> nPowTargetTimespan params" "nPowTargetTimespan params * 4 < 2 ^ 32"
      "nPowTargetTimespan params mod 4 = 0"
    and interval: "0 < DifficultyAdjustmentInterval params"
    and no_overflow: "powLimit params * nat (nPowTargetTimespan params * 4) < 2 ^ 256"
begin

lemma product_fits:
  assumes "valid_bits (powLimit params) nBits" "ts \<le> nat (nPowTargetTimespan params * 4)"
  shows "limb_value (compact_target nBits) * ts < 2 ^ 256"
  using assms mult_le_mono [of "limb_value (compact_target nBits)" "powLimit params" ts] no_overflow
  by (meson le_less_trans valid_bits_def)

lemma scaled_target_exact:
  assumes "valid_bits (powLimit params) nBits" "0 \<le> ts" "ts \<le> nPowTargetTimespan params * 4"
  shows "\<exists>r. scaled_target params nBits ts = Some r \<and> uint256 r \<and>
    limb_value r = min (limb_value (compact_target nBits) * nat ts div nat (nPowTargetTimespan params)) (powLimit params)"
proof -
  have "limb_value (compact_target nBits) * nat ts < 2 ^ 256"
    using assms(3) by (intro product_fits [OF assms(1)] nat_mono)
  then have "limb_value (compact_target nBits) * nat ts mod 2 ^ 256 = limb_value (compact_target nBits) * nat ts"
    by (rule mod_less)
  then show ?thesis
    using scaled_target_value [OF limit _ _ assms(2), of nBits] timespan assms(3)
    unfolding scaled_number_def by auto
qed

lemma scaled_target_mono:
  assumes "valid_bits (powLimit params) nBits" "0 \<le> ts" "ts \<le> ts'" "ts' \<le> nPowTargetTimespan params * 4"
    and "scaled_target params nBits ts = Some r" "scaled_target params nBits ts' = Some r'"
  shows "limb_value r \<le> limb_value r'" "uint256 r" "uint256 r'"
proof -
  have "limb_value (compact_target nBits) * nat ts \<le> limb_value (compact_target nBits) * nat ts'"
    using assms(2,3) by (intro mult_le_mono2 nat_mono)
  then have le: "min (limb_value (compact_target nBits) * nat ts div nat (nPowTargetTimespan params)) (powLimit params)
      \<le> min (limb_value (compact_target nBits) * nat ts' div nat (nPowTargetTimespan params)) (powLimit params)"
    by (intro min.mono div_le_mono order_refl)
  have "ts \<le> nPowTargetTimespan params * 4" "0 \<le> ts'"
    using assms(2-4) by simp_all
  then have "uint256 r \<and> uint256 r' \<and> limb_value r \<le> limb_value r'"
    using scaled_target_exact [OF assms(1,2)] scaled_target_exact [OF assms(1) _ assms(4)] assms(5,6) le
    by (metis option.inject)
  then show "limb_value r \<le> limb_value r'" "uint256 r" "uint256 r'"
    by simp_all
qed

text \<open>The adjusted target is accepted by the check of the permitted transitions, and it is a valid
  target again when the old one was at least 4.\<close>

lemma retarget_permitted:
  assumes bits: "valid_bits (powLimit params) nBits"
    and new: "scaled_target params nBits (clamp_timespan params a) = Some r"
    and height: "height mod DifficultyAdjustmentInterval params = 0"
  shows "PermittedDifficultyTransition params height nBits (GetCompact r) = Some True"
proof -
  let ?T = "nPowTargetTimespan params" and ?ts = "clamp_timespan params a"
  have ts: "?T div 4 \<le> ?ts" "?ts \<le> ?T * 4" "0 \<le> ?T div 4" "0 \<le> ?T * 4"
    using clamp_timespan_bounds [of params a] timespan by simp_all
  obtain l where l: "scaled_target params nBits (?T * 4) = Some l"
    using scaled_target_exact [OF bits ts(4)] by auto
  have "?T div 4 \<le> ?T * 4"
    using ts by simp
  then obtain s where s: "scaled_target params nBits (?T div 4) = Some s"
    using scaled_target_exact [OF bits ts(3)] by auto
  have "limb_value r \<le> limb_value l" "limb_value s \<le> limb_value r" "uint256 r" "uint256 l" "uint256 s"
    using scaled_target_mono [OF bits _ ts(2) _ new l] scaled_target_mono [OF bits ts(3,1,2) s new] ts
    by simp_all
  then show ?thesis
    using height l s
    by (simp add: PermittedDifficultyTransition_def CompareTo_pos CompareTo_nonneg [THEN iffD2, THEN leD]
        SetCompact_GetCompact compact_round_mono not_less)
qed

lemma retarget_valid:
  assumes bits: "valid_bits (powLimit params) nBits" and four: "4 \<le> limb_value (compact_target nBits)"
    and new: "scaled_target params nBits (clamp_timespan params a) = Some r" and pos: "0 < powLimit params"
  shows "valid_bits (powLimit params) (GetCompact r)"
proof -
  let ?T = "nPowTargetTimespan params" and ?ts = "clamp_timespan params a" and ?t = "limb_value (compact_target nBits)"
  have ts: "?T div 4 \<le> ?ts" "?ts \<le> ?T * 4"
    using clamp_timespan_bounds [of params a] timespan by simp_all
  have r: "uint256 r" "limb_value r = min (?t * nat ?ts div nat ?T) (powLimit params)"
    using scaled_target_exact [OF bits _ ts(2)] ts(1) timespan(1) new by auto
  have "4 * (?T div 4) = ?T"
    using timespan(3) by (metis add_0_right mult_div_mod_eq)
  then have "nat ?T = 4 * nat (?T div 4)"
    by (metis nat_mult_distrib nat_numeral zero_le_numeral)
  also have "\<dots> \<le> ?t * nat ?ts"
    using four ts(1) by (intro mult_le_mono nat_mono)
  finally have "0 < ?t * nat ?ts div nat ?T"
    using timespan(1) by (simp add: div_greater_zero_iff)
  then have "0 < limb_value r"
    using r(2) pos by simp
  then have "0 < compact_round (limb_value r)"
    using compact_round_power [of "limb_value r"] by (meson less_le_trans zero_less_numeral zero_less_power)
  moreover have "compact_round (limb_value r) \<le> powLimit params"
    using compact_round_le [of "limb_value r"] r(2) by simp
  ultimately show ?thesis
    using SetCompact_GetCompact [OF r(1)] by (simp add: valid_bits_def)
qed

lemma next_work_permitted:
  assumes wf: "index_wf m" and b: "m p = Some b" and bits: "valid_bits (powLimit params) (bi_nBits b)"
    and rules: "\<not> fPowAllowMinDifficultyBlocks params" "\<not> enforce_BIP94 params" "\<not> fPowNoRetargeting params"
  shows "\<exists>new. GetNextWorkRequired m p block params = Some new \<and>
    PermittedDifficultyTransition params (int (bi_nHeight b) + 1) (bi_nBits b) new = Some True \<and>
    (4 \<le> limb_value (compact_target (bi_nBits b)) \<longrightarrow> valid_bits (powLimit params) new)"
proof (cases "(int (bi_nHeight b) + 1) mod DifficultyAdjustmentInterval params = 0")
  case False
  then show ?thesis
    using rules b bits by (simp add: GetNextWorkRequired_def PermittedDifficultyTransition_def)
next
  case True
  let ?I = "DifficultyAdjustmentInterval params"
  have "?I \<le> int (bi_nHeight b) + 1"
    using True by (intro zdvd_imp_le) auto
  then have h: "0 \<le> int (bi_nHeight b) - (?I - 1)" "int (bi_nHeight b) - (?I - 1) \<le> int (bi_nHeight b)"
    using interval by simp_all
  then obtain q c where q: "GetAncestor m p (int (bi_nHeight b) - (?I - 1)) = Some (Some q)" "m q = Some c"
    using GetAncestor_steps [OF wf b, of "int (bi_nHeight b) - (?I - 1)"]
      prev_steps_total [OF wf b, of "bi_nHeight b - nat (int (bi_nHeight b) - (?I - 1))"] by auto
  let ?ts = "clamp_timespan params (int (bi_nTime b) - int (bi_nTime c))"
  have ts: "0 \<le> ?ts" "?ts \<le> nPowTargetTimespan params * 4"
    using clamp_timespan_bounds [of params "int (bi_nTime b) - int (bi_nTime c)"] timespan(1) by simp_all
  obtain r where r: "scaled_target params (bi_nBits b) ?ts = Some r"
    using scaled_target_exact [OF bits ts] by blast
  have "GetNextWorkRequired m p block params = Some (GetCompact r)"
    using True h q b r rules by (simp add: GetNextWorkRequired_def CalculateNextWorkRequired_def Let_def)
  moreover have "0 < powLimit params"
    using bits by (simp add: valid_bits_def)
  ultimately show ?thesis
    using retarget_permitted [OF bits r True] retarget_valid [OF bits _ r] by simp
qed

end

interpretation main: retargeting main_params
  by unfold_locales simp_all

section \<open>Medians\<close>

text \<open>The element of a sorted list at a position, by the number of smaller ones.\<close>

lemma sort_nth_ge_iff:
  fixes ys :: "nat list"
  assumes "i < length ys"
  shows "v \<le> sort ys ! i \<longleftrightarrow> length (filter (\<lambda>y. y < v) ys) \<le> i"
proof -
  let ?zs = "sort ys"
  have "length (filter (\<lambda>y. y < v) ys) = length (filter (\<lambda>y. y < v) ?zs)"
    by (simp add: filter_sort)
  then have len: "length (filter (\<lambda>y. y < v) ys) = card {j. j < length ?zs \<and> ?zs ! j < v}"
    by (simp only: length_filter_conv_card)
  show ?thesis
  proof
    assume "v \<le> ?zs ! i"
    then have "j < i" if "j < length ?zs" "?zs ! j < v" for j
      using sorted_nth_mono [OF sorted_sort, of i j ys] that by (cases "j < i") simp_all
    then have "{j. j < length ?zs \<and> ?zs ! j < v} \<subseteq> {..<i}"
      by blast
    then have "card {j. j < length ?zs \<and> ?zs ! j < v} \<le> card {..<i}"
      by (intro card_mono) simp_all
    then show "length (filter (\<lambda>y. y < v) ys) \<le> i"
      using len by simp
  next
    assume le: "length (filter (\<lambda>y. y < v) ys) \<le> i"
    show "v \<le> ?zs ! i"
    proof (rule ccontr)
      assume "\<not> v \<le> ?zs ! i"
      then have "j < length ?zs \<and> ?zs ! j < v" if "j \<le> i" for j
        using sorted_nth_mono [OF sorted_sort that, of ys] assms that by simp
      then have "{..i} \<subseteq> {j. j < length ?zs \<and> ?zs ! j < v}"
        by blast
      then have "card {..i} \<le> card {j. j < length ?zs \<and> ?zs ! j < v}"
        by (intro card_mono) simp_all
      then show False
        using len le by simp
    qed
  qed
qed

definition median :: "nat list \<Rightarrow> nat" where
  "median ts = sort ts ! (length ts div 2)"

text \<open>A time above the median, put in front of the window, does not lower the median.\<close>

lemma median_cons:
  assumes "ts \<noteq> []" "median ts < t" "length ts \<le> Suc k"
  shows "median ts \<le> median (t # take k ts)"
proof -
  let ?v = "median ts"
  have "length ts div 2 < length ts"
    using assms(1) by simp
  then have "length (filter (\<lambda>y. y < ?v) ts) \<le> length ts div 2"
    using sort_nth_ge_iff [of "length ts div 2" ts ?v] by (simp add: median_def)
  moreover have "filter (\<lambda>y. y < ?v) ts = filter (\<lambda>y. y < ?v) (take k ts) @ filter (\<lambda>y. y < ?v) (drop k ts)"
    by (metis append_take_drop_id filter_append)
  ultimately have "length (filter (\<lambda>y. y < ?v) (t # take k ts)) \<le> length ts div 2"
    using assms(2) by simp
  also have "\<dots> \<le> length (t # take k ts) div 2"
    using assms(3) by (intro div_le_mono) simp
  finally show ?thesis
    using sort_nth_ge_iff [of "length (t # take k ts) div 2" "t # take k ts" ?v]
    unfolding median_def by simp
qed

lemma take_last_times: "take k (last_times m n p) = last_times m (min k n) p"
proof (induction n arbitrary: k p)
  case (Suc n)
  then show ?case
    by (cases k; cases p) (auto split: option.split)
qed simp

lemma length_last_times: "length (last_times m n p) \<le> n"
  by (induction m n p rule: last_times.induct) (auto split: option.split)

lemma GetMedianTimePast_step:
  assumes "m p = Some b" "bi_pprev b = Some q" "m q = Some c" "GetMedianTimePast m q < bi_nTime b"
  shows "GetMedianTimePast m q \<le> GetMedianTimePast m p"
proof -
  let ?ts = "last_times m 11 (Some q)"
  have "last_times m 11 (Some p) = bi_nTime b # take 10 ?ts"
  proof -
    have "last_times m (Suc 10) (Some p) = bi_nTime b # last_times m 10 (Some q)"
      using assms(1,2) by (simp only: last_times.simps option.case)
    moreover have "take 10 ?ts = last_times m 10 (Some q)"
      unfolding take_last_times by simp
    ultimately show ?thesis
      by simp
  qed
  moreover have "?ts \<noteq> []"
    using assms(3) last_times.simps(1) [of m 10 q] by simp
  moreover have "GetMedianTimePast m x = median (last_times m 11 (Some x))" for x
    by (simp only: GetMedianTimePast_def median_def Let_def)
  ultimately show ?thesis
    using median_cons [of ?ts "bi_nTime b" 10] assms(4) length_last_times [of m 11 "Some q"] by simp
qed

section \<open>Properties\<close>

text \<open>C18: On the main network, for every block of the index whose compact target is valid,
  \<open>GetNextWorkRequired\<close> returns (no assertion fails, nothing is divided by zero), the difficulty it
  asks of the next block is one that \<open>PermittedDifficultyTransition\<close> accepts, and it is a valid
  target again, unless the old target was below 4.\<close>

theorem required_work_permitted:
  assumes "index_reachable GetHash bm" "m_block_index bm p = Some b"
    and "DeriveTarget (bi_nBits b) (powLimit main_params) = Some t"
  shows "\<exists>new. GetNextWorkRequired (m_block_index bm) p block main_params = Some new \<and>
    PermittedDifficultyTransition main_params (int (bi_nHeight b) + 1) (bi_nBits b) new = Some True \<and>
    (4 \<le> limb_value t \<longrightarrow> DeriveTarget new (powLimit main_params) \<noteq> None)"
proof -
  have wf: "index_wf (m_block_index bm)"
    by (rule manager_wf_index [OF index_reachable_wf [OF assms(1)]])
  have bits: "valid_bits (powLimit main_params) (bi_nBits b)" "t = compact_target (bi_nBits b)"
    using assms(3) unfolding DeriveTarget_iff [OF main.limit] by (simp_all split: if_splits)
  show ?thesis
    using main.next_work_permitted [OF wf assms(2) bits(1)] bits(2)
    unfolding DeriveTarget_iff [OF main.limit] by auto
qed

lemma genesis_bits: "valid_bits (powLimit main_params) 0x1d00ffff" "4 \<le> limb_value (compact_target 0x1d00ffff)"
proof -
  have v: "limb_value (compact_target 0x1d00ffff) = 0xffff * 2 ^ 208"
    by (subst compact_target_shift) simp_all
  show "valid_bits (powLimit main_params) 0x1d00ffff"
    unfolding valid_bits_def v by (simp add: SetCompact_def)
  show "4 \<le> limb_value (compact_target 0x1d00ffff)"
    unfolding v by simp
qed

theorem required_work_permitted_witness:
  "\<exists>new. GetNextWorkRequired (m_block_index (example_index 3)) 3 (example_header 4) main_params = Some new \<and>
     PermittedDifficultyTransition main_params 3 0x1d00ffff new = Some True \<and>
     DeriveTarget new (powLimit main_params) \<noteq> None"
proof -
  obtain b where b: "m_block_index (example_index 3) 3 = Some b"
    using example_domain [of 3 3] by auto
  then have "bi_nBits b = 0x1d00ffff" "bi_nHeight b = 2"
    using example_entry [OF b] example_height [OF b] by simp_all
  moreover have "DeriveTarget 0x1d00ffff (powLimit main_params) = Some (compact_target 0x1d00ffff)"
    unfolding DeriveTarget_iff [OF main.limit] using genesis_bits(1) by simp
  ultimately show ?thesis
    using required_work_permitted [OF example_reachable b, of "compact_target 0x1d00ffff" "example_header 4"]
      genesis_bits(2) by simp
qed

text \<open>C19: On the main network the retarget is exact: no product overflows, and the new target is the old
  one times the time the period took, kept between a quarter and four times the two weeks, over the
  two weeks, at most the limit, rounded down to the compact form.\<close>

theorem main_retarget_exact:
  assumes "m p = Some b" "DeriveTarget (bi_nBits b) (powLimit main_params) = Some t"
  shows "\<exists>new. CalculateNextWorkRequired m p nFirstBlockTime main_params = Some new \<and>
    limb_value (compact_target new) =
      compact_round (min (limb_value t * nat (max 302400 (min 4838400 (int (bi_nTime b) - nFirstBlockTime))) div 1209600)
        (2 ^ 224 - 1))"
proof -
  let ?ts = "clamp_timespan main_params (int (bi_nTime b) - nFirstBlockTime)"
  have bits: "valid_bits (powLimit main_params) (bi_nBits b)" "t = compact_target (bi_nBits b)"
    using assms(2) unfolding DeriveTarget_iff [OF main.limit] by (simp_all split: if_splits)
  have ts: "?ts = max 302400 (min 4838400 (int (bi_nTime b) - nFirstBlockTime))"
    by (simp add: clamp_timespan_def Let_def)
  have bounds: "0 \<le> ?ts" "?ts \<le> nPowTargetTimespan main_params * 4"
    unfolding ts by simp_all
  obtain r where r: "scaled_target main_params (bi_nBits b) ?ts = Some r" "uint256 r"
    "limb_value r = min (limb_value t * nat ?ts div nat (nPowTargetTimespan main_params)) (powLimit main_params)"
    using main.scaled_target_exact [OF bits(1) bounds] bits(2) by blast
  have "CalculateNextWorkRequired m p nFirstBlockTime main_params = Some (GetCompact r)"
    using assms(1) r(1) by (simp add: CalculateNextWorkRequired_def)
  moreover have "limb_value (compact_target (GetCompact r)) = compact_round (limb_value r)"
    using SetCompact_GetCompact [OF r(2)] ..
  moreover note r(3) [unfolded ts main_params_simps nat_numeral]
  ultimately show ?thesis
    by (intro exI [of _ "GetCompact r"] conjI) (simp_all only:)
qed

theorem main_retarget_exact_witness:
  "\<exists>new. CalculateNextWorkRequired
       [1 \<mapsto> (CBlockIndex (example_header 1))\<lparr>bi_nTime := 700000\<rparr>] 1 95200 main_params = Some new \<and>
     limb_value (compact_target new) = compact_round (0xffff * 2 ^ 208 * 604800 div 1209600)"
proof -
  have v: "limb_value (compact_target 0x1d00ffff) = 0xffff * 2 ^ 208"
    by (subst compact_target_shift) simp_all
  have "DeriveTarget 0x1d00ffff (powLimit main_params) = Some (compact_target 0x1d00ffff)"
    unfolding DeriveTarget_iff [OF main.limit] using genesis_bits(1) by simp
  moreover define b where "b = (CBlockIndex (example_header 1))\<lparr>bi_nTime := 700000\<rparr>"
  moreover from this have "bi_nBits b = 0x1d00ffff" "bi_nTime b = 700000"
    by (simp_all add: CBlockIndex_def example_header_def)
  ultimately show ?thesis
    using main_retarget_exact [of "[1 \<mapsto> b]" 1 b "compact_target 0x1d00ffff" 95200] v by simp
qed

text \<open>C20: On the test network the retarget overflows: its limit is \<open>2^255 - 1\<close>, and the product of a
  target near the limit with the timespan does not fit into 256 bits. After a period at the minimum
  difficulty \<open>0x207fffff\<close> that took exactly the two weeks it should take, the code asks for a target
  that is more than 650000 times smaller, where the difficulty should have stayed as it was.\<close>

theorem testnet_retarget_overflows:
  assumes "m p = Some b" "bi_nBits b = 0x207fffff" "int (bi_nTime b) - nFirstBlockTime = 1209600"
  shows "\<exists>new. CalculateNextWorkRequired m p nFirstBlockTime testnet_params = Some new \<and>
    limb_value (compact_target new) * 650000 < limb_value (compact_target 0x207fffff) \<and>
    limb_value (compact_target 0x207fffff) \<le> powLimit testnet_params"
proof -
  have v: "limb_value (compact_target 0x207fffff) = 0x7fffff * 2 ^ 232"
    by (subst compact_target_shift) simp_all
  have "scaled_number (2 ^ 255 - 1) 1209600 (0x7fffff * 2 ^ 232) 1209600 * 650000 < 0x7fffff * 2 ^ 232"
    by (simp add: scaled_number_def)
  then obtain r where r: "scaled_target testnet_params 0x207fffff 1209600 = Some r" "uint256 r"
    "limb_value r * 650000 < 0x7fffff * 2 ^ 232"
    using scaled_target_value [of testnet_params 1209600 "0x207fffff"] v by auto
  have "clamp_timespan testnet_params 1209600 = 1209600"
    by (simp add: clamp_timespan_def)
  then have "CalculateNextWorkRequired m p nFirstBlockTime testnet_params = Some (GetCompact r)"
    using assms r(1) by (simp add: CalculateNextWorkRequired_def)
  moreover have "limb_value (compact_target (GetCompact r)) * 650000 \<le> limb_value r * 650000"
    using SetCompact_GetCompact [OF r(2)] compact_round_le by simp
  ultimately show ?thesis
    using r(3) v by (auto intro: le_less_trans)
qed

theorem testnet_retarget_overflows_witness:
  "\<exists>new. CalculateNextWorkRequired
       [1 \<mapsto> (CBlockIndex (example_header 1))\<lparr>bi_nTime := 1209600, bi_nBits := 0x207fffff\<rparr>] 1 0 testnet_params = Some new \<and>
     limb_value (compact_target new) * 650000 < limb_value (compact_target 0x207fffff)"
  using testnet_retarget_overflows
    [of "[1 \<mapsto> (CBlockIndex (example_header 1))\<lparr>bi_nTime := 1209600, bi_nBits := 0x207fffff\<rparr>]" 1 _ 0]
  by auto

text \<open>C28: A hash passes the proof-of-work check exactly when the compact target is neither negative, zero,
  overflowing nor above the limit, and the hash, as a number, does not exceed it; the block then
  counts for \<open>2^256\<close> over the target plus one, rounded down, in the chain work.\<close>

theorem proof_of_work_check:
  assumes "hash < 2 ^ 256" "powLimit params < 2 ^ 256"
  shows "(CheckProofOfWorkImpl hash nBits params \<longleftrightarrow>
      snd (SetCompact nBits) = (False, False) \<and> 0 < limb_value (compact_target nBits) \<and>
      limb_value (compact_target nBits) \<le> powLimit params \<and> hash \<le> limb_value (compact_target nBits)) \<and>
    (CheckProofOfWorkImpl hash nBits params \<longrightarrow>
      (\<exists>w. GetBlockProof nBits = Some w \<and>
         limb_value w = 2 ^ 256 div (limb_value (compact_target nBits) + 1) \<and> 0 < limb_value w))"
proof -
  let ?t = "limb_value (compact_target nBits)"
  have "limb_value (UintToArith256 hash) = hash"
    unfolding limb_value_UintToArith256 using assms(1) by (rule mod_less)
  then have check: "CheckProofOfWorkImpl hash nBits params \<longleftrightarrow> valid_bits (powLimit params) nBits \<and> hash \<le> ?t"
    by (simp add: CheckProofOfWorkImpl_def DeriveTarget_iff [OF assms(2)] CompareTo_pos not_less)
  have "0 < 2 ^ 256 div (?t + 1)"
    unfolding div_greater_zero_iff using compact_target_not_max [of nBits] by auto
  then show ?thesis
    using GetBlockProof_correct [of nBits] unfolding check valid_bits_def by auto
qed

theorem proof_of_work_check_witness:
  "CheckProofOfWorkImpl 5 0x1d00ffff main_params \<and>
   (\<exists>w. GetBlockProof 0x1d00ffff = Some w \<and> limb_value w = 2 ^ 256 div (0xffff * 2 ^ 208 + 1))"
proof -
  have v: "limb_value (compact_target 0x1d00ffff) = 0xffff * 2 ^ 208"
    by (subst compact_target_shift) simp_all
  have "CheckProofOfWorkImpl 5 0x1d00ffff main_params"
    using proof_of_work_check [of 5 main_params "0x1d00ffff"] genesis_bits(1) v by (simp add: valid_bits_def)
  then show ?thesis
    using proof_of_work_check [of 5 main_params "0x1d00ffff"] v by auto
qed

text \<open>A fresh entry does not change the times in front of an old one.\<close>

lemma last_times_extend:
  assumes "index_wf m" "m h = None" "m p = Some b"
  shows "last_times (m(h \<mapsto> x)) n (Some p) = last_times m n (Some p)"
  using assms(3)
proof (induction n arbitrary: p b)
  case (Suc n)
  have "p \<noteq> h"
    using assms(2) Suc.prems by auto
  show ?case
  proof (cases "bi_pprev b")
    case (Some q)
    then obtain c where "m q = Some c"
      using index_wf_prev [OF assms(1) Suc.prems] by blast
    then show ?thesis
      using Suc.prems Suc.IH [of q c] Some \<open>p \<noteq> h\<close> by simp
  qed (use Suc.prems \<open>p \<noteq> h\<close> in simp)
qed simp

text \<open>A header that passes the contextual checks carries the difficulty its predecessor requires, lies
  after the median of the last eleven times and at most two hours in the future, and when it is added
  to the index the median time of the chain does not fall.\<close>

theorem accepted_header_advances_median:
  assumes "index_reachable GetHash bm" "hd_hashPrevBlock block \<noteq> GetHash block"
    and "m_block_index bm (GetHash block) = None"
    and "ContextualCheckBlockHeader (m_block_index bm) (hd_hashPrevBlock block) block params now = Some Header_Valid"
  shows "\<exists>bm'. AddToBlockIndex GetHash block bm = Some (bm', GetHash block) \<and>
    GetNextWorkRequired (m_block_index bm) (hd_hashPrevBlock block) block params = Some (hd_nBits block) \<and>
    GetMedianTimePast (m_block_index bm) (hd_hashPrevBlock block) < hd_nTime block \<and>
    int (hd_nTime block) \<le> now + 7200 \<and>
    GetMedianTimePast (m_block_index bm) (hd_hashPrevBlock block)
      \<le> GetMedianTimePast (m_block_index bm') (GetHash block)"
proof -
  let ?m = "m_block_index bm" and ?q = "hd_hashPrevBlock block" and ?h = "GetHash block"
  have wf: "manager_wf bm"
    by (rule index_reachable_wf [OF assms(1)])
  have checks: "GetNextWorkRequired ?m ?q block params = Some (hd_nBits block)"
    "GetMedianTimePast ?m ?q < hd_nTime block" "int (hd_nTime block) \<le> now + 7200"
    using assms(4) by (auto simp: ContextualCheckBlockHeader_def bind_eq_Some_conv split: if_splits)
  obtain c where c: "?m ?q = Some c"
    using assms(4) by (auto simp: ContextualCheckBlockHeader_def bind_eq_Some_conv)
  obtain bm' new where new: "AddToBlockIndex GetHash block bm = Some (bm', ?h)"
    "m_block_index bm' = ?m(?h \<mapsto> new)" "entry_of ?m block new"
    using AddToBlockIndex_new [of bm GetHash block, OF wf assms(3,2)] by blast
  have entry: "bi_pprev new = Some ?q" "bi_nTime new = hd_nTime block"
    using new(3) c by (simp_all add: entry_of_def)
  have same: "GetMedianTimePast (m_block_index bm') ?q = GetMedianTimePast ?m ?q"
    unfolding new(2) GetMedianTimePast_def last_times_extend [OF manager_wf_index [OF wf] assms(3) c] ..
  have "GetMedianTimePast (m_block_index bm') ?q \<le> GetMedianTimePast (m_block_index bm') ?h"
  proof (rule GetMedianTimePast_step)
    show "m_block_index bm' ?h = Some new" "m_block_index bm' ?q = Some c"
      using new(2) c assms(2) by simp_all
  qed (use entry same checks(2) in simp_all)
  then show ?thesis
    using new(1) checks same by auto
qed

lemma example_median: "GetMedianTimePast (m_block_index (example_index 3)) 3 = 20"
proof -
  obtain a b c where e: "m_block_index (example_index 3) 1 = Some a" "m_block_index (example_index 3) 2 = Some b"
    "m_block_index (example_index 3) 3 = Some c"
    using example_domain [of 3 1] example_domain [of 3 2] example_domain [of 3 3] by auto
  have f: "bi_pprev a = None" "bi_pprev b = Some 1" "bi_pprev c = Some 2" "bi_nTime a = 10" "bi_nTime b = 20"
    "bi_nTime c = 30"
    using example_entry [OF e(1)] example_entry [OF e(2)] example_entry [OF e(3)] by simp_all
  have "last_times (m_block_index (example_index 3)) (Suc (Suc (Suc 8))) (Some 3) = [30, 20, 10]"
    by (simp only: last_times.simps e f option.case)
  then show ?thesis
    by (simp add: GetMedianTimePast_def)
qed

theorem accepted_header_advances_median_witness:
  "\<exists>bm'. AddToBlockIndex hd_nNonce ((example_header 4)\<lparr>hd_nVersion := 4\<rparr>) (example_index 3) = Some (bm', 4) \<and>
     20 \<le> GetMedianTimePast (m_block_index bm') 4"
proof -
  let ?m = "m_block_index (example_index 3)" and ?b = "(example_header 4)\<lparr>hd_nVersion := 4\<rparr>"
  have h: "hd_hashPrevBlock ?b = 3" "hd_nNonce ?b = 4" "hd_nTime ?b = 40" "hd_nBits ?b = 0x1d00ffff" "hd_nVersion ?b = 4"
    by (simp_all add: example_header_def)
  obtain c where entry: "?m 3 = Some c"
    using example_domain [of 3 3] by auto
  then have c: "?m 3 = Some c" "bi_nBits c = 0x1d00ffff" "bi_nHeight c = 2"
    using example_entry [OF entry] example_height [OF entry] by simp_all
  have "GetNextWorkRequired ?m 3 ?b main_params = Some 0x1d00ffff"
    using c by (simp add: GetNextWorkRequired_def)
  then have "ContextualCheckBlockHeader ?m 3 ?b main_params 0 = Some Header_Valid"
    using c example_median by (simp add: ContextualCheckBlockHeader_def h)
  moreover have "?m 4 = None"
    using example_domain [of 3 4] by simp
  ultimately show ?thesis
    using accepted_header_advances_median [OF example_reachable, of ?b 3 main_params 0] h example_median by auto
qed

end
