(* ===== verification/Transactions.thy ===== *)
theory Transactions
  imports Consensus_Params
begin

text \<open>
  Amounts, transactions and their context-free checks: \<open>src/consensus/amount.h\<close>, \<open>CTransaction\<close> of
  \<open>src/primitives/transaction.h\<close> with \<open>GetValueOut\<close>, \<open>CheckTransaction\<close> of
  \<open>src/consensus/tx_check.cpp\<close>, and the block subsidy of \<open>src/validation.cpp\<close>. An amount is an
  \<open>int64_t\<close>, whose addition is undefined when it overflows; the model adds with a check and has an
  outcome \<open>Crash\<close> for that, for a failed assertion and for an exception that leaves the function, so
  that the theorems can say it does not happen. The size of a serialised transaction is an argument.
\<close>

section \<open>Amounts\<close>

datatype 'a outcome = Accepted 'a | Invalid string | Crash

definition int64_add :: "int \<Rightarrow> int \<Rightarrow> int option" where
  "int64_add a b = (if - (2 ^ 63) \<le> a + b \<and> a + b < 2 ^ 63 then Some (a + b) else None)"

abbreviation (input) COIN :: int where "COIN \<equiv> 100000000"

abbreviation (input) MAX_MONEY :: int where "MAX_MONEY \<equiv> 21000000 * COIN"

definition MoneyRange :: "int \<Rightarrow> bool" where
  "MoneyRange nValue \<longleftrightarrow> 0 \<le> nValue \<and> nValue \<le> MAX_MONEY"

text \<open>The subsidy of a block; heights and the interval are not negative, so the division truncates.\<close>

definition GetBlockSubsidy :: "int \<Rightarrow> consensus_params \<Rightarrow> int" where
  "GetBlockSubsidy nHeight params =
     (let halvings = nHeight div nSubsidyHalvingInterval params in
      if 64 \<le> halvings then 0 else drop_bit (nat halvings) (50 * COIN))"

section \<open>Transactions\<close>

text \<open>The two hashes are members that the constructor computes from the rest with SHA-256; here they are
  fields.\<close>

datatype COutPoint = COutPoint (op_hash: nat) (op_n: nat)

definition outpoint_IsNull :: "COutPoint \<Rightarrow> bool" where
  "outpoint_IsNull p \<longleftrightarrow> op_hash p = 0 \<and> op_n p = 2 ^ 32 - 1"

record tx_in =
  prevout :: COutPoint
  scriptSig :: "nat list"
  nSequence :: nat
  scriptWitness :: "nat list list"

record tx_out =
  nValue :: int
  scriptPubKey :: "nat list"

record transaction =
  tx_vin :: "tx_in list"
  tx_vout :: "tx_out list"
  tx_version :: nat
  tx_nLockTime :: nat
  tx_hash :: nat
  tx_witness_hash :: nat

definition IsCoinBase :: "transaction \<Rightarrow> bool" where
  "IsCoinBase tx = (case tx_vin tx of [i] \<Rightarrow> outpoint_IsNull (prevout i) | _ \<Rightarrow> False)"

fun value_out_loop :: "int \<Rightarrow> tx_out list \<Rightarrow> int outcome" where
  "value_out_loop nValueOut [] = (if MoneyRange nValueOut then Accepted nValueOut else Crash)"
| "value_out_loop nValueOut (out # outs) =
     (if \<not> MoneyRange (nValue out) then Crash
      else case int64_add nValueOut (nValue out) of
             None \<Rightarrow> Crash
           | Some n \<Rightarrow> if \<not> MoneyRange n then Crash else value_out_loop n outs)"

definition GetValueOut :: "transaction \<Rightarrow> int outcome" where
  "GetValueOut tx = value_out_loop 0 (tx_vout tx)"

section \<open>Context-free checks\<close>

abbreviation (input) WITNESS_SCALE_FACTOR :: nat where "WITNESS_SCALE_FACTOR \<equiv> 4"

abbreviation (input) MAX_BLOCK_WEIGHT :: nat where "MAX_BLOCK_WEIGHT \<equiv> 4000000"

fun check_outputs :: "int \<Rightarrow> tx_out list \<Rightarrow> unit outcome" where
  "check_outputs nValueOut [] = Accepted ()"
| "check_outputs nValueOut (out # outs) =
     (if nValue out < 0 then Invalid ''bad-txns-vout-negative''
      else if MAX_MONEY < nValue out then Invalid ''bad-txns-vout-toolarge''
      else case int64_add nValueOut (nValue out) of
             None \<Rightarrow> Crash
           | Some n \<Rightarrow>
               if \<not> MoneyRange n then Invalid ''bad-txns-txouttotal-toolarge'' else check_outputs n outs)"

text \<open>The loop over a \<open>std::set\<close> of outpoints: is one inserted a second time?\<close>

fun duplicate_inputs :: "COutPoint set \<Rightarrow> tx_in list \<Rightarrow> bool" where
  "duplicate_inputs vInOutPoints [] = False"
| "duplicate_inputs vInOutPoints (i # is) =
     (prevout i \<in> vInOutPoints \<or> duplicate_inputs (insert (prevout i) vInOutPoints) is)"

definition CheckTransaction :: "(transaction \<Rightarrow> nat) \<Rightarrow> transaction \<Rightarrow> unit outcome" where
  "CheckTransaction GetSerializeSize tx =
     (if tx_vin tx = [] then Invalid ''bad-txns-vin-empty''
      else if tx_vout tx = [] then Invalid ''bad-txns-vout-empty''
      else if MAX_BLOCK_WEIGHT < GetSerializeSize tx * WITNESS_SCALE_FACTOR then Invalid ''bad-txns-oversize''
      else case check_outputs 0 (tx_vout tx) of
             Accepted _ \<Rightarrow>
               if duplicate_inputs {} (tx_vin tx) then Invalid ''bad-txns-inputs-duplicate''
               else if IsCoinBase tx
               then let n = length (scriptSig (tx_vin tx ! 0)) in
                    if n < 2 \<or> 100 < n then Invalid ''bad-cb-length'' else Accepted ()
               else if \<exists>i \<in> set (tx_vin tx). outpoint_IsNull (prevout i)
               then Invalid ''bad-txns-prevout-null'' else Accepted ()
           | r \<Rightarrow> r)"

section \<open>What the checks establish\<close>

lemma int64_add_money: "MoneyRange a \<Longrightarrow> MoneyRange b \<Longrightarrow> int64_add a b = Some (a + b)"
  by (simp add: int64_add_def MoneyRange_def)

lemma int64_add_Some: "int64_add a b = Some c \<Longrightarrow> c = a + b"
  by (simp add: int64_add_def split: if_splits)

abbreviation out_sum :: "tx_out list \<Rightarrow> int" where
  "out_sum outs \<equiv> sum_list (map nValue outs)"

lemma out_sum_nonneg: "\<forall>out \<in> set outs. 0 \<le> nValue out \<Longrightarrow> 0 \<le> out_sum outs"
  by (rule sum_list_nonneg) auto

text \<open>The running total of the loop stays in range exactly when the final one does.\<close>

lemma check_outputs_iff:
  assumes "MoneyRange n"
  shows "check_outputs n outs = Accepted () \<longleftrightarrow>
    (\<forall>out \<in> set outs. MoneyRange (nValue out)) \<and> MoneyRange (n + out_sum outs)"
  using assms
proof (induction outs arbitrary: n)
  case (Cons out outs)
  show ?case
  proof (cases "MoneyRange (nValue out)")
    case True
    have add: "int64_add n (nValue out) = Some (n + nValue out)"
      by (rule int64_add_money [OF Cons.prems True])
    show ?thesis
    proof (cases "MoneyRange (n + nValue out)")
      case in_range: True
      have "check_outputs n (out # outs) = check_outputs (n + nValue out) outs"
        using True add in_range by (simp add: MoneyRange_def)
      then show ?thesis
        using Cons.IH [OF in_range] True by (simp add: add.assoc)
    next
      case False
      then have "\<not> ((\<forall>o' \<in> set outs. MoneyRange (nValue o')) \<and> MoneyRange (n + out_sum (out # outs)))"
        using Cons.prems True out_sum_nonneg [of outs] by (auto simp: MoneyRange_def)
      then show ?thesis
        using True add False by (auto simp: MoneyRange_def)
    qed
  qed (auto simp: MoneyRange_def)
qed simp

lemma check_outputs_not_Crash: "MoneyRange n \<Longrightarrow> check_outputs n outs \<noteq> Crash"
proof (induction outs arbitrary: n)
  case (Cons out outs)
  then show ?case
    using int64_add_money [OF Cons.prems, of "nValue out"] by (auto simp: MoneyRange_def)
qed simp

lemma value_out_loop_correct:
  assumes "MoneyRange n" "\<forall>out \<in> set outs. MoneyRange (nValue out)" "MoneyRange (n + out_sum outs)"
  shows "value_out_loop n outs = Accepted (n + out_sum outs)"
  using assms
proof (induction outs arbitrary: n)
  case (Cons out outs)
  have "0 \<le> out_sum outs"
    using Cons.prems(2) by (intro out_sum_nonneg) (simp add: MoneyRange_def)
  then have "MoneyRange (n + nValue out)"
    using Cons.prems by (simp add: MoneyRange_def)
  then show ?case
    using Cons int64_add_money [of n "nValue out"] by (simp add: add.assoc)
qed simp

lemma duplicate_inputs_iff:
  "\<not> duplicate_inputs A is \<longleftrightarrow> distinct (map prevout is) \<and> set (map prevout is) \<inter> A = {}"
  by (induction A "is" rule: duplicate_inputs.induct) auto

section \<open>Emission\<close>

lemma drop_bit_subsidy: "33 \<le> k \<Longrightarrow> drop_bit k (5000000000 :: int) = 0"
proof -
  assume "33 \<le> k"
  then have "(2::int) ^ 33 \<le> 2 ^ k"
    by (rule power_increasing) simp
  then show ?thesis
    by (simp add: drop_bit_eq_div)
qed

lemma GetBlockSubsidy_main: "GetBlockSubsidy (int h) main_params = drop_bit (h div 210000) 5000000000"
proof -
  have h: "int h div 210000 = int (h div 210000)"
    by (simp add: zdiv_int)
  show ?thesis
    using drop_bit_subsidy [of "h div 210000"] unfolding GetBlockSubsidy_def Let_def main_params_simps h by simp
qed

lemma subsidy_nonneg: "0 \<le> GetBlockSubsidy nHeight params"
  by (simp add: GetBlockSubsidy_def Let_def)

lemma subsidy_le: "GetBlockSubsidy nHeight params \<le> 5000000000"
  using zdiv_mono2 [of 5000000000 1 "2 ^ nat (nHeight div nSubsidyHalvingInterval params)"]
  by (simp add: GetBlockSubsidy_def Let_def drop_bit_eq_div)

lemma emission_periods:
  "(\<Sum>h<210000 * k. GetBlockSubsidy (int h) main_params) = (\<Sum>j<k. 210000 * drop_bit j 5000000000)"
proof (induction k)
  case (Suc k)
  have "(\<Sum>h<210000 * Suc k. GetBlockSubsidy (int h) main_params) =
      (\<Sum>h<210000 * k. GetBlockSubsidy (int h) main_params) +
      (\<Sum>h = 210000 * k..<210000 * k + 210000. GetBlockSubsidy (int h) main_params)"
    by (simp add: lessThan_atLeast0 sum.atLeastLessThan_concat add.commute)
  moreover have "GetBlockSubsidy (int h) main_params = drop_bit k 5000000000"
    if "h \<in> {210000 * k..<210000 * k + 210000}" for h
  proof -
    have "h div 210000 = k"
      using that by (intro div_nat_eqI) simp_all
    then show ?thesis
      by (simp add: GetBlockSubsidy_main)
  qed
  ultimately show ?case
    using Suc by simp
qed simp

lemma emission_total: "(\<Sum>j<33. 210000 * drop_bit j (5000000000::int)) = 2099999997690000"
  by (simp add: eval_nat_numeral lessThan_Suc drop_bit_eq_div)

lemma emission_over: "6930000 \<le> h \<Longrightarrow> GetBlockSubsidy (int h) main_params = 0"
proof -
  assume "6930000 \<le> h"
  then have "33 \<le> h div 210000"
    using div_le_mono [of 6930000 h 210000] by simp
  then show ?thesis
    unfolding GetBlockSubsidy_main by (rule drop_bit_subsidy)
qed

lemma emission_bound: "(\<Sum>h<n. GetBlockSubsidy (int h) main_params) \<le> 2099999997690000"
proof -
  have "(\<Sum>h<n. GetBlockSubsidy (int h) main_params) \<le> (\<Sum>h<max n 6930000. GetBlockSubsidy (int h) main_params)"
    using subsidy_nonneg by (intro sum_mono2) auto
  also have "\<dots> = (\<Sum>h<6930000. GetBlockSubsidy (int h) main_params)"
    using emission_over by (intro sum.mono_neutral_right) auto
  also have "\<dots> = 2099999997690000"
    using emission_periods [of 33] emission_total by simp
  finally show ?thesis .
qed

section \<open>Properties\<close>

text \<open>C24: \<open>CheckTransaction\<close> never overflows an amount, and it accepts exactly the transactions that have an
  input and an output, are not too large, whose outputs and their sum are amounts from 0 to 21 million
  coins, that spend no output twice, and whose script is of the right length (coinbase) or whose
  inputs all refer to an output (any other). For an accepted transaction \<open>GetValueOut\<close> returns that sum
  instead of throwing.\<close>

theorem check_transaction_exact:
  "CheckTransaction GetSerializeSize tx \<noteq> Crash \<and>
   (CheckTransaction GetSerializeSize tx = Accepted () \<longleftrightarrow>
      tx_vin tx \<noteq> [] \<and> tx_vout tx \<noteq> [] \<and> GetSerializeSize tx * 4 \<le> 4000000 \<and>
      (\<forall>out \<in> set (tx_vout tx). MoneyRange (nValue out)) \<and> MoneyRange (\<Sum>out \<leftarrow> tx_vout tx. nValue out) \<and>
      distinct (map prevout (tx_vin tx)) \<and>
      (if IsCoinBase tx then length (scriptSig (tx_vin tx ! 0)) \<in> {2..100}
       else \<forall>i \<in> set (tx_vin tx). \<not> outpoint_IsNull (prevout i))) \<and>
   (CheckTransaction GetSerializeSize tx = Accepted () \<longrightarrow>
      GetValueOut tx = Accepted (\<Sum>out \<leftarrow> tx_vout tx. nValue out))"
proof -
  have zero: "MoneyRange 0"
    by (simp add: MoneyRange_def)
  have crash: "CheckTransaction GetSerializeSize tx \<noteq> Crash"
    using check_outputs_not_Crash [OF zero, of "tx_vout tx"]
    by (auto simp: CheckTransaction_def Let_def split: outcome.splits)
  have iff: "CheckTransaction GetSerializeSize tx = Accepted () \<longleftrightarrow>
      tx_vin tx \<noteq> [] \<and> tx_vout tx \<noteq> [] \<and> GetSerializeSize tx * 4 \<le> 4000000 \<and>
      check_outputs 0 (tx_vout tx) = Accepted () \<and> \<not> duplicate_inputs {} (tx_vin tx) \<and>
      (if IsCoinBase tx then length (scriptSig (tx_vin tx ! 0)) \<in> {2..100}
       else \<forall>i \<in> set (tx_vin tx). \<not> outpoint_IsNull (prevout i))"
    by (auto simp: CheckTransaction_def Let_def split: outcome.splits)
  show ?thesis
    using crash value_out_loop_correct [OF zero, of "tx_vout tx"]
    unfolding iff check_outputs_iff [OF zero] duplicate_inputs_iff by (auto simp: GetValueOut_def)
qed

theorem check_transaction_exact_witness:
  "GetValueOut \<lparr>tx_vin = [\<lparr>prevout = COutPoint 7 0, scriptSig = [], nSequence = 0, scriptWitness = []\<rparr>],
      tx_vout = [\<lparr>nValue = 5, scriptPubKey = []\<rparr>, \<lparr>nValue = 6, scriptPubKey = []\<rparr>],
      tx_version = 2, tx_nLockTime = 0, tx_hash = 9, tx_witness_hash = 9\<rparr> = Accepted 11"
  using check_transaction_exact [of "\<lambda>tx. 100"
      "\<lparr>tx_vin = [\<lparr>prevout = COutPoint 7 0, scriptSig = [], nSequence = 0, scriptWitness = []\<rparr>],
        tx_vout = [\<lparr>nValue = 5, scriptPubKey = []\<rparr>, \<lparr>nValue = 6, scriptPubKey = []\<rparr>],
        tx_version = 2, tx_nLockTime = 0, tx_hash = 9, tx_witness_hash = 9\<rparr>"]
  by (simp add: MoneyRange_def IsCoinBase_def outpoint_IsNull_def)

text \<open>C29: On the main network all blocks together are never granted more than 20999999.97690000 coins,
  below the 21 million of \<open>MAX_MONEY\<close>; that sum is reached at height 6930000, after 33 halvings, and
  from there on the subsidy is 0.\<close>

theorem emission_is_capped:
  "(\<Sum>h<n. GetBlockSubsidy (int h) main_params) \<le> 2099999997690000 \<and>
   (6930000 \<le> n \<longrightarrow> (\<Sum>h<n. GetBlockSubsidy (int h) main_params) = 2099999997690000 \<and>
      GetBlockSubsidy (int n) main_params = 0)"
proof -
  let ?S = "\<lambda>n. \<Sum>h<n. GetBlockSubsidy (int h) main_params"
  have cap: "?S 6930000 = 2099999997690000"
    using emission_periods [of 33] emission_total by simp
  have "?S n = ?S 6930000" if "6930000 \<le> n"
    using that emission_over by (intro sum.mono_neutral_right) auto
  then show ?thesis
    using cap emission_bound emission_over by simp
qed

theorem emission_is_capped_witness:
  "(\<Sum>h<7000000. GetBlockSubsidy (int h) main_params) = 2099999997690000"
  using emission_is_capped [of 7000000] by simp

end
