(* ===== verification/Locktime.thy ===== *)
theory Locktime
  imports Proof_Of_Work Transactions
begin

text \<open>
  Lock times, \<open>src/consensus/tx_verify.cpp\<close>: \<open>IsFinalTx\<close> for the absolute ones and \<open>SequenceLocks\<close> for
  those relative to the block of the coin that is spent. The relative ones are first turned into the
  last height and the last time at which the transaction is not valid yet, which are then compared with
  the block. \<open>None\<close> is a failed assertion. The entries of \<open>prevHeights\<close> that the code sets to 0 are not
  read again by its caller \<open>ConnectBlock\<close>.
\<close>

section \<open>Operations\<close>

abbreviation (input) LOCKTIME_THRESHOLD :: int where "LOCKTIME_THRESHOLD \<equiv> 500000000"

abbreviation (input) SEQUENCE_FINAL :: nat where "SEQUENCE_FINAL \<equiv> 0xffffffff"

definition IsFinalTx :: "transaction \<Rightarrow> int \<Rightarrow> int \<Rightarrow> bool" where
  "IsFinalTx tx nBlockHeight nBlockTime =
     (if tx_nLockTime tx = 0 then True
      else if int (tx_nLockTime tx) <
              (if int (tx_nLockTime tx) < LOCKTIME_THRESHOLD then nBlockHeight else nBlockTime) then True
      else list_all (\<lambda>i. nSequence i = SEQUENCE_FINAL) (tx_vin tx))"

definition lock_disabled :: "nat \<Rightarrow> bool" where
  "lock_disabled s \<longleftrightarrow> s AND push_bit 31 1 \<noteq> 0"

definition lock_is_time :: "nat \<Rightarrow> bool" where
  "lock_is_time s \<longleftrightarrow> s AND push_bit 22 1 \<noteq> 0"

definition lock_value :: "nat \<Rightarrow> nat" where
  "lock_value s = s AND 0x0000ffff"

fun sequence_loop :: "block_map \<Rightarrow> block_hash \<Rightarrow> (tx_in \<times> nat) list \<Rightarrow> int \<times> int \<Rightarrow> (int \<times> int) option" where
  "sequence_loop m p [] (nMinHeight, nMinTime) = Some (nMinHeight, nMinTime)"
| "sequence_loop m p ((i, nCoinHeight) # rest) (nMinHeight, nMinTime) =
     (if lock_disabled (nSequence i) then sequence_loop m p rest (nMinHeight, nMinTime)
      else if lock_is_time (nSequence i)
      then do {
        ancestor \<leftarrow> GetAncestor m p (max (int nCoinHeight - 1) 0);
        q \<leftarrow> ancestor;
        sequence_loop m p rest (nMinHeight,
          max nMinTime (int (GetMedianTimePast m q) + int (push_bit 9 (lock_value (nSequence i))) - 1))
      }
      else sequence_loop m p rest
             (max nMinHeight (int nCoinHeight + int (lock_value (nSequence i)) - 1), nMinTime))"

definition CalculateSequenceLocks ::
  "block_map \<Rightarrow> transaction \<Rightarrow> bool \<Rightarrow> nat list \<Rightarrow> block_hash \<Rightarrow> (int \<times> int) option" where
  "CalculateSequenceLocks m tx verify_sequence prevHeights p =
     (if length prevHeights \<noteq> length (tx_vin tx) then None
      else if \<not> (2 \<le> tx_version tx \<and> verify_sequence) then Some (- 1, - 1)
      else sequence_loop m p (zip (tx_vin tx) prevHeights) (- 1, - 1))"

definition EvaluateSequenceLocks :: "block_map \<Rightarrow> block_hash \<Rightarrow> int \<times> int \<Rightarrow> bool option" where
  "EvaluateSequenceLocks m p lockPair = do {
     b \<leftarrow> m p;
     q \<leftarrow> bi_pprev b;
     Some (\<not> (int (bi_nHeight b) \<le> fst lockPair \<or> int (GetMedianTimePast m q) \<le> snd lockPair))
   }"

definition SequenceLocks ::
  "block_map \<Rightarrow> transaction \<Rightarrow> bool \<Rightarrow> nat list \<Rightarrow> block_hash \<Rightarrow> bool option" where
  "SequenceLocks m tx verify_sequence prevHeights p =
     Option.bind (CalculateSequenceLocks m tx verify_sequence prevHeights p) (EvaluateSequenceLocks m p)"

section \<open>The locks of the inputs one by one\<close>

text \<open>The input that spends a coin of height \<open>h\<close> may be in the block \<open>b\<close> at \<open>p\<close> with predecessor \<open>q\<close>.\<close>

definition unlocked :: "block_map \<Rightarrow> block_hash \<Rightarrow> block_index \<Rightarrow> block_hash \<Rightarrow> tx_in \<times> nat \<Rightarrow> bool" where
  "unlocked m p b q ih =
     (let (i, h) = ih; s = nSequence i in
      bit s 31 \<or>
      (if bit s 22
       then GetMedianTimePast m (the (prev_steps m (bi_nHeight b - (h - 1)) p)) + 512 * (s mod 2 ^ 16)
              \<le> GetMedianTimePast m q
       else h + s mod 2 ^ 16 \<le> bi_nHeight b))"

lemma and_push_bit_iff: "(s :: nat) AND push_bit n 1 \<noteq> 0 \<longleftrightarrow> bit s n"
  by (simp add: push_bit_eq_mult and_exp_eq_0_iff_not_bit)

lemma lock_simps: "lock_disabled s \<longleftrightarrow> bit s 31" "lock_is_time s \<longleftrightarrow> bit s 22" "lock_value s = s mod 2 ^ 16"
proof -
  have "lock_value s = s AND mask 16"
    by (simp add: lock_value_def mask_eq_exp_minus_1)
  then show "lock_value s = s mod 2 ^ 16"
    by (simp only: take_bit_eq_mask [symmetric] take_bit_eq_mod)
qed (simp_all only: lock_disabled_def lock_is_time_def and_push_bit_iff)

lemma max_before_iff: "max t (int x + int y - 1) < int z \<longleftrightarrow> t < int z \<and> x + y \<le> z"
  by auto

lemma sequence_loop_correct:
  assumes "index_wf m" "m p = Some b" "\<forall>(i, h) \<in> set ihs. h \<le> bi_nHeight b"
  shows "\<exists>lh lt. sequence_loop m p ihs (n, t) = Some (lh, lt) \<and>
    (lh < int (bi_nHeight b) \<and> lt < int (GetMedianTimePast m q) \<longleftrightarrow>
     n < int (bi_nHeight b) \<and> t < int (GetMedianTimePast m q) \<and> (\<forall>ih \<in> set ihs. unlocked m p b q ih))"
  using assms(3)
proof (induction ihs arbitrary: n t)
  case (Cons ih ihs)
  obtain i h where ih: "ih = (i, h)"
    by force
  have h: "h \<le> bi_nHeight b"
    using Cons.prems ih by simp
  show ?case
  proof (cases "bit (nSequence i) 31")
    case True
    then show ?thesis
      using Cons.IH [of n t] Cons.prems by (simp add: ih lock_simps unlocked_def)
  next
    case enabled: False
    show ?thesis
    proof (cases "bit (nSequence i) 22")
      case True
      obtain a where a: "prev_steps m (bi_nHeight b - (h - 1)) p = Some a"
        using prev_steps_total [OF assms(1,2), of "bi_nHeight b - (h - 1)"] by auto
      have n: "nat (max (int h - 1) 0) = h - 1" "max (int h - 1) 0 \<le> int (bi_nHeight b)"
        using h by auto
      let ?x = "GetMedianTimePast m a" and ?y = "push_bit 9 (lock_value (nSequence i))"
      have "GetAncestor m p (max (int h - 1) 0) = Some (Some a)"
        using a n unfolding GetAncestor_steps [OF assms(1,2)] by simp
      then have step: "sequence_loop m p (ih # ihs) (n, t) = sequence_loop m p ihs (n, max t (int ?x + int ?y - 1))"
        using enabled True by (simp add: ih lock_simps)
      have "unlocked m p b q ih \<longleftrightarrow> ?x + ?y \<le> GetMedianTimePast m q"
        using enabled True a by (simp add: ih unlocked_def lock_simps push_bit_eq_mult mult.commute)
      then show ?thesis
        using Cons.IH [of n "max t (int ?x + int ?y - 1)"] Cons.prems unfolding step max_before_iff by auto
    next
      case False
      let ?y = "lock_value (nSequence i)"
      have step: "sequence_loop m p (ih # ihs) (n, t) = sequence_loop m p ihs (max n (int h + int ?y - 1), t)"
        using enabled False by (simp add: ih lock_simps)
      have "unlocked m p b q ih \<longleftrightarrow> h + ?y \<le> bi_nHeight b"
        using enabled False by (simp add: ih unlocked_def lock_simps)
      then show ?thesis
        using Cons.IH [of "max n (int h + int ?y - 1)" t] Cons.prems unfolding step max_before_iff by auto
    qed
  qed
qed simp

section \<open>Properties\<close>

text \<open>C25: Relative lock times are enforced input by input. For a block of an index grown header by header
  that has a predecessor, and for coins that are not from later blocks, \<open>SequenceLocks\<close> fails no
  assertion, and accepts exactly the transactions each of whose inputs is unlocked: the lock is
  switched off by bit 31; or by bit 22 it counts units of 512 seconds, from the median time before the
  block of the coin to the median time before the block; or it counts blocks from the block of the
  coin. Transactions of version 1 and blocks without the rule have no relative locks.\<close>

theorem relative_locks_exact:
  assumes "index_reachable GetHash bm" "m_block_index bm p = Some b" "bi_pprev b = Some q"
    and "length prevHeights = length (tx_vin tx)" "\<forall>h \<in> set prevHeights. h \<le> bi_nHeight b"
  shows "SequenceLocks (m_block_index bm) tx verify_sequence prevHeights p =
    Some (2 \<le> tx_version tx \<and> verify_sequence \<longrightarrow>
      (\<forall>ih \<in> set (zip (tx_vin tx) prevHeights). unlocked (m_block_index bm) p b q ih))"
proof -
  let ?m = "m_block_index bm"
  have wf: "index_wf ?m"
    by (rule manager_wf_index [OF index_reachable_wf [OF assms(1)]])
  have "\<forall>(i, h) \<in> set (zip (tx_vin tx) prevHeights). h \<le> bi_nHeight b"
    using assms(5) by (auto dest: set_zip_rightD)
  note loop = sequence_loop_correct [OF wf assms(2) this, of "- 1" "- 1" q]
  have b: "0 < bi_nHeight b"
    using index_wf_root [OF wf assms(2)] assms(3) by simp
  show ?thesis
    using loop assms(2-4) b
    by (auto simp: SequenceLocks_def CalculateSequenceLocks_def EvaluateSequenceLocks_def not_le)
qed

definition example_locked :: transaction where
  "example_locked = \<lparr>tx_vin = [\<lparr>prevout = COutPoint 7 0, scriptSig = [], nSequence = 2, scriptWitness = []\<rparr>],
     tx_vout = [], tx_version = 2, tx_nLockTime = 0, tx_hash = 9, tx_witness_hash = 9\<rparr>"

theorem relative_locks_exact_witness:
  "SequenceLocks (m_block_index (example_index 4)) example_locked True [1] 4 = Some True \<and>
   SequenceLocks (m_block_index (example_index 4)) example_locked True [2] 4 = Some False"
proof -
  obtain b where b: "m_block_index (example_index 4) 4 = Some b"
    using example_domain [of 4 4] by auto
  have h: "bi_pprev b = Some 3" "bi_nHeight b = 3"
    using example_prev [OF b] example_height [OF b] by simp_all
  show ?thesis
    using relative_locks_exact [OF example_reachable b h(1), of "[1]" example_locked True]
      relative_locks_exact [OF example_reachable b h(1), of "[2]" example_locked True] h(2)
    by (simp add: example_locked_def unlocked_def bit_iff_odd)
qed

end
