(* ===== verification/Merkle.thy ===== *)
theory Merkle
  imports Main
begin

text \<open>
  The merkle root of a list of hashes, \<open>src/consensus/merkle.cpp\<close>. The hash of two hashes
  (\<open>SHA256D64\<close> on their 64 bytes) is an argument. An odd list is filled up with its last element, so
  lists that repeat their end have the root of the shorter list; the code reports such a list as
  mutated. Two lists with the same root of which neither is mutated are equal, or the trees exhibit a
  collision of the hash, or a leaf of one is an inner node of the other.
\<close>

section \<open>The root\<close>

text \<open>The pairs of a level, the last element paired with itself if it has no partner, and the loop of
  the code that looks for two equal partners.\<close>

fun level_pairs :: "nat list \<Rightarrow> (nat \<times> nat) list" where
  "level_pairs (x # y # zs) = (x, y) # level_pairs zs"
| "level_pairs [x] = [(x, x)]"
| "level_pairs [] = []"

fun equal_partners :: "nat list \<Rightarrow> bool" where
  "equal_partners (x # y # zs) = (x = y \<or> equal_partners zs)"
| "equal_partners _ = False"

definition next_level :: "(nat \<times> nat \<Rightarrow> nat) \<Rightarrow> nat list \<Rightarrow> nat list" where
  "next_level h hashes = map h (level_pairs hashes)"

lemma length_level_pairs: "length (level_pairs hashes) = (length hashes + 1) div 2"
  by (induction hashes rule: level_pairs.induct) auto

lemma length_next_level [simp]: "length (next_level h hashes) = (length hashes + 1) div 2"
  by (simp add: next_level_def length_level_pairs)

function merkle_loop :: "(nat \<times> nat \<Rightarrow> nat) \<Rightarrow> bool \<Rightarrow> nat list \<Rightarrow> nat list \<times> bool" where
  "merkle_loop h mutation hashes =
     (if 1 < length hashes then merkle_loop h (mutation \<or> equal_partners hashes) (next_level h hashes)
      else (hashes, mutation))"
  by pat_completeness auto
termination
  by (relation "measure (\<lambda>(h, mutation, hashes). length hashes)") auto

declare merkle_loop.simps [simp del]

definition ComputeMerkleRoot :: "(nat \<times> nat \<Rightarrow> nat) \<Rightarrow> nat list \<Rightarrow> nat \<times> bool" where
  "ComputeMerkleRoot h hashes =
     (let (hashes', mutation) = merkle_loop h False hashes
      in (case hashes' of [] \<Rightarrow> 0 | x # _ \<Rightarrow> x, mutation))"

section \<open>The tree\<close>

text \<open>The pairs that are hashed, on all levels.\<close>

function tree_pairs :: "(nat \<times> nat \<Rightarrow> nat) \<Rightarrow> nat list \<Rightarrow> (nat \<times> nat) set" where
  "tree_pairs h hashes =
     (if 1 < length hashes then set (level_pairs hashes) \<union> tree_pairs h (next_level h hashes) else {})"
  by pat_completeness auto
termination
  by (relation "measure (\<lambda>(h, hashes). length hashes)") auto

declare tree_pairs.simps [simp del]

function merkle_root :: "(nat \<times> nat \<Rightarrow> nat) \<Rightarrow> nat list \<Rightarrow> nat" where
  "merkle_root h hashes =
     (if 1 < length hashes then merkle_root h (next_level h hashes) else (case hashes of [] \<Rightarrow> 0 | x # _ \<Rightarrow> x))"
  by pat_completeness auto
termination
  by (relation "measure (\<lambda>(h, hashes). length hashes)") auto

declare merkle_root.simps [simp del]

function unmutated :: "(nat \<times> nat \<Rightarrow> nat) \<Rightarrow> nat list \<Rightarrow> bool" where
  "unmutated h hashes =
     (if 1 < length hashes then \<not> equal_partners hashes \<and> unmutated h (next_level h hashes) else True)"
  by pat_completeness auto
termination
  by (relation "measure (\<lambda>(h, hashes). length hashes)") auto

declare unmutated.simps [simp del]

lemma merkle_loop_mutation: "snd (merkle_loop h mutation hashes) \<longleftrightarrow> mutation \<or> \<not> unmutated h hashes"
proof (induction h mutation hashes rule: merkle_loop.induct)
  case (1 h mutation hashes)
  then show ?case
    by (subst merkle_loop.simps, subst unmutated.simps) auto
qed

lemma merkle_loop_root: "(case fst (merkle_loop h mutation hashes) of [] \<Rightarrow> 0 | x # _ \<Rightarrow> x) = merkle_root h hashes"
proof (induction h mutation hashes rule: merkle_loop.induct)
  case (1 h mutation hashes)
  then show ?case
    by (subst merkle_loop.simps, subst merkle_root.simps) auto
qed

lemma ComputeMerkleRoot_root: "ComputeMerkleRoot h hashes = (merkle_root h hashes, \<not> unmutated h hashes)"
proof (cases "merkle_loop h False hashes")
  case (Pair hashes' mutation)
  then show ?thesis
    using merkle_loop_root [of h False hashes] merkle_loop_mutation [of h False hashes]
    by (simp add: ComputeMerkleRoot_def)
qed

section \<open>One level\<close>

lemma level_pairs_inj:
  "level_pairs xs = level_pairs ys \<Longrightarrow> \<not> equal_partners xs \<Longrightarrow> \<not> equal_partners ys \<Longrightarrow> xs = ys"
proof (induction xs arbitrary: ys rule: level_pairs.induct)
  case (1 x y zs)
  then show ?case
    by (cases ys rule: level_pairs.cases) auto
next
  case (2 x)
  then show ?case
    by (cases ys rule: level_pairs.cases) auto
next
  case 3
  then show ?case
    by (cases ys rule: level_pairs.cases) auto
qed

lemma map_inj_or_collision:
  "map h ps = map h qs \<Longrightarrow> ps = qs \<or> (\<exists>p \<in> set ps. \<exists>q \<in> set qs. p \<noteq> q \<and> h p = h q)"
proof (induction ps arbitrary: qs)
  case (Cons p ps)
  then obtain q qs' where "qs = q # qs'" "h p = h q" "map h ps = map h qs'"
    by (cases qs) auto
  then show ?case
    using Cons.IH [of qs'] by (cases "p = q") auto
qed simp

lemma level_pairs_set: "(a, b) \<in> set (level_pairs xs) \<Longrightarrow> a \<in> set xs \<and> b \<in> set xs"
  by (induction xs rule: level_pairs.induct) auto

lemma tree_pairs_step: "1 < length xs \<Longrightarrow> tree_pairs h xs = set (level_pairs xs) \<union> tree_pairs h (next_level h xs)"
  by (subst tree_pairs.simps) simp

lemma tree_pairs_short: "\<not> 1 < length xs \<Longrightarrow> tree_pairs h xs = {}"
  by (subst tree_pairs.simps) simp

lemma root_step: "1 < length xs \<Longrightarrow> merkle_root h xs = merkle_root h (next_level h xs)"
  by (subst merkle_root.simps) simp

lemma root_single: "merkle_root h [x] = x"
  by (subst merkle_root.simps) simp

lemma unmutated_step: "1 < length xs \<Longrightarrow> unmutated h xs \<longleftrightarrow> \<not> equal_partners xs \<and> unmutated h (next_level h xs)"
  by (subst unmutated.simps) simp

text \<open>Above the leaves everything is a hash of a pair of the tree.\<close>

lemma tree_pairs_above:
  assumes "(a, b) \<in> tree_pairs h (next_level h xs)" "1 < length xs"
  shows "a \<in> h ` tree_pairs h xs"
  using assms
proof (induction "length xs" arbitrary: xs rule: less_induct)
  case less
  let ?ys = "next_level h xs"
  have sub: "set (level_pairs xs) \<subseteq> tree_pairs h xs" "tree_pairs h ?ys \<subseteq> tree_pairs h xs"
    using tree_pairs_step [OF less.prems(2)] by simp_all
  have ys: "1 < length ?ys"
    using less.prems(1) tree_pairs_short [of ?ys h] by (cases "1 < length ?ys") simp_all
  consider "(a, b) \<in> set (level_pairs ?ys)" | "(a, b) \<in> tree_pairs h (next_level h ?ys)"
    using less.prems(1) tree_pairs_step [OF ys] by blast
  then show ?case
  proof cases
    case 1
    then have "a \<in> set ?ys"
      by (rule level_pairs_set [THEN conjunct1])
    then show ?thesis
      using sub(1) by (auto simp: next_level_def)
  next
    case 2
    have "length ?ys < length xs"
      using less.prems(2) by simp
    then have "a \<in> h ` tree_pairs h ?ys"
      using less.hyps 2 ys by blast
    then show ?thesis
      using sub(2) by blast
  qed
qed

lemma root_is_hash: "1 < length xs \<Longrightarrow> merkle_root h xs \<in> h ` tree_pairs h xs"
proof (induction "length xs" arbitrary: xs rule: less_induct)
  case less
  let ?ys = "next_level h xs"
  have sub: "set (level_pairs xs) \<subseteq> tree_pairs h xs" "tree_pairs h ?ys \<subseteq> tree_pairs h xs"
    using tree_pairs_step [OF less.prems] by simp_all
  have eq: "merkle_root h xs = merkle_root h ?ys"
    by (rule root_step [OF less.prems])
  show ?case
  proof (cases "1 < length ?ys")
    case True
    have "length ?ys < length xs"
      using less.prems by simp
    then have "merkle_root h ?ys \<in> h ` tree_pairs h ?ys"
      using True by (rule less.hyps)
    then show ?thesis
      unfolding eq using sub(2) by blast
  next
    case False
    then have "length ?ys = 1"
      using less.prems by simp
    then obtain y where "?ys = [y]"
      by (metis One_nat_def length_0_conv length_Suc_conv)
    then have "merkle_root h xs = y" "y \<in> set ?ys"
      unfolding eq by (simp_all add: root_single)
    then show ?thesis
      using sub(1) by (auto simp: next_level_def)
  qed
qed

section \<open>Equal roots\<close>

definition collision :: "(nat \<times> nat \<Rightarrow> nat) \<Rightarrow> nat list \<Rightarrow> nat list \<Rightarrow> bool" where
  "collision h xs ys \<longleftrightarrow> (\<exists>p \<in> tree_pairs h xs. \<exists>q \<in> tree_pairs h ys. p \<noteq> q \<and> h p = h q)"

definition leaf_is_node :: "(nat \<times> nat \<Rightarrow> nat) \<Rightarrow> nat list \<Rightarrow> nat list \<Rightarrow> bool" where
  "leaf_is_node h xs ys \<longleftrightarrow> (\<exists>x \<in> set xs. x \<in> h ` tree_pairs h ys)"

lemma collision_step:
  assumes "1 < length xs" "1 < length ys" "collision h (next_level h xs) (next_level h ys)"
  shows "collision h xs ys"
  using assms(3) unfolding collision_def tree_pairs_step [OF assms(1)] tree_pairs_step [OF assms(2)] by blast

text \<open>A node just above the leaves that is also a node further up in the other tree is a collision, or
  its left part is a leaf that is a node.\<close>

lemma leaf_is_node_step:
  assumes "1 < length xs" "1 < length ys" "leaf_is_node h (next_level h xs) (next_level h ys)"
  shows "collision h xs ys \<or> leaf_is_node h xs ys"
proof -
  obtain a b c d where ab: "(a, b) \<in> set (level_pairs xs)" "(c, d) \<in> tree_pairs h (next_level h ys)"
    "h (a, b) = h (c, d)"
    using assms(3) by (auto simp: leaf_is_node_def next_level_def)
  show ?thesis
  proof (cases "(a, b) = (c, d)")
    case True
    then show ?thesis
      using tree_pairs_above [OF ab(2) assms(2)] level_pairs_set [OF ab(1)] by (auto simp: leaf_is_node_def)
  next
    case False
    have "(a, b) \<in> tree_pairs h xs" "(c, d) \<in> tree_pairs h ys"
      using ab(1,2) tree_pairs_step [OF assms(1)] tree_pairs_step [OF assms(2)] by blast+
    then show ?thesis
      using False ab(3) unfolding collision_def by blast
  qed
qed

lemma collision_sym: "collision h xs ys \<Longrightarrow> collision h ys xs"
  unfolding collision_def by metis

lemma equal_roots:
  assumes "xs \<noteq> []" "ys \<noteq> []" "unmutated h xs" "unmutated h ys" "merkle_root h xs = merkle_root h ys"
  shows "xs = ys \<or> collision h xs ys \<or> leaf_is_node h xs ys \<or> leaf_is_node h ys xs"
  using assms
proof (induction "length xs" arbitrary: xs ys rule: less_induct)
  case less
  consider x y where "xs = [x]" "ys = [y]" | x where "xs = [x]" "1 < length ys"
    | y where "1 < length xs" "ys = [y]" | "1 < length xs" "1 < length ys"
    using less.prems(1,2) by (cases xs; cases "tl xs"; cases ys; cases "tl ys") auto
  then show ?case
  proof cases
    case 1
    then show ?thesis
      using less.prems(5) by (simp add: root_single)
  next
    case 2
    then show ?thesis
      using root_is_hash [of ys h] less.prems(5) by (auto simp: leaf_is_node_def root_single)
  next
    case 3
    then show ?thesis
      using root_is_hash [of xs h] less.prems(5) by (auto simp: leaf_is_node_def root_single)
  next
    case 4
    let ?xs = "next_level h xs" and ?ys = "next_level h ys"
    have u: "\<not> equal_partners xs" "unmutated h ?xs" "\<not> equal_partners ys" "unmutated h ?ys"
      using less.prems(3,4) unmutated_step [OF 4(1)] unmutated_step [OF 4(2)] by simp_all
    have ne: "length ?xs < length xs" "?xs \<noteq> []" "?ys \<noteq> []" "merkle_root h ?xs = merkle_root h ?ys"
      using 4 less.prems(5) by (simp_all flip: length_greater_0_conv add: root_step [OF 4(1)] root_step [OF 4(2)])
    consider "?xs = ?ys" | "collision h ?xs ?ys" | "leaf_is_node h ?xs ?ys" | "leaf_is_node h ?ys ?xs"
      using less.hyps [OF ne(1,2,3) u(2,4) ne(4)] by blast
    then show ?thesis
    proof cases
      case 1
      then have "map h (level_pairs xs) = map h (level_pairs ys)"
        by (simp add: next_level_def)
      from map_inj_or_collision [OF this] show ?thesis
        using level_pairs_inj [OF _ u(1,3)] tree_pairs_step [OF 4(1)] tree_pairs_step [OF 4(2)]
        unfolding collision_def by blast
    next
      case 2
      then show ?thesis
        using collision_step [OF 4] by blast
    next
      case 3
      then show ?thesis
        using leaf_is_node_step [OF 4] by blast
    next
      case swapped: 4
      then show ?thesis
        using leaf_is_node_step [OF 4(2,1)] collision_sym by blast
    qed
  qed
qed

section \<open>Properties\<close>

text \<open>C13: The merkle root commits to the list: if two lists that are not empty have the same root and
  neither is reported as mutated, then they are the same list, or the computation of the two roots
  hashed two different pairs to the same value, or a leaf of one list is the hash of a pair in the
  tree of the other.\<close>

theorem merkle_root_commits:
  assumes "xs \<noteq> []" "ys \<noteq> []" "ComputeMerkleRoot h xs = (r, False)" "ComputeMerkleRoot h ys = (r, False)"
  shows "xs = ys \<or>
    (\<exists>p \<in> tree_pairs h xs. \<exists>q \<in> tree_pairs h ys. p \<noteq> q \<and> h p = h q) \<or>
    (\<exists>x \<in> set xs. x \<in> h ` tree_pairs h ys) \<or> (\<exists>y \<in> set ys. y \<in> h ` tree_pairs h xs)"
  using equal_roots [OF assms(1,2)] assms(3,4)
  unfolding ComputeMerkleRoot_root collision_def leaf_is_node_def by simp

theorem merkle_root_commits_witness:
  "ComputeMerkleRoot (\<lambda>(x, y). 10 * x + y) [1, 2, 3] = (153, False) \<and>
   ((\<exists>p \<in> tree_pairs (\<lambda>(x, y). 10 * x + y) [1, 2, 3]. \<exists>q \<in> tree_pairs (\<lambda>(x, y). 10 * x + y) [12, 33].
      p \<noteq> q \<and> (\<lambda>(x, y). 10 * x + y) p = (\<lambda>(x, y). 10 * x + y) q) \<or>
   (\<exists>y \<in> set [12, 33]. y \<in> (\<lambda>(x, y). 10 * x + y) ` tree_pairs (\<lambda>(x, y). 10 * x + y) [1, 2, 3 :: nat]))"
proof -
  let ?h = "\<lambda>(x, y). 10 * x + y :: nat"
  have roots: "ComputeMerkleRoot ?h [1, 2, 3] = (153, False)" "ComputeMerkleRoot ?h [12, 33] = (153, False)"
    by (simp_all add: ComputeMerkleRoot_def merkle_loop.simps next_level_def)
  have "tree_pairs ?h [12, 33] = {(12, 33)}"
    by (simp add: tree_pairs.simps next_level_def)
  then show ?thesis
    using merkle_root_commits [OF _ _ roots] roots(1) by auto
qed

end
