(* ===== verification/Blocks.thy ===== *)
theory Blocks
  imports Locktime Merkle
begin

text \<open>
  Blocks and the checks that do not look at coins: \<open>CheckBlock\<close>, \<open>ContextualCheckBlock\<close> and
  \<open>CheckWitnessMalleation\<close> of \<open>src/validation.cpp\<close>, with the roots of \<open>src/consensus/merkle.cpp\<close> and the
  encoding of the height in a coinbase of \<open>src/script/script.h\<close>. SHA-256, the hash of a header, the
  serialised sizes and what depends on the script interpreter are the fields of \<open>block_env\<close>. The flags by
  which a block remembers that it was checked, and the signature of a test network that the main network
  does not use, are not modelled.
\<close>

section \<open>Blocks\<close>

record block =
  blk_header :: block_header
  vtx :: "transaction list"

record block_env =
  env_GetHash :: "block_header \<Rightarrow> block_hash"
  env_Hash256 :: "nat list \<Rightarrow> nat"
  env_tx_size :: "transaction \<Rightarrow> nat"
  env_block_size :: "block \<Rightarrow> nat"
  env_block_witness_size :: "block \<Rightarrow> nat"
  env_legacy_sigops :: "transaction \<Rightarrow> nat"
  env_sigops_cost :: "transaction \<Rightarrow> (COutPoint \<Rightarrow> tx_out option) \<Rightarrow> nat"
  env_input_scripts :: "transaction \<Rightarrow> (COutPoint \<Rightarrow> tx_out option) \<Rightarrow> string option"

abbreviation (input) MAX_BLOCK_SIGOPS_COST :: nat where "MAX_BLOCK_SIGOPS_COST \<equiv> 80000"

definition uint256_bytes :: "nat \<Rightarrow> nat list" where
  "uint256_bytes h = map (\<lambda>k. h div 256 ^ k mod 256) [0..<32]"

definition SHA256D64 :: "block_env \<Rightarrow> nat \<times> nat \<Rightarrow> nat" where
  "SHA256D64 env xy = env_Hash256 env (uint256_bytes (fst xy) @ uint256_bytes (snd xy))"

definition BlockMerkleRoot :: "block_env \<Rightarrow> block \<Rightarrow> nat \<times> bool" where
  "BlockMerkleRoot env block = ComputeMerkleRoot (SHA256D64 env) (map tx_hash (vtx block))"

definition BlockWitnessMerkleRoot :: "block_env \<Rightarrow> block \<Rightarrow> nat" where
  "BlockWitnessMerkleRoot env block =
     fst (ComputeMerkleRoot (SHA256D64 env) (0 # map tx_witness_hash (tl (vtx block))))"

section \<open>Checks without context\<close>

definition CheckMerkleRoot :: "block_env \<Rightarrow> block \<Rightarrow> unit outcome" where
  "CheckMerkleRoot env block =
     (let (merkle_root, mutated) = BlockMerkleRoot env block in
      if hd_hashMerkleRoot (blk_header block) \<noteq> merkle_root then Invalid ''bad-txnmrklroot''
      else if mutated then Invalid ''bad-txns-duplicate''
      else Accepted ())"

fun check_transactions :: "(transaction \<Rightarrow> nat) \<Rightarrow> transaction list \<Rightarrow> unit outcome" where
  "check_transactions GetSerializeSize [] = Accepted ()"
| "check_transactions GetSerializeSize (tx # txs) =
     (case CheckTransaction GetSerializeSize tx of
        Accepted _ \<Rightarrow> check_transactions GetSerializeSize txs
      | r \<Rightarrow> r)"

text \<open>The counter of signature operations and its product are \<open>unsigned int\<close>.\<close>

definition count_sigops :: "block_env \<Rightarrow> block \<Rightarrow> nat" where
  "count_sigops env block = foldl (\<lambda>n tx. (n + env_legacy_sigops env tx) mod 2 ^ 32) 0 (vtx block)"

definition CheckBlock :: "block_env \<Rightarrow> consensus_params \<Rightarrow> bool \<Rightarrow> bool \<Rightarrow> block \<Rightarrow> unit outcome" where
  "CheckBlock env params fCheckPOW fCheckMerkleRoot block =
     (if CheckBlockHeader (env_GetHash env) (blk_header block) params fCheckPOW \<noteq> Header_Valid
      then Invalid ''high-hash''
      else case (if fCheckMerkleRoot then CheckMerkleRoot env block else Accepted ()) of
             Accepted _ \<Rightarrow>
               if vtx block = [] \<or> MAX_BLOCK_WEIGHT < length (vtx block) * WITNESS_SCALE_FACTOR \<or>
                  MAX_BLOCK_WEIGHT < env_block_size env block * WITNESS_SCALE_FACTOR
               then Invalid ''bad-blk-length''
               else if \<not> IsCoinBase (hd (vtx block)) then Invalid ''bad-cb-missing''
               else if list_ex IsCoinBase (tl (vtx block)) then Invalid ''bad-cb-multiple''
               else (case check_transactions (env_tx_size env) (vtx block) of
                       Accepted _ \<Rightarrow>
                         if MAX_BLOCK_SIGOPS_COST < count_sigops env block * WITNESS_SCALE_FACTOR mod 2 ^ 32
                         then Invalid ''bad-blk-sigops'' else Accepted ()
                     | r \<Rightarrow> r)
           | r \<Rightarrow> r)"

section \<open>Numbers in scripts\<close>

fun abs_bytes :: "nat \<Rightarrow> nat list" where
  "abs_bytes absvalue = (if absvalue = 0 then [] else (absvalue mod 256) # abs_bytes (absvalue div 256))"

declare abs_bytes.simps [simp del]

definition script_num_serialize :: "int \<Rightarrow> nat list" where
  "script_num_serialize v =
     (if v = 0 then []
      else let neg = v < 0; result = abs_bytes (nat \<bar>v\<bar>) in
           if last result AND 0x80 \<noteq> 0 then result @ [if neg then 0x80 else 0]
           else if neg then butlast result @ [last result OR 0x80]
           else result)"

definition AppendDataSize :: "nat \<Rightarrow> nat list" where
  "AppendDataSize n =
     (if n < 0x4c then [n]
      else if n \<le> 0xff then [0x4c, n]
      else if n \<le> 0xffff then [0x4d, n mod 256, n div 256]
      else 0x4e # map (\<lambda>k. n div 256 ^ k mod 256) [0..<4])"

definition push_int64 :: "int \<Rightarrow> nat list" where
  "push_int64 n =
     (if n = - 1 \<or> 1 \<le> n \<and> n \<le> 16 then [nat (n + 80)]
      else if n = 0 then [0]
      else let b = script_num_serialize n in AppendDataSize (length b) @ b)"

section \<open>Checks in the context of the chain\<close>

definition is_witness_commitment :: "nat list \<Rightarrow> bool" where
  "is_witness_commitment script \<longleftrightarrow> 38 \<le> length script \<and> take 6 script = [0x6a, 0x24, 0xaa, 0x21, 0xa9, 0xed]"

definition GetWitnessCommitmentIndex :: "block \<Rightarrow> nat option" where
  "GetWitnessCommitmentIndex block =
     (case vtx block of
        [] \<Rightarrow> None
      | cb # _ \<Rightarrow>
          foldl (\<lambda>commitpos o'. if is_witness_commitment (scriptPubKey (tx_vout cb ! o')) then Some o' else commitpos)
            None [0..<length (tx_vout cb)])"

definition HasWitness :: "transaction \<Rightarrow> bool" where
  "HasWitness tx \<longleftrightarrow> list_ex (\<lambda>i. scriptWitness i \<noteq> []) (tx_vin tx)"

definition CheckWitnessMalleation :: "block_env \<Rightarrow> block \<Rightarrow> bool \<Rightarrow> unit outcome" where
  "CheckWitnessMalleation env block expect_witness_commitment =
     (case (if expect_witness_commitment then GetWitnessCommitmentIndex block else None) of
        Some commitpos \<Rightarrow>
          if vtx block = [] \<or> tx_vin (hd (vtx block)) = [] then Crash
          else let cb = hd (vtx block); witness_stack = scriptWitness (hd (tx_vin cb)) in
               if length witness_stack \<noteq> 1 \<or> length (hd witness_stack) \<noteq> 32 then Invalid ''bad-witness-nonce-size''
               else let hash_witness = env_Hash256 env
                          (uint256_bytes (BlockWitnessMerkleRoot env block) @ hd witness_stack) in
                    if uint256_bytes hash_witness \<noteq> take 32 (drop 6 (scriptPubKey (tx_vout cb ! commitpos)))
                    then Invalid ''bad-witness-merkle-match'' else Accepted ()
      | None \<Rightarrow> if list_ex HasWitness (vtx block) then Invalid ''unexpected-witness'' else Accepted ())"

definition GetBlockWeight :: "block_env \<Rightarrow> block \<Rightarrow> nat" where
  "GetBlockWeight env block = env_block_size env block * (WITNESS_SCALE_FACTOR - 1) + env_block_witness_size env block"

definition height_in_coinbase :: "nat \<Rightarrow> nat list \<Rightarrow> bool" where
  "height_in_coinbase nHeight script \<longleftrightarrow>
     (let expect = push_int64 (int nHeight) in
      \<not> length script < length expect \<and> take (length expect) script = expect)"

definition ContextualCheckBlock ::
  "block_env \<Rightarrow> block \<Rightarrow> consensus_params \<Rightarrow> block_map \<Rightarrow> block_hash option \<Rightarrow> unit outcome" where
  "ContextualCheckBlock env block params m pindexPrev =
     (let prev = Option.bind pindexPrev m;
          nHeight = (case prev of None \<Rightarrow> 0 | Some b \<Rightarrow> bi_nHeight b + 1);
          median = DeploymentActiveAfter prev (CSVHeight params)
      in if pindexPrev \<noteq> None \<and> prev = None \<or> median \<and> pindexPrev = None then Crash
         else let nLockTimeCutoff =
                (if median then int (GetMedianTimePast m (the pindexPrev)) else int (hd_nTime (blk_header block)))
              in if list_ex (\<lambda>tx. \<not> IsFinalTx tx (int nHeight) nLockTimeCutoff) (vtx block)
                 then Invalid ''bad-txns-nonfinal''
                 else if DeploymentActiveAfter prev (BIP34Height params) \<and>
                         (vtx block = [] \<or> tx_vin (hd (vtx block)) = [])
                 then Crash
                 else if DeploymentActiveAfter prev (BIP34Height params) \<and>
                         \<not> height_in_coinbase nHeight (scriptSig (hd (tx_vin (hd (vtx block)))))
                 then Invalid ''bad-cb-height''
                 else (case CheckWitnessMalleation env block (DeploymentActiveAfter prev (SegwitHeight params)) of
                         Accepted _ \<Rightarrow>
                           if MAX_BLOCK_WEIGHT < GetBlockWeight env block then Invalid ''bad-blk-weight''
                           else Accepted ()
                       | r \<Rightarrow> r))"

section \<open>What \<open>CheckBlock\<close> establishes\<close>

lemma check_transactions_iff:
  "check_transactions GetSerializeSize txs = Accepted () \<longleftrightarrow>
     (\<forall>tx \<in> set txs. CheckTransaction GetSerializeSize tx = Accepted ())"
  by (induction txs) (auto split: outcome.splits)

text \<open>The amounts of a transaction that passed \<open>CheckTransaction\<close>.\<close>

definition amounts_ok :: "transaction \<Rightarrow> bool" where
  "amounts_ok tx \<longleftrightarrow>
     (\<forall>out \<in> set (tx_vout tx). MoneyRange (nValue out)) \<and> GetValueOut tx = Accepted (out_sum (tx_vout tx)) \<and>
     MoneyRange (out_sum (tx_vout tx)) \<and> distinct (map prevout (tx_vin tx))"

lemma CheckTransaction_amounts:
  assumes "CheckTransaction GetSerializeSize tx = Accepted ()"
  shows "amounts_ok tx"
proof -
  have zero: "MoneyRange 0"
    by (simp add: MoneyRange_def)
  have c: "check_outputs 0 (tx_vout tx) = Accepted ()" "\<not> duplicate_inputs {} (tx_vin tx)"
    using assms by (auto simp: CheckTransaction_def Let_def split: outcome.splits if_splits)
  show ?thesis
    using c(1) c(2) [unfolded duplicate_inputs_iff] value_out_loop_correct [OF zero, of "tx_vout tx"]
    unfolding check_outputs_iff [OF zero] by (simp add: amounts_ok_def GetValueOut_def)
qed

lemma CheckBlock_accepted:
  assumes "CheckBlock env params fCheckPOW fCheckMerkleRoot block = Accepted ()"
  obtains cb txs where "vtx block = cb # txs" "IsCoinBase cb" "\<forall>tx \<in> set txs. \<not> IsCoinBase tx"
    "\<forall>tx \<in> set (cb # txs). amounts_ok tx"
proof -
  have c: "vtx block \<noteq> []" "IsCoinBase (hd (vtx block))" "\<not> list_ex IsCoinBase (tl (vtx block))"
    "check_transactions (env_tx_size env) (vtx block) = Accepted ()"
    using assms by (auto simp: CheckBlock_def split: outcome.splits if_splits)
  then show thesis
    using that [of "hd (vtx block)" "tl (vtx block)"] CheckTransaction_amounts
    unfolding check_transactions_iff by (cases "vtx block") (auto simp: list_ex_iff)
qed

section \<open>The height in the coinbase\<close>

lemma abs_bytes_pos: "0 < n \<Longrightarrow> abs_bytes n = (n mod 256) # abs_bytes (n div 256)"
  by (subst abs_bytes.simps) simp

lemma abs_bytes_zero [simp]: "abs_bytes 0 = []"
  by (subst abs_bytes.simps) simp

lemma abs_bytes_empty [simp]: "abs_bytes n = [] \<longleftrightarrow> n = 0"
  by (subst abs_bytes.simps) simp

lemma abs_bytes_inj: "abs_bytes n = abs_bytes k \<Longrightarrow> n = k"
proof (induction n arbitrary: k rule: less_induct)
  case (less n)
  show ?case
  proof (cases "n = 0 \<or> k = 0")
    case True
    then show ?thesis
      using less.prems abs_bytes_empty [of n] abs_bytes_empty [of k] by auto
  next
    case False
    then have "n mod 256 = k mod 256" "abs_bytes (n div 256) = abs_bytes (k div 256)"
      using less.prems abs_bytes_pos [of n] abs_bytes_pos [of k] by simp_all
    then have "n div 256 = k div 256" "n mod 256 = k mod 256"
      using less.IH [of "n div 256" "k div 256"] False by simp_all
    then show ?thesis
      by (metis div_mult_mod_eq)
  qed
qed

lemma last_abs_bytes: "0 < n \<Longrightarrow> 0 < last (abs_bytes n)"
proof (induction n rule: less_induct)
  case (less n)
  then show ?case
    using less.IH [of "n div 256"] abs_bytes_pos [of n] by (cases "n div 256 = 0") auto
qed

lemma length_abs_bytes: "n < 256 ^ k \<Longrightarrow> length (abs_bytes n) \<le> k"
proof (induction k arbitrary: n)
  case (Suc k)
  then have "n div 256 < 256 ^ k"
    by (simp add: less_mult_imp_div_less mult.commute)
  then show ?case
    using Suc.IH [of "n div 256"] abs_bytes_pos [of n] by (cases "n = 0") auto
qed simp

definition signed_bytes :: "nat \<Rightarrow> nat list" where
  "signed_bytes n = abs_bytes n @ (if last (abs_bytes n) AND 0x80 \<noteq> 0 then [0] else [])"

lemma script_num_serialize_pos: "0 < n \<Longrightarrow> script_num_serialize (int n) = signed_bytes n"
  by (simp add: script_num_serialize_def signed_bytes_def Let_def)

lemma signed_bytes_inj:
  assumes "0 < n" "0 < k" "signed_bytes n = signed_bytes k"
  shows "n = k"
proof -
  have "abs_bytes n = abs_bytes k"
    using assms last_abs_bytes [of n] last_abs_bytes [of k]
    by (auto simp: signed_bytes_def split: if_splits dest: arg_cong [of _ _ last])
  then show ?thesis
    by (rule abs_bytes_inj)
qed

lemma signed_bytes_length:
  assumes "0 < n" "n < 2 ^ 32"
  shows "1 \<le> length (signed_bytes n)" "length (signed_bytes n) \<le> 5"
  using assms length_abs_bytes [of n 4] abs_bytes_pos [of n] by (simp_all add: signed_bytes_def)

lemma push_height:
  assumes "n < 2 ^ 32"
  shows "push_int64 (int n) =
    (if n = 0 then [0] else if n \<le> 16 then [n + 80] else length (signed_bytes n) # signed_bytes n)"
proof (cases "n = 0")
  case False
  then show ?thesis
    using signed_bytes_length [OF _ assms] script_num_serialize_pos [of n]
    by (auto simp: push_int64_def AppendDataSize_def nat_int_add Let_def)
qed (simp add: push_int64_def)

text \<open>The first byte tells the length, so no height's encoding is the beginning of another's.\<close>

lemma push_height_prefix_free:
  assumes "n < 2 ^ 32" "k < 2 ^ 32" "height_in_coinbase n script" "height_in_coinbase k script"
  shows "n = k"
proof -
  let ?x = "push_int64 (int n)" and ?y = "push_int64 (int k)"
  have p: "take (length ?x) script = ?x" "take (length ?y) script = ?y"
    using assms(3,4) by (simp_all add: height_in_coinbase_def Let_def)
  have ne: "?x \<noteq> []" "?y \<noteq> []"
    using push_height [OF assms(1)] push_height [OF assms(2)] by auto
  have "hd ?x = hd script" "hd ?y = hd script"
    using p ne by (metis hd_take length_greater_0_conv)+
  then have h: "hd ?x = hd ?y"
    by simp
  then have "length ?x = length ?y"
    using push_height [OF assms(1)] push_height [OF assms(2)] signed_bytes_length [OF _ assms(1)]
      signed_bytes_length [OF _ assms(2)] by (auto split: if_splits)
  then have "?x = ?y"
    using p by metis
  then show ?thesis
    using push_height [OF assms(1)] push_height [OF assms(2)] signed_bytes_inj [of n k]
      signed_bytes_length [OF _ assms(1)] signed_bytes_length [OF _ assms(2)] by (auto split: if_splits)
qed

section \<open>Properties\<close>

text \<open>C26: No two blocks at different heights have coinbases with the same script. On the main network, where
  the rule holds from the first block on, the script of the coinbase of a block that passes
  \<open>ContextualCheckBlock\<close> begins with the encoding of its height, and no encoding of a height is the
  beginning of another; so a coinbase cannot be repeated at another height.\<close>

theorem coinbase_scripts_differ:
  assumes "ContextualCheckBlock env block main_params m (Some p) = Accepted ()" "m p = Some b"
    and "ContextualCheckBlock env' block' main_params m' (Some p') = Accepted ()" "m' p' = Some b'"
    and "bi_nHeight b < 2 ^ 31" "bi_nHeight b' < 2 ^ 31" "bi_nHeight b \<noteq> bi_nHeight b'"
  shows "scriptSig (tx_vin (vtx block ! 0) ! 0) \<noteq> scriptSig (tx_vin (vtx block' ! 0) ! 0)"
proof -
  have c: "height_in_coinbase (bi_nHeight b + 1) (scriptSig (tx_vin (vtx block ! 0) ! 0))"
    "height_in_coinbase (bi_nHeight b' + 1) (scriptSig (tx_vin (vtx block' ! 0) ! 0))"
    using assms(1-4) by (auto simp: ContextualCheckBlock_def Let_def DeploymentActiveAfter_def hd_conv_nth split: if_splits)
  show ?thesis
    using push_height_prefix_free [OF _ _ c(1), of "bi_nHeight b' + 1"] c(2) assms(5-7) by auto
qed

definition example_env :: block_env where
  "example_env = \<lparr>env_GetHash = hd_nNonce, env_Hash256 = sum_list, env_tx_size = (\<lambda>tx. 100),
     env_block_size = (\<lambda>block. 200), env_block_witness_size = (\<lambda>block. 200), env_legacy_sigops = (\<lambda>tx. 1),
     env_sigops_cost = (\<lambda>tx view. 4), env_input_scripts = (\<lambda>tx view. None)\<rparr>"

definition example_coinbase :: "nat list \<Rightarrow> nat \<Rightarrow> transaction" where
  "example_coinbase script h = \<lparr>tx_vin = [\<lparr>prevout = COutPoint 0 0xffffffff, scriptSig = script,
       nSequence = 0xffffffff, scriptWitness = []\<rparr>],
     tx_vout = [\<lparr>nValue = 5000000000, scriptPubKey = [1]\<rparr>],
     tx_version = 2, tx_nLockTime = 0, tx_hash = h, tx_witness_hash = h\<rparr>"

definition example_block :: "nat \<Rightarrow> block" where
  "example_block n = \<lparr>blk_header = example_header n, vtx = [example_coinbase [80 + (n - 1), 0] (1000 + n)]\<rparr>"

lemma example_block_contextual:
  assumes "m_block_index (example_index 4) n = Some b" "1 \<le> n" "n \<le> 4"
  shows "ContextualCheckBlock example_env (example_block (Suc n)) main_params (m_block_index (example_index 4)) (Some n) =
    Accepted ()"
proof -
  have h: "bi_nHeight b + 1 = n"
    using example_height [OF assms(1)] assms(2) by simp
  have "push_int64 (int n) = [n + 80]"
    using push_height [of n] assms(2,3) by simp
  then have "height_in_coinbase n [80 + n, 0]"
    by (simp add: height_in_coinbase_def)
  then show ?thesis
    using assms(1) h unfolding ContextualCheckBlock_def
    by (simp add: example_block_def example_coinbase_def Let_def DeploymentActiveAfter_def
        IsFinalTx_def CheckWitnessMalleation_def GetWitnessCommitmentIndex_def is_witness_commitment_def HasWitness_def
        GetBlockWeight_def example_env_def)
qed

theorem coinbase_scripts_differ_witness:
  "scriptSig (tx_vin (vtx (example_block 3) ! 0) ! 0) \<noteq> scriptSig (tx_vin (vtx (example_block 4) ! 0) ! 0)"
proof -
  obtain b c where b: "m_block_index (example_index 4) 2 = Some b" and c: "m_block_index (example_index 4) 3 = Some c"
    using example_domain [of 4 2] example_domain [of 4 3] by auto
  have "bi_nHeight b = 1" "bi_nHeight c = 2"
    using example_height [OF b] example_height [OF c] by simp_all
  then show ?thesis
    using coinbase_scripts_differ [OF example_block_contextual [OF b] b example_block_contextual [OF c] c] by simp
qed

end
