(* ===== verification/Coins.thy ===== *)
theory Coins
  imports Transactions
begin

text \<open>
  The unspent outputs and what a transaction does to them: \<open>Coin\<close> of \<open>src/coins.h\<close>, \<open>HaveInputs\<close> and
  \<open>AddCoins\<close> of \<open>src/coins.cpp\<close>, \<open>CheckTxInputs\<close> of \<open>src/consensus/tx_verify.cpp\<close>, and \<open>UpdateCoins\<close>
  with its inverse, the body of the loop of \<open>DisconnectBlock\<close>, of \<open>src/validation.cpp\<close>. They reach the
  coins through the operations of a view, which are a record here: \<open>flat_ops\<close> is the plain map from
  outpoints to coins, the specification of every view; the cache of the node is in \<open>Coins_Cache\<close>.
  \<open>None\<close> is a failed assertion or an exception.
\<close>

section \<open>Coins and views\<close>

record coin =
  coin_out :: tx_out
  fCoinBase :: bool
  coin_nHeight :: nat

type_synonym coin_map = "COutPoint \<rightharpoonup> coin"

definition IsUnspendable :: "nat list \<Rightarrow> bool" where
  "IsUnspendable script \<longleftrightarrow> (script \<noteq> [] \<and> hd script = 0x6a) \<or> 10000 < length script"

definition coin_IsSpent :: "coin \<Rightarrow> bool" where
  "coin_IsSpent c \<longleftrightarrow> nValue (coin_out c) = - 1"

definition null_coin :: coin where
  "null_coin = \<lparr>coin_out = \<lparr>nValue = - 1, scriptPubKey = []\<rparr>, fCoinBase = False, coin_nHeight = 0\<rparr>"

text \<open>What a view offers: \<open>GetCoin\<close>; \<open>AddCoin\<close>; \<open>SpendCoin\<close>, which answers whether there was an entry
  and moves its coin out (a null coin if the entry was spent already).\<close>

record 's coins_ops =
  v_get :: "'s \<Rightarrow> COutPoint \<Rightarrow> coin option"
  v_add :: "COutPoint \<Rightarrow> coin \<Rightarrow> bool \<Rightarrow> 's \<Rightarrow> 's option"
  v_spend :: "COutPoint \<Rightarrow> 's \<Rightarrow> ('s \<times> coin) option"

definition flat_add :: "COutPoint \<Rightarrow> coin \<Rightarrow> bool \<Rightarrow> coin_map \<Rightarrow> coin_map option" where
  "flat_add p c possible_overwrite m =
     (if coin_IsSpent c then None
      else if IsUnspendable (scriptPubKey (coin_out c)) then Some m
      else if \<not> possible_overwrite \<and> m p \<noteq> None then None
      else Some (m(p \<mapsto> c)))"

definition flat_spend :: "COutPoint \<Rightarrow> coin_map \<Rightarrow> (coin_map \<times> coin) option" where
  "flat_spend p m = (case m p of None \<Rightarrow> None | Some c \<Rightarrow> Some (m(p := None), c))"

definition flat_ops :: "coin_map coins_ops" where
  "flat_ops = \<lparr>v_get = (\<lambda>m. m), v_add = flat_add, v_spend = flat_spend\<rparr>"

section \<open>Checking and spending inputs\<close>

abbreviation (input) COINBASE_MATURITY :: int where "COINBASE_MATURITY \<equiv> 100"

definition HaveInputs :: "(COutPoint \<Rightarrow> coin option) \<Rightarrow> transaction \<Rightarrow> bool" where
  "HaveInputs get tx \<longleftrightarrow> IsCoinBase tx \<or> (\<forall>i \<in> set (tx_vin tx). get (prevout i) \<noteq> None)"

fun inputs_loop :: "(COutPoint \<Rightarrow> coin option) \<Rightarrow> int \<Rightarrow> int \<Rightarrow> tx_in list \<Rightarrow> int outcome" where
  "inputs_loop get nSpendHeight nValueIn [] = Accepted nValueIn"
| "inputs_loop get nSpendHeight nValueIn (i # is) =
     (case get (prevout i) of
        None \<Rightarrow> Crash
      | Some coin \<Rightarrow>
          if fCoinBase coin \<and> nSpendHeight - int (coin_nHeight coin) < COINBASE_MATURITY
          then Invalid ''bad-txns-premature-spend-of-coinbase''
          else case int64_add nValueIn (nValue (coin_out coin)) of
                 None \<Rightarrow> Crash
               | Some n \<Rightarrow>
                   if \<not> MoneyRange (nValue (coin_out coin)) \<or> \<not> MoneyRange n
                   then Invalid ''bad-txns-inputvalues-outofrange''
                   else inputs_loop get nSpendHeight n is)"

text \<open>The fee of the transaction, when it is accepted.\<close>

definition CheckTxInputs :: "(COutPoint \<Rightarrow> coin option) \<Rightarrow> transaction \<Rightarrow> int \<Rightarrow> int outcome" where
  "CheckTxInputs get tx nSpendHeight =
     (if \<not> HaveInputs get tx then Invalid ''bad-txns-inputs-missingorspent''
      else case inputs_loop get nSpendHeight 0 (tx_vin tx) of
             Accepted nValueIn \<Rightarrow>
               (case GetValueOut tx of
                  Accepted value_out \<Rightarrow>
                    if nValueIn < value_out then Invalid ''bad-txns-in-belowout''
                    else if \<not> MoneyRange (nValueIn - value_out) then Invalid ''bad-txns-fee-outofrange''
                    else Accepted (nValueIn - value_out)
                | r \<Rightarrow> r)
           | r \<Rightarrow> r)"

section \<open>Applying and undoing a transaction\<close>

text \<open>The inputs are spent in order, the coins go into the undo data; \<open>assert(is_spent)\<close> may fail.\<close>

fun spend_inputs :: "'s coins_ops \<Rightarrow> tx_in list \<Rightarrow> 's \<Rightarrow> ('s \<times> coin list) option" where
  "spend_inputs ops [] s = Some (s, [])"
| "spend_inputs ops (i # is) s =
     (case v_spend ops (prevout i) s of
        None \<Rightarrow> None
      | Some (s', c) \<Rightarrow> map_option (\<lambda>(s'', undo). (s'', c # undo)) (spend_inputs ops is s'))"

fun add_outputs :: "'s coins_ops \<Rightarrow> nat \<Rightarrow> nat \<Rightarrow> bool \<Rightarrow> nat \<Rightarrow> tx_out list \<Rightarrow> 's \<Rightarrow> 's option" where
  "add_outputs ops txid nHeight cb i [] s = Some s"
| "add_outputs ops txid nHeight cb i (out # outs) s =
     (case v_add ops (COutPoint txid i) \<lparr>coin_out = out, fCoinBase = cb, coin_nHeight = nHeight\<rparr> cb s of
        None \<Rightarrow> None
      | Some s' \<Rightarrow> add_outputs ops txid nHeight cb (Suc i) outs s')"

definition AddCoins :: "'s coins_ops \<Rightarrow> transaction \<Rightarrow> nat \<Rightarrow> 's \<Rightarrow> 's option" where
  "AddCoins ops tx nHeight s = add_outputs ops (tx_hash tx) nHeight (IsCoinBase tx) 0 (tx_vout tx) s"

definition UpdateCoins :: "'s coins_ops \<Rightarrow> transaction \<Rightarrow> nat \<Rightarrow> 's \<Rightarrow> ('s \<times> coin list) option" where
  "UpdateCoins ops tx nHeight s =
     (case (if IsCoinBase tx then Some (s, []) else spend_inputs ops (tx_vin tx) s) of
        None \<Rightarrow> None
      | Some (s', undo) \<Rightarrow> map_option (\<lambda>s''. (s'', undo)) (AddCoins ops tx nHeight s'))"

text \<open>Undoing: the outputs are spent again, and have to be the ones that were added, unless the block is
  one of two known exceptions.\<close>

fun spend_outputs ::
  "'s coins_ops \<Rightarrow> nat \<Rightarrow> nat \<Rightarrow> bool \<Rightarrow> bool \<Rightarrow> nat \<Rightarrow> tx_out list \<Rightarrow> 's \<times> bool \<Rightarrow> 's \<times> bool" where
  "spend_outputs ops txid nHeight cb exc i [] sc = sc"
| "spend_outputs ops txid nHeight cb exc i (out # outs) (s, fClean) =
     (if IsUnspendable (scriptPubKey out) then spend_outputs ops txid nHeight cb exc (Suc i) outs (s, fClean)
      else let (s', c, is_spent) =
             (case v_spend ops (COutPoint txid i) s of
                None \<Rightarrow> (s, null_coin, False)
              | Some (s', c) \<Rightarrow> (s', c, True));
             match = (is_spent \<and> coin_out c = out \<and> coin_nHeight c = nHeight \<and> fCoinBase c = cb)
           in spend_outputs ops txid nHeight cb exc (Suc i) outs (s', fClean \<and> (match \<or> exc)))"

datatype disconnect_result = DISCONNECT_OK | DISCONNECT_UNCLEAN | DISCONNECT_FAILED

abbreviation (input) MAX_OUTPUTS_PER_BLOCK :: nat where "MAX_OUTPUTS_PER_BLOCK \<equiv> 4000000 div 36"

definition AccessByTxid :: "(COutPoint \<Rightarrow> coin option) \<Rightarrow> nat \<Rightarrow> coin option" where
  "AccessByTxid get txid =
     Option.bind (find (\<lambda>n. get (COutPoint txid n) \<noteq> None) [0..<MAX_OUTPUTS_PER_BLOCK])
       (\<lambda>n. get (COutPoint txid n))"

text \<open>A spent output is restored; the height 0 marks undo data without height and coinbase flag, which
  another output of the same transaction has to supply.\<close>

definition ApplyTxInUndo ::
  "'s coins_ops \<Rightarrow> coin \<Rightarrow> COutPoint \<Rightarrow> 's \<Rightarrow> ('s \<times> disconnect_result) option" where
  "ApplyTxInUndo ops undo p s =
     (let fClean = (v_get ops s p = None);
          undo' = (if coin_nHeight undo = 0
                   then map_option (\<lambda>alternate. undo\<lparr>coin_nHeight := coin_nHeight alternate,
                                                      fCoinBase := fCoinBase alternate\<rparr>)
                          (AccessByTxid (v_get ops s) (op_hash p))
                   else Some undo)
      in case undo' of
           None \<Rightarrow> Some (s, DISCONNECT_FAILED)
         | Some c \<Rightarrow>
             map_option (\<lambda>s'. (s', if fClean then DISCONNECT_OK else DISCONNECT_UNCLEAN))
               (v_add ops p c (\<not> fClean) s))"

text \<open>The inputs from the last to the first; the flag is \<open>fClean\<close>, and the outer option around the pair
  is the return with \<open>DISCONNECT_FAILED\<close>.\<close>

fun restore_inputs ::
  "'s coins_ops \<Rightarrow> (tx_in \<times> coin) list \<Rightarrow> 's \<times> bool \<Rightarrow> ('s \<times> bool) option outcome" where
  "restore_inputs ops [] sc = Accepted (Some sc)"
| "restore_inputs ops ((i, undo) # rest) (s, fClean) =
     (case ApplyTxInUndo ops undo (prevout i) s of
        None \<Rightarrow> Crash
      | Some (s', res) \<Rightarrow>
          if res = DISCONNECT_FAILED then Accepted None
          else restore_inputs ops rest (s', fClean \<and> res \<noteq> DISCONNECT_UNCLEAN))"

section \<open>The value of a set of coins\<close>

abbreviation coin_value :: "coin \<Rightarrow> int" where
  "coin_value c \<equiv> nValue (coin_out c)"

definition coins_wf :: "coin_map \<Rightarrow> bool" where
  "coins_wf m \<longleftrightarrow>
     finite (dom m) \<and>
     (\<forall>p c. m p = Some c \<longrightarrow>
        MoneyRange (coin_value c) \<and> \<not> IsUnspendable (scriptPubKey (coin_out c)) \<and> 0 < coin_nHeight c)"

definition coin_total :: "coin_map \<Rightarrow> int" where
  "coin_total m = (\<Sum>p \<in> dom m. coin_value (the (m p)))"

lemma coins_wf_entry:
  assumes "coins_wf m" "m p = Some c"
  shows "MoneyRange (coin_value c)" "0 \<le> coin_value c" "\<not> coin_IsSpent c"
    "\<not> IsUnspendable (scriptPubKey (coin_out c))" "0 < coin_nHeight c"
proof -
  have c: "MoneyRange (coin_value c)" "\<not> IsUnspendable (scriptPubKey (coin_out c))" "0 < coin_nHeight c"
    using assms by (auto simp: coins_wf_def)
  then show "MoneyRange (coin_value c)" "0 \<le> coin_value c" "\<not> coin_IsSpent c"
    "\<not> IsUnspendable (scriptPubKey (coin_out c))" "0 < coin_nHeight c"
    by (simp_all add: MoneyRange_def coin_IsSpent_def)
qed

lemma coins_wf_empty: "coins_wf Map.empty"
  by (simp add: coins_wf_def)

lemma coins_wf_remove: "coins_wf m \<Longrightarrow> coins_wf (m(p := None))"
  by (simp add: coins_wf_def)

lemma coin_total_nonneg: "coins_wf m \<Longrightarrow> 0 \<le> coin_total m"
  unfolding coin_total_def by (rule sum_nonneg) (auto dest: coins_wf_entry(2))

lemma coin_total_remove:
  assumes "coins_wf m" "m p = Some c"
  shows "coin_total (m(p := None)) = coin_total m - coin_value c"
proof -
  have "coin_total m = coin_value (the (m p)) + (\<Sum>q \<in> dom m - {p}. coin_value (the (m q)))"
    unfolding coin_total_def using assms by (intro sum.remove) (auto simp: coins_wf_def)
  moreover have "coin_total (m(p := None)) = (\<Sum>q \<in> dom m - {p}. coin_value (the (m q)))"
    unfolding coin_total_def by (rule sum.cong) auto
  ultimately show ?thesis
    using assms(2) by simp
qed

lemma coin_total_fresh:
  assumes "coins_wf m" "m p = None"
  shows "coin_total (m(p \<mapsto> c)) = coin_total m + coin_value c"
proof -
  have "(\<Sum>q \<in> dom m. coin_value (the ((m(p \<mapsto> c)) q))) = coin_total m"
    unfolding coin_total_def using assms(2) by (intro sum.cong) auto
  then show ?thesis
    using assms by (simp add: coin_total_def coins_wf_def domIff)
qed

lemma coin_total_insert:
  assumes "coins_wf m"
  shows "coin_total (m(p \<mapsto> c)) \<le> coin_total m + coin_value c"
proof (cases "m p")
  case (Some d)
  have "coin_total ((m(p := None))(p \<mapsto> c)) = coin_total (m(p := None)) + coin_value c"
    by (rule coin_total_fresh [OF coins_wf_remove [OF assms]]) simp
  then show ?thesis
    using coin_total_remove [OF assms Some] coins_wf_entry(2) [OF assms Some] by simp
qed (use coin_total_fresh [OF assms] in simp)

section \<open>Inputs\<close>

lemma flat_ops_simps [simp]:
  "v_get flat_ops m = m" "v_add flat_ops = flat_add" "v_spend flat_ops = flat_spend"
  by (simp_all add: flat_ops_def)

text \<open>Spending on the plain map succeeds only if the outpoints are all there and all different.\<close>

lemma spend_inputs_flat:
  assumes "spend_inputs flat_ops is m = Some (m', undo)"
  shows "m' = m |` (- set (map prevout is)) \<and> map Some undo = map (\<lambda>i. m (prevout i)) is \<and>
    distinct (map prevout is)"
  using assms
proof (induction "is" arbitrary: m m' undo)
  case (Cons i "is")
  define m1 where "m1 = m(prevout i := None)"
  obtain c undo' where c: "m (prevout i) = Some c" "undo = c # undo'"
    "spend_inputs flat_ops is m1 = Some (m', undo')"
    using Cons.prems by (auto simp: flat_spend_def m1_def split: option.splits)
  let ?A = "set (map prevout is)"
  note IH = Cons.IH [OF c(3)]
  have notin: "prevout i \<notin> ?A"
  proof
    assume "prevout i \<in> ?A"
    then have "m1 (prevout i) \<in> set (map (\<lambda>j. m1 (prevout j)) is)"
      by auto
    then have "None \<in> set (map Some undo')"
      using IH by (simp add: m1_def)
    then show False
      by auto
  qed
  have "map (\<lambda>j. m1 (prevout j)) is = map (\<lambda>j. m (prevout j)) is"
    using notin by (auto simp: m1_def image_iff)
  moreover have "m1 |` (- ?A) = m |` (- insert (prevout i) ?A)"
    by (auto simp: restrict_map_def m1_def)
  ultimately show ?case
    using IH c(1,2) notin by simp
qed (simp add: restrict_map_def)

lemma coin_total_spend:
  assumes "spend_inputs flat_ops is m = Some (m', undo)" "coins_wf m"
  shows "coins_wf m' \<and> coin_total m' = coin_total m - sum_list (map coin_value undo)"
  using assms
proof (induction "is" arbitrary: m m' undo)
  case (Cons i "is")
  define m1 where "m1 = m(prevout i := None)"
  obtain c undo' where c: "m (prevout i) = Some c" "undo = c # undo'"
    "spend_inputs flat_ops is m1 = Some (m', undo')"
    using Cons.prems(1) by (auto simp: flat_spend_def m1_def split: option.splits)
  have "coins_wf m1" "coin_total m1 = coin_total m - coin_value c"
    unfolding m1_def using coins_wf_remove [OF Cons.prems(2)] coin_total_remove [OF Cons.prems(2) c(1)] .
  then show ?case
    using Cons.IH [OF c(3)] c(2) by simp
qed simp

lemma inputs_loop_sum:
  "inputs_loop get h n is = Accepted v \<Longrightarrow> v = n + (\<Sum>i \<leftarrow> is. coin_value (the (get (prevout i))))"
proof (induction "is" arbitrary: n)
  case (Cons i "is")
  then obtain c n' where "get (prevout i) = Some c" "int64_add n (coin_value c) = Some n'"
    "inputs_loop get h n' is = Accepted v"
    by (auto split: option.splits if_splits)
  then show ?case
    using Cons.IH int64_add_Some by fastforce
qed simp

lemma CheckTxInputs_accepted:
  assumes "CheckTxInputs get tx h = Accepted fee"
  obtains v_out where "GetValueOut tx = Accepted v_out"
    "(\<Sum>i \<leftarrow> tx_vin tx. coin_value (the (get (prevout i)))) = v_out + fee" "MoneyRange fee"
  using assms inputs_loop_sum [of get h 0 "tx_vin tx"]
  by (auto simp: CheckTxInputs_def split: if_splits outcome.splits)

section \<open>Outputs\<close>

fun out_coins :: "nat \<Rightarrow> nat \<Rightarrow> bool \<Rightarrow> nat \<Rightarrow> tx_out list \<Rightarrow> coin_map" where
  "out_coins txid h cb i [] = Map.empty"
| "out_coins txid h cb i (out # outs) =
     (if IsUnspendable (scriptPubKey out) then out_coins txid h cb (Suc i) outs
      else (out_coins txid h cb (Suc i) outs)
             (COutPoint txid i \<mapsto> \<lparr>coin_out = out, fCoinBase = cb, coin_nHeight = h\<rparr>))"

lemma out_coins_below: "j < i \<Longrightarrow> out_coins txid h cb i outs (COutPoint txid j) = None"
  by (induction outs arbitrary: i) auto

lemma out_coins_hash: "out_coins txid h cb i outs p = Some c \<Longrightarrow> op_hash p = txid"
  by (induction outs arbitrary: i) (auto split: if_splits)

text \<open>Added without leave to overwrite, the outputs are all new.\<close>

lemma add_outputs_flat:
  assumes "add_outputs flat_ops txid h cb i outs m = Some m'"
  shows "m' = m ++ out_coins txid h cb i outs \<and>
    (cb \<or> dom m \<inter> dom (out_coins txid h cb i outs) = {})"
  using assms
proof (induction outs arbitrary: i m)
  case (Cons out outs)
  let ?p = "COutPoint txid i" and ?c = "\<lparr>coin_out = out, fCoinBase = cb, coin_nHeight = h\<rparr>"
  let ?rest = "out_coins txid h cb (Suc i) outs"
  show ?case
  proof (cases "IsUnspendable (scriptPubKey out)")
    case True
    then show ?thesis
      using Cons by (auto simp: flat_add_def split: option.splits if_splits)
  next
    case False
    define m1 where "m1 = m(?p \<mapsto> ?c)"
    have p: "cb \<or> m ?p = None" "add_outputs flat_ops txid h cb (Suc i) outs m1 = Some m'"
      using Cons.prems False by (auto simp: flat_add_def m1_def split: option.splits if_splits)
    have "m1 ++ ?rest = m ++ out_coins txid h cb i (out # outs)"
      using False out_coins_below [of i "Suc i" txid h cb outs]
      by (intro ext) (auto simp: map_add_def m1_def split: option.split)
    moreover have "cb \<or> dom m \<inter> dom (out_coins txid h cb i (out # outs)) = {}"
      if "cb \<or> dom m1 \<inter> dom ?rest = {}"
      using that p(1) False by (auto simp: m1_def)
    ultimately show ?thesis
      using Cons.IH [OF p(2)] by simp
  qed
qed simp

lemma coin_total_add:
  assumes "add_outputs flat_ops txid h cb i outs m = Some m'" "coins_wf m" "0 < h"
    and "\<forall>out \<in> set outs. MoneyRange (nValue out)"
  shows "coins_wf m' \<and> coin_total m' \<le> coin_total m + out_sum outs"
  using assms
proof (induction outs arbitrary: i m)
  case (Cons out outs)
  let ?p = "COutPoint txid i" and ?c = "\<lparr>coin_out = out, fCoinBase = cb, coin_nHeight = h\<rparr>"
  have v: "0 \<le> nValue out" "MoneyRange (nValue out)"
    using Cons.prems(4) by (auto simp: MoneyRange_def)
  show ?case
  proof (cases "IsUnspendable (scriptPubKey out)")
    case True
    then have "add_outputs flat_ops txid h cb (Suc i) outs m = Some m'"
      using Cons.prems(1) by (auto simp: flat_add_def split: option.splits if_splits)
    then show ?thesis
      using Cons.IH [of "Suc i" m] Cons.prems v by simp
  next
    case False
    define m1 where "m1 = m(?p \<mapsto> ?c)"
    have add: "add_outputs flat_ops txid h cb (Suc i) outs m1 = Some m'"
      using Cons.prems(1) False by (auto simp: flat_add_def m1_def split: option.splits if_splits)
    have "coins_wf m1"
      unfolding m1_def using Cons.prems(2,3) v(2) False by (simp add: coins_wf_def)
    moreover have "coin_total m1 \<le> coin_total m + nValue out"
      unfolding m1_def using coin_total_insert [OF Cons.prems(2), of ?p ?c] by simp
    ultimately show ?thesis
      using Cons.IH [OF add] Cons.prems(3,4) by simp
  qed
qed simp

section \<open>Transactions on the plain map\<close>

lemma UpdateCoins_coinbase:
  assumes "UpdateCoins flat_ops tx n m = Some (m', undo)" "IsCoinBase tx" "coins_wf m" "0 < n"
    and "\<forall>out \<in> set (tx_vout tx). MoneyRange (nValue out)"
  shows "coins_wf m' \<and> coin_total m' \<le> coin_total m + out_sum (tx_vout tx)"
proof -
  have "add_outputs flat_ops (tx_hash tx) n True 0 (tx_vout tx) m = Some m'"
    using assms(1,2) by (auto simp: UpdateCoins_def AddCoins_def)
  from coin_total_add [OF this assms(3,4,5)] show ?thesis .
qed

text \<open>A transaction that passes \<open>CheckTxInputs\<close> takes at least its fee out of the coins.\<close>

lemma UpdateCoins_fee:
  assumes "UpdateCoins flat_ops tx n m = Some (m', undo)" "\<not> IsCoinBase tx" "coins_wf m" "0 < n"
    and "\<forall>out \<in> set (tx_vout tx). MoneyRange (nValue out)" "GetValueOut tx = Accepted (out_sum (tx_vout tx))"
    and "CheckTxInputs m tx h = Accepted fee"
  shows "coins_wf m' \<and> coin_total m' \<le> coin_total m - fee"
proof -
  obtain m1 where m1: "spend_inputs flat_ops (tx_vin tx) m = Some (m1, undo)"
    "add_outputs flat_ops (tx_hash tx) n False 0 (tx_vout tx) m1 = Some m'"
    using assms(1,2) by (auto simp: UpdateCoins_def AddCoins_def split: option.splits)
  have spent: "coins_wf m1" "coin_total m1 = coin_total m - sum_list (map coin_value undo)"
    using coin_total_spend [OF m1(1) assms(3)] by simp_all
  have "map Some undo = map (\<lambda>i. m (prevout i)) (tx_vin tx)"
    using spend_inputs_flat [OF m1(1)] by blast
  then have "map (coin_value \<circ> the) (map Some undo) = map (coin_value \<circ> the) (map (\<lambda>i. m (prevout i)) (tx_vin tx))"
    by (rule arg_cong)
  then have "map coin_value undo = map (\<lambda>i. coin_value (the (m (prevout i)))) (tx_vin tx)"
    by (simp add: comp_def)
  then have "sum_list (map coin_value undo) = out_sum (tx_vout tx) + fee"
    using CheckTxInputs_accepted [OF assms(7)] assms(6) by (metis outcome.inject(1))
  then show ?thesis
    using coin_total_add [OF m1(2) spent(1) assms(4,5)] spent(2) by simp
qed

section \<open>Undoing restores the coins\<close>

lemma spend_outputs_flat:
  assumes "dom m \<inter> dom (out_coins txid h cb i outs) = {}"
  shows "spend_outputs flat_ops txid h cb exc i outs (m ++ out_coins txid h cb i outs, fClean) = (m, fClean)"
  using assms
proof (induction outs arbitrary: i)
  case (Cons out outs)
  let ?p = "COutPoint txid i" and ?c = "\<lparr>coin_out = out, fCoinBase = cb, coin_nHeight = h\<rparr>"
  let ?rest = "out_coins txid h cb (Suc i) outs"
  show ?case
  proof (cases "IsUnspendable (scriptPubKey out)")
    case True
    then show ?thesis
      using Cons by simp
  next
    case False
    define m1 where "m1 = m ++ out_coins txid h cb i (out # outs)"
    have p: "m ?p = None" "dom m \<inter> dom ?rest = {}"
      using Cons.prems False by auto
    have m1: "m1 ?p = Some ?c"
      using False by (simp add: m1_def)
    have "m1(?p := None) = m ++ ?rest"
      using False p(1) out_coins_below [of i "Suc i" txid h cb outs]
      by (intro ext) (auto simp: m1_def map_add_def split: option.split)
    then have "spend_outputs flat_ops txid h cb exc i (out # outs) (m1, fClean) =
        spend_outputs flat_ops txid h cb exc (Suc i) outs (m ++ ?rest, fClean)"
      using False m1 by (simp add: flat_spend_def)
    then show ?thesis
      unfolding m1_def using Cons.IH [OF p(2)] by simp
  qed
qed simp

lemma restore_inputs_flat:
  assumes "coins_wf m" "\<forall>(i, c) \<in> set ps. m (prevout i) = Some c" "distinct (map (prevout \<circ> fst) ps)"
  shows "restore_inputs flat_ops ps (m |` (- (prevout \<circ> fst) ` set ps), fClean) = Accepted (Some (m, fClean))"
  using assms(2,3)
proof (induction ps)
  case (Cons ic ps)
  obtain i c where ic: "ic = (i, c)"
    by force
  define m1 where "m1 = m |` (- (prevout \<circ> fst) ` set (ic # ps))"
  have c: "m (prevout i) = Some c" "prevout i \<notin> (prevout \<circ> fst) ` set ps"
    using Cons.prems ic by auto
  have "flat_add (prevout i) c False m1 = Some (m |` (- (prevout \<circ> fst) ` set ps))"
    using coins_wf_entry [OF assms(1) c(1)] c ic
    by (auto simp: flat_add_def m1_def restrict_map_def)
  moreover have "m1 (prevout i) = None"
    by (simp add: m1_def restrict_map_def ic)
  moreover have "0 < coin_nHeight c"
    by (rule coins_wf_entry [OF assms(1) c(1)])
  ultimately have "restore_inputs flat_ops (ic # ps) (m1, fClean) =
      restore_inputs flat_ops ps (m |` (- (prevout \<circ> fst) ` set ps), fClean)"
    by (simp add: ic ApplyTxInUndo_def)
  then show ?case
    unfolding m1_def using Cons by simp
qed (simp add: restrict_map_def)

end
