(* ===== verification/Coins_Cache.thy ===== *)
theory Coins_Cache
  imports Coins
begin

text \<open>
  The layered cache of coins, \<open>CCoinsViewCache\<close> of \<open>src/coins.cpp\<close> and \<open>src/coins.h\<close>. A cache holds
  entries with the flags \<open>DIRTY\<close> and \<open>FRESH\<close> over a parent, of which it sees the coins; an entry may be
  spent. \<open>FRESH\<close> lets a spent entry be dropped without telling the parent, so it must be set only where
  the parent has no coin. The locale \<open>coins_view\<close> says what a client may rely on; the plain map and the
  cache satisfy it, and flushing a cache into its parent leaves the parent with the coins of the cache.
\<close>

section \<open>Operations\<close>

record cache_entry =
  ce_coin :: coin
  ce_dirty :: bool
  ce_fresh :: bool

record coins_cache =
  cacheCoins :: "COutPoint \<rightharpoonup> cache_entry"
  cache_base :: coin_map

abbreviation (input) cache_map :: "COutPoint \<Rightarrow> cache_entry option \<Rightarrow> coins_cache \<Rightarrow> coins_cache" where
  "cache_map p e s \<equiv> s\<lparr>cacheCoins := (cacheCoins s)(p := e)\<rparr>"

text \<open>\<open>base->GetCoin\<close> answers with unspent coins only; were one spent, the entry would be marked fresh.\<close>

definition FetchCoin :: "COutPoint \<Rightarrow> coins_cache \<Rightarrow> coins_cache \<times> cache_entry option" where
  "FetchCoin p s =
     (case cacheCoins s p of
        Some e \<Rightarrow> (s, Some e)
      | None \<Rightarrow>
          (case cache_base s p of
             None \<Rightarrow> (s, None)
           | Some c \<Rightarrow>
               let e = \<lparr>ce_coin = c, ce_dirty = False, ce_fresh = coin_IsSpent c\<rparr>
               in (cache_map p (Some e) s, Some e)))"

definition GetCoin :: "coins_cache \<Rightarrow> COutPoint \<Rightarrow> coin option" where
  "GetCoin s p =
     (case snd (FetchCoin p s) of
        None \<Rightarrow> None
      | Some e \<Rightarrow> if coin_IsSpent (ce_coin e) then None else Some (ce_coin e))"

definition AddCoin :: "COutPoint \<Rightarrow> coin \<Rightarrow> bool \<Rightarrow> coins_cache \<Rightarrow> coins_cache option" where
  "AddCoin p c possible_overwrite s =
     (if coin_IsSpent c then None
      else if IsUnspendable (scriptPubKey (coin_out c)) then Some s
      else let e = (case cacheCoins s p of
                      None \<Rightarrow> \<lparr>ce_coin = null_coin, ce_dirty = False, ce_fresh = False\<rparr>
                    | Some e \<Rightarrow> e)
           in if \<not> possible_overwrite \<and> \<not> coin_IsSpent (ce_coin e) then None
              else let fresh = (\<not> possible_overwrite \<and> \<not> ce_dirty e)
                   in Some (cache_map p
                        (Some \<lparr>ce_coin = c, ce_dirty = True, ce_fresh = ce_fresh e \<or> fresh\<rparr>) s))"

definition SpendCoin :: "COutPoint \<Rightarrow> coins_cache \<Rightarrow> (coins_cache \<times> coin) option" where
  "SpendCoin p s =
     (case FetchCoin p s of
        (s', None) \<Rightarrow> None
      | (s', Some e) \<Rightarrow>
          Some (cache_map p (if ce_fresh e then None
                             else Some (e\<lparr>ce_coin := null_coin, ce_dirty := True\<rparr>)) s',
                ce_coin e))"

definition Uncache :: "COutPoint \<Rightarrow> coins_cache \<Rightarrow> coins_cache" where
  "Uncache p s =
     (case cacheCoins s p of
        Some e \<Rightarrow> if \<not> ce_dirty e \<and> \<not> ce_fresh e then cache_map p None s else s
      | None \<Rightarrow> s)"

text \<open>One flagged entry of a child, written into a cache; \<open>None\<close> is the exception for a \<open>FRESH\<close> flag that
  was misapplied.\<close>

definition batch_entry :: "COutPoint \<times> cache_entry \<Rightarrow> coins_cache \<Rightarrow> coins_cache option" where
  "batch_entry pe s =
     (let (p, it) = pe in
      if \<not> ce_dirty it then Some s
      else case cacheCoins s p of
             None \<Rightarrow>
               if ce_fresh it \<and> coin_IsSpent (ce_coin it) then Some s
               else Some (cache_map p
                      (Some \<lparr>ce_coin = ce_coin it, ce_dirty = True, ce_fresh = ce_fresh it\<rparr>) s)
           | Some us \<Rightarrow>
               if ce_fresh it \<and> \<not> coin_IsSpent (ce_coin us) then None
               else if ce_fresh us \<and> coin_IsSpent (ce_coin it) then Some (cache_map p None s)
               else Some (cache_map p (Some (us\<lparr>ce_coin := ce_coin it, ce_dirty := True\<rparr>)) s))"

fun BatchWrite :: "(COutPoint \<times> cache_entry) list \<Rightarrow> coins_cache \<Rightarrow> coins_cache option" where
  "BatchWrite [] s = Some s"
| "BatchWrite (pe # pes) s = Option.bind (batch_entry pe s) (BatchWrite pes)"

text \<open>The database as the parent writes or erases every dirty entry.\<close>

fun db_write :: "(COutPoint \<times> cache_entry) list \<Rightarrow> coin_map \<Rightarrow> coin_map" where
  "db_write [] m = m"
| "db_write ((p, it) # pes) m =
     db_write pes (if ce_dirty it then m(p := if coin_IsSpent (ce_coin it) then None else Some (ce_coin it)) else m)"

text \<open>The flagged entries of a cache, as its linked list has them, in some order.\<close>

definition flagged :: "coins_cache \<Rightarrow> (COutPoint \<times> cache_entry) list \<Rightarrow> bool" where
  "flagged s pes \<longleftrightarrow>
     distinct (map fst pes) \<and>
     set pes = {(p, e). cacheCoins s p = Some e \<and> (ce_dirty e \<or> ce_fresh e)}"

text \<open>\<open>Flush\<close> clears the cache; \<open>Sync\<close> keeps its unspent entries, without flags. The new base is what the
  parent holds afterwards.\<close>

definition flush_cache :: "coin_map \<Rightarrow> coins_cache \<Rightarrow> coins_cache" where
  "flush_cache base s = s\<lparr>cacheCoins := Map.empty, cache_base := base\<rparr>"

definition sync_cache :: "coin_map \<Rightarrow> coins_cache \<Rightarrow> coins_cache" where
  "sync_cache base s =
     s\<lparr>cacheCoins := (\<lambda>p. Option.bind (cacheCoins s p)
          (\<lambda>e. if ce_dirty e \<or> ce_fresh e
               then if coin_IsSpent (ce_coin e) then None else Some (e\<lparr>ce_dirty := False, ce_fresh := False\<rparr>)
               else Some e)),
       cache_base := base\<rparr>"

definition cache_ops :: "coins_cache coins_ops" where
  "cache_ops = \<lparr>v_get = GetCoin, v_add = AddCoin, v_spend = SpendCoin\<rparr>"

section \<open>What a view promises\<close>

locale coins_view =
  fixes ops :: "'s coins_ops" and good :: "'s \<Rightarrow> bool" and coins :: "'s \<Rightarrow> coin_map"
  assumes get_coins: "good s \<Longrightarrow> v_get ops s = coins s"
    and add_coins: "good s \<Longrightarrow> flat_add p c ow (coins s) = Some m \<Longrightarrow>
      \<exists>s'. v_add ops p c ow s = Some s' \<and> good s' \<and> coins s' = m"
    and spend_coins: "good s \<Longrightarrow> flat_spend p (coins s) = Some (m, c) \<Longrightarrow>
      \<exists>s'. v_spend ops p s = Some (s', c) \<and> good s' \<and> coins s' = m"
    and spend_missing: "good s \<Longrightarrow> flat_spend p (coins s) = None \<Longrightarrow> v_spend ops p s = Some (s', c) \<Longrightarrow>
      good s' \<and> coins s' = coins s \<and> coin_IsSpent c"
begin

lemma spend_inputs_refines:
  assumes "good s" "spend_inputs flat_ops is (coins s) = Some (m, undo)"
  shows "\<exists>s'. spend_inputs ops is s = Some (s', undo) \<and> good s' \<and> coins s' = m"
  using assms
proof (induction "is" arbitrary: s m undo)
  case (Cons i "is")
  obtain m1 c undo' where f: "flat_spend (prevout i) (coins s) = Some (m1, c)"
    "spend_inputs flat_ops is m1 = Some (m, undo')" "undo = c # undo'"
    using Cons.prems(2) by (auto split: option.splits)
  obtain s1 where s1: "v_spend ops (prevout i) s = Some (s1, c)" "good s1" "coins s1 = m1"
    using spend_coins [OF Cons.prems(1) f(1)] by blast
  obtain s' where "spend_inputs ops is s1 = Some (s', undo')" "good s'" "coins s' = m"
    using Cons.IH [OF s1(2)] f(2) s1(3) by blast
  then show ?case
    using s1(1) f(3) by simp
qed simp

lemma add_outputs_refines:
  assumes "good s" "add_outputs flat_ops txid h cb i outs (coins s) = Some m"
  shows "\<exists>s'. add_outputs ops txid h cb i outs s = Some s' \<and> good s' \<and> coins s' = m"
  using assms
proof (induction outs arbitrary: i s)
  case (Cons out outs)
  let ?c = "\<lparr>coin_out = out, fCoinBase = cb, coin_nHeight = h\<rparr>"
  obtain m1 where f: "flat_add (COutPoint txid i) ?c cb (coins s) = Some m1"
    "add_outputs flat_ops txid h cb (Suc i) outs m1 = Some m"
    using Cons.prems(2) by (auto split: option.splits)
  obtain s1 where s1: "v_add ops (COutPoint txid i) ?c cb s = Some s1" "good s1" "coins s1 = m1"
    using add_coins [OF Cons.prems(1) f(1)] by blast
  then show ?case
    using Cons.IH [OF s1(2)] f(2) by simp
qed simp

text \<open>Whatever \<open>UpdateCoins\<close> does to the plain map it does to the coins of the view.\<close>

lemma UpdateCoins_refines:
  assumes "good s" "UpdateCoins flat_ops tx h (coins s) = Some (m, undo)"
  shows "\<exists>s'. UpdateCoins ops tx h s = Some (s', undo) \<and> good s' \<and> coins s' = m"
proof -
  obtain m1 where f: "(if IsCoinBase tx then Some (coins s, []) else spend_inputs flat_ops (tx_vin tx) (coins s)) = Some (m1, undo)"
    "AddCoins flat_ops tx h m1 = Some m"
    using assms(2) unfolding UpdateCoins_def by (auto split: option.splits if_splits)
  obtain s1 where s1: "(if IsCoinBase tx then Some (s, []) else spend_inputs ops (tx_vin tx) s) = Some (s1, undo)"
    "good s1" "coins s1 = m1"
    using f(1) spend_inputs_refines [OF assms(1), of "tx_vin tx"] assms(1) by (cases "IsCoinBase tx") auto
  obtain s' where "AddCoins ops tx h s1 = Some s'" "good s'" "coins s' = m"
    using add_outputs_refines [OF s1(2)] f(2) s1(3) unfolding AddCoins_def by blast
  then show ?thesis
    unfolding UpdateCoins_def s1(1) by simp
qed

end

interpretation flat: coins_view flat_ops "\<lambda>m. True" "\<lambda>m. m"
  by unfold_locales simp_all

section \<open>The cache keeps the promise\<close>

definition live :: "coin \<Rightarrow> coin option" where
  "live c = (if coin_IsSpent c then None else Some c)"

definition cache_coins :: "coins_cache \<Rightarrow> coin_map" where
  "cache_coins s = (\<lambda>p. case cacheCoins s p of None \<Rightarrow> cache_base s p | Some e \<Rightarrow> live (ce_coin e))"

text \<open>An entry is clean and unspent as in the parent, or dirty; it is \<open>FRESH\<close> only where the parent has no
  coin; and a spent one is never \<open>FRESH\<close>.\<close>

definition entry_good :: "coin option \<Rightarrow> cache_entry \<Rightarrow> bool" where
  "entry_good base e \<longleftrightarrow>
     (ce_fresh e \<longrightarrow> base = None \<and> ce_dirty e \<and> \<not> coin_IsSpent (ce_coin e)) \<and>
     (\<not> ce_dirty e \<longrightarrow> base = Some (ce_coin e) \<and> \<not> coin_IsSpent (ce_coin e))"

definition cache_good :: "coins_cache \<Rightarrow> bool" where
  "cache_good s \<longleftrightarrow>
     (\<forall>p c. cache_base s p = Some c \<longrightarrow> \<not> coin_IsSpent c) \<and>
     (\<forall>p e. cacheCoins s p = Some e \<longrightarrow> entry_good (cache_base s p) e)"

lemma null_coin_spent [simp]: "coin_IsSpent null_coin"
  by (simp add: coin_IsSpent_def null_coin_def)

lemma cache_good_entry: "cache_good s \<Longrightarrow> cacheCoins s p = Some e \<Longrightarrow> entry_good (cache_base s p) e"
  by (simp add: cache_good_def)

lemma cache_good_base: "cache_good s \<Longrightarrow> cache_base s p = Some c \<Longrightarrow> \<not> coin_IsSpent c"
  by (simp add: cache_good_def)

lemma cache_good_update:
  "cache_good s \<Longrightarrow> (\<And>e'. e = Some e' \<Longrightarrow> entry_good (cache_base s p) e') \<Longrightarrow> cache_good (cache_map p e s)"
  by (simp add: cache_good_def)

lemma cache_coins_update:
  "cache_coins (cache_map p e s) =
     (cache_coins s)(p := (case e of None \<Rightarrow> cache_base s p | Some e' \<Rightarrow> live (ce_coin e')))"
  by (rule ext) (auto simp: cache_coins_def split: option.splits)

lemma GetCoin_coins: "cache_good s \<Longrightarrow> GetCoin s = cache_coins s"
  by (rule ext) (auto simp: GetCoin_def FetchCoin_def cache_coins_def live_def Let_def cache_good_base split: option.splits)

lemma AddCoin_coins:
  assumes good: "cache_good s" and add: "flat_add p c ow (cache_coins s) = Some m"
  shows "\<exists>s'. AddCoin p c ow s = Some s' \<and> cache_good s' \<and> cache_coins s' = m"
proof (cases "IsUnspendable (scriptPubKey (coin_out c))")
  case True
  then show ?thesis
    using assms by (auto simp: flat_add_def AddCoin_def split: if_splits)
next
  case False
  have c: "\<not> coin_IsSpent c" "ow \<or> cache_coins s p = None" "m = (cache_coins s)(p \<mapsto> c)"
    using add False by (auto simp: flat_add_def split: if_splits)
  define e where "e = (case cacheCoins s p of
    None \<Rightarrow> \<lparr>ce_coin = null_coin, ce_dirty = False, ce_fresh = False\<rparr> | Some e \<Rightarrow> e)"
  let ?n = "\<lparr>ce_coin = c, ce_dirty = True, ce_fresh = ce_fresh e \<or> \<not> ow \<and> \<not> ce_dirty e\<rparr>"
  have e: "ow \<or> coin_IsSpent (ce_coin e)" "ce_fresh ?n \<longrightarrow> cache_base s p = None"
    using c(2) cache_good_entry [OF good, of p] cache_good_base [OF good, of p]
    by (auto simp: e_def cache_coins_def live_def entry_good_def split: option.splits if_splits)
  have "AddCoin p c ow s = Some (cache_map p (Some ?n) s)"
    using c(1) False e(1) unfolding AddCoin_def e_def [symmetric] Let_def by simp
  moreover have "cache_good (cache_map p (Some ?n) s)"
    using e(2) c(1) by (intro cache_good_update [OF good]) (auto simp: entry_good_def)
  moreover have "cache_coins (cache_map p (Some ?n) s) = m"
    using c(1,3) by (simp add: cache_coins_update live_def)
  ultimately show ?thesis
    by blast
qed

lemma FetchCoin_good:
  assumes "cache_good s"
  shows "cache_good (fst (FetchCoin p s))" "cache_coins (fst (FetchCoin p s)) = cache_coins s"
    "cache_base (fst (FetchCoin p s)) = cache_base s" "cacheCoins (fst (FetchCoin p s)) p = snd (FetchCoin p s)"
proof -
  show "cache_good (fst (FetchCoin p s))"
    using assms cache_good_base [OF assms, of p]
    by (auto simp: FetchCoin_def Let_def entry_good_def split: option.splits intro!: cache_good_update)
  show "cache_coins (fst (FetchCoin p s)) = cache_coins s"
    using cache_good_base [OF assms, of p]
    by (auto simp: FetchCoin_def Let_def cache_coins_def live_def fun_eq_iff split: option.splits)
qed (auto simp: FetchCoin_def Let_def split: option.splits)

lemma SpendCoin_coins:
  assumes good: "cache_good s" and spend: "flat_spend p (cache_coins s) = Some (m, c)"
  shows "\<exists>s'. SpendCoin p s = Some (s', c) \<and> cache_good s' \<and> cache_coins s' = m"
proof -
  define s1 where "s1 = fst (FetchCoin p s)"
  note s1 = FetchCoin_good [OF good, of p, folded s1_def]
  have c: "cache_coins s1 p = Some c" "m = (cache_coins s1)(p := None)"
    using spend by (auto simp: flat_spend_def s1(2) split: option.splits)
  obtain e where e: "snd (FetchCoin p s) = Some e"
  proof (cases "snd (FetchCoin p s)")
    case None
    then have "cacheCoins s p = None" "cache_base s p = None"
      by (auto simp: FetchCoin_def Let_def split: option.splits)
    then have "cache_coins s p = None"
      by (simp add: cache_coins_def)
    then show ?thesis
      using c(1) s1(2) by simp
  qed
  have entry: "cacheCoins s1 p = Some e" "entry_good (cache_base s1 p) e" "ce_coin e = c"
    using s1(4) e cache_good_entry [OF s1(1)] c(1)
    by (auto simp: cache_coins_def live_def split: if_splits)
  let ?n = "if ce_fresh e then None else Some (e\<lparr>ce_coin := null_coin, ce_dirty := True\<rparr>)"
  have "SpendCoin p s = Some (cache_map p ?n s1, c)"
    using e entry(3) unfolding SpendCoin_def s1_def by (cases "FetchCoin p s") simp
  moreover have "cache_good (cache_map p ?n s1)"
    by (rule cache_good_update [OF s1(1)]) (auto simp: entry_good_def split: if_splits)
  moreover have "cache_coins (cache_map p ?n s1) = m"
    using c(2) entry(2) by (auto simp: cache_coins_update live_def entry_good_def)
  ultimately show ?thesis
    by blast
qed

text \<open>Spending where no coin is may find a spent entry; it stays one.\<close>

lemma SpendCoin_missing:
  assumes good: "cache_good s" and spend: "flat_spend p (cache_coins s) = None" and s': "SpendCoin p s = Some (s', c)"
  shows "cache_good s' \<and> cache_coins s' = cache_coins s \<and> coin_IsSpent c"
proof -
  have none: "cache_coins s p = None"
    using spend by (auto simp: flat_spend_def split: option.splits)
  obtain e where e: "cacheCoins s p = Some e"
  proof (cases "cacheCoins s p")
    case None
    then have "cache_base s p = None"
      using none by (simp add: cache_coins_def)
    then show ?thesis
      using None s' by (simp add: SpendCoin_def FetchCoin_def)
  qed
  have entry: "coin_IsSpent (ce_coin e)" "\<not> ce_fresh e"
    using none e cache_good_entry [OF good e]
    by (auto simp: cache_coins_def live_def entry_good_def split: if_splits)
  then have new: "s' = cache_map p (Some (e\<lparr>ce_coin := null_coin, ce_dirty := True\<rparr>)) s" "c = ce_coin e"
    using s' e by (auto simp: SpendCoin_def FetchCoin_def)
  have "cache_good s'"
    unfolding new(1) using entry(2) by (intro cache_good_update [OF good]) (auto simp: entry_good_def)
  moreover have "cache_coins s' = cache_coins s"
    unfolding new(1) using none by (auto simp: cache_coins_update live_def fun_eq_iff)
  ultimately show ?thesis
    using entry(1) new(2) by simp
qed

interpretation cache: coins_view cache_ops cache_good cache_coins
  by unfold_locales (auto simp: cache_ops_def GetCoin_coins dest: AddCoin_coins SpendCoin_coins SpendCoin_missing)

section \<open>Writing a cache into its parent\<close>

definition written :: "COutPoint \<times> cache_entry \<Rightarrow> coin_map \<Rightarrow> coin_map" where
  "written pe m = (if ce_dirty (snd pe) then m(fst pe := live (ce_coin (snd pe))) else m)"

lemma batch_entry_coins:
  assumes good: "cache_good s" and fresh: "ce_fresh e \<Longrightarrow> cache_coins s p = None"
  shows "\<exists>s'. batch_entry (p, e) s = Some s' \<and> cache_good s' \<and> cache_base s' = cache_base s \<and>
    cache_coins s' = written (p, e) (cache_coins s)"
proof (cases "ce_dirty e")
  case False
  then show ?thesis
    using good by (simp add: batch_entry_def written_def)
next
  case dirty: True
  show ?thesis
  proof (cases "cacheCoins s p")
    case None
    then have base: "cache_coins s p = cache_base s p"
      by (simp add: cache_coins_def)
    show ?thesis
    proof (cases "ce_fresh e \<and> coin_IsSpent (ce_coin e)")
      case True
      then have "written (p, e) (cache_coins s) = cache_coins s"
        using fresh dirty by (auto simp: written_def live_def)
      then show ?thesis
        using True None dirty good by (simp add: batch_entry_def)
    next
      case False
      let ?n = "\<lparr>ce_coin = ce_coin e, ce_dirty = True, ce_fresh = ce_fresh e\<rparr>"
      have "cache_good (cache_map p (Some ?n) s)"
        using False fresh base by (intro cache_good_update [OF good]) (auto simp: entry_good_def)
      then show ?thesis
        using False None dirty by (auto simp: batch_entry_def cache_coins_update written_def)
    qed
  next
    case (Some us)
    have us: "entry_good (cache_base s p) us" "cache_coins s p = live (ce_coin us)"
      using cache_good_entry [OF good Some] Some by (simp_all add: cache_coins_def)
    have ok: "\<not> (ce_fresh e \<and> \<not> coin_IsSpent (ce_coin us))"
      using fresh us(2) by (auto simp: live_def split: if_splits)
    let ?n = "if ce_fresh us \<and> coin_IsSpent (ce_coin e) then None else Some (us\<lparr>ce_coin := ce_coin e, ce_dirty := True\<rparr>)"
    have "batch_entry (p, e) s = Some (cache_map p ?n s)"
      using Some dirty ok by (simp add: batch_entry_def)
    moreover have "cache_good (cache_map p ?n s)"
      using us(1) by (intro cache_good_update [OF good]) (auto simp: entry_good_def split: if_splits)
    moreover have "cache_coins (cache_map p ?n s) = written (p, e) (cache_coins s)"
      using us(1) dirty by (auto simp: cache_coins_update written_def live_def entry_good_def)
    ultimately show ?thesis
      by auto
  qed
qed

lemma BatchWrite_coins:
  assumes "cache_good s" "distinct (map fst pes)"
    and "\<And>p e. (p, e) \<in> set pes \<Longrightarrow> ce_fresh e \<Longrightarrow> cache_coins s p = None"
  shows "\<exists>s'. BatchWrite pes s = Some s' \<and> cache_good s' \<and> cache_coins s' = fold written pes (cache_coins s)"
  using assms
proof (induction pes arbitrary: s)
  case (Cons pe pes)
  obtain p e where pe: "pe = (p, e)"
    by force
  obtain s1 where s1: "batch_entry (p, e) s = Some s1" "cache_good s1"
    "cache_coins s1 = written (p, e) (cache_coins s)"
    using batch_entry_coins [OF Cons.prems(1), of e p] Cons.prems(3) pe by auto
  have "cache_coins s1 q = None" if "(q, f) \<in> set pes" "ce_fresh f" for q f
  proof -
    have "q \<noteq> p"
      using that(1) Cons.prems(2) pe by force
    moreover have "cache_coins s q = None"
      using Cons.prems(3) [of q f] that by simp
    ultimately show ?thesis
      using s1(3) by (simp add: written_def)
  qed
  then obtain s' where "BatchWrite pes s1 = Some s'" "cache_good s'"
    "cache_coins s' = fold written pes (cache_coins s1)"
    using Cons.IH [OF s1(2)] Cons.prems(2) by auto
  then show ?case
    using s1 pe by simp
qed simp

lemma db_write_fold: "db_write pes m = fold written pes m"
proof (induction pes arbitrary: m)
  case (Cons pe pes)
  obtain p e where pe: "pe = (p, e)"
    by force
  have "db_write (pe # pes) m = db_write pes (written pe m)"
    unfolding pe written_def live_def by simp
  then show ?case
    using Cons by simp
qed simp

lemma fold_written:
  assumes "distinct (map fst pes)"
  shows "fold written pes m p =
    (case map_of pes p of None \<Rightarrow> m p | Some e \<Rightarrow> if ce_dirty e then live (ce_coin e) else m p)"
  using assms
proof (induction pes arbitrary: m)
  case (Cons pe pes)
  have "map_of pes (fst pe) = None"
    using Cons.prems by (simp add: map_of_eq_None_iff)
  then show ?case
    using Cons by (cases "p = fst pe") (auto simp: written_def split: option.splits)
qed simp

text \<open>The flagged entries of a cache turn the coins of its parent into its own.\<close>

lemma flagged_written:
  assumes "cache_good s" "flagged s pes"
  shows "fold written pes (cache_base s) = cache_coins s"
proof
  fix p
  have d: "distinct (map fst pes)"
    using assms(2) by (simp add: flagged_def)
  show "fold written pes (cache_base s) p = cache_coins s p"
  proof (cases "cacheCoins s p")
    case None
    then have "map_of pes p = None"
      using assms(2) by (auto simp: flagged_def map_of_eq_None_iff)
    then show ?thesis
      using None by (simp add: fold_written [OF d] cache_coins_def)
  next
    case (Some e)
    note good = cache_good_entry [OF assms(1) Some]
    show ?thesis
    proof (cases "ce_dirty e \<or> ce_fresh e")
      case True
      then have "(p, e) \<in> set pes"
        using Some assms(2) by (simp add: flagged_def)
      then have "map_of pes p = Some e"
        using d by simp
      then show ?thesis
        using Some good True by (auto simp: fold_written [OF d] cache_coins_def entry_good_def)
    next
      case False
      then have "map_of pes p = None"
        using Some assms(2) by (auto simp: flagged_def map_of_eq_None_iff)
      then show ?thesis
        using Some good False by (simp add: fold_written [OF d] cache_coins_def entry_good_def live_def)
    qed
  qed
qed

lemma cache_coins_unspent: "cache_good s \<Longrightarrow> cache_coins s p = Some c \<Longrightarrow> \<not> coin_IsSpent c"
  using cache_good_base [of s p] by (auto simp: cache_coins_def live_def split: option.splits if_splits)

lemma flush_cache_good:
  assumes "cache_good s"
  shows "cache_good (flush_cache (cache_coins s) s)" "cache_coins (flush_cache (cache_coins s) s) = cache_coins s"
proof -
  show "cache_good (flush_cache (cache_coins s) s)"
    using cache_coins_unspent [OF assms] by (simp add: cache_good_def flush_cache_def)
  show "cache_coins (flush_cache (cache_coins s) s) = cache_coins s"
    unfolding cache_coins_def [of "flush_cache (cache_coins s) s"] by (simp add: flush_cache_def)
qed

lemma sync_cache_good:
  assumes "cache_good s"
  shows "cache_good (sync_cache (cache_coins s) s)" "cache_coins (sync_cache (cache_coins s) s) = cache_coins s"
proof -
  have "entry_good (cache_coins s p) e" if e: "cacheCoins (sync_cache (cache_coins s) s) p = Some e" for p e
  proof -
    obtain e' where e': "cacheCoins s p = Some e'"
      using e by (cases "cacheCoins s p") (auto simp: sync_cache_def)
    then show ?thesis
      using e cache_good_entry [OF assms e']
      by (auto simp: sync_cache_def cache_coins_def entry_good_def live_def split: if_splits)
  qed
  then show "cache_good (sync_cache (cache_coins s) s)"
    using cache_coins_unspent [OF assms] by (simp add: cache_good_def sync_cache_def)
  show "cache_coins (sync_cache (cache_coins s) s) = cache_coins s"
    by (rule ext) (auto simp: sync_cache_def cache_coins_def live_def split: option.splits)
qed

section \<open>Properties\<close>

text \<open>The cache refines the plain map of coins: from a cache whose flags are right, whenever
  \<open>UpdateCoins\<close> succeeds on the coins the cache stands for, it succeeds on the cache with the same undo
  data, the cache then stands for the coins the plain map has, and its flags are still right: every
  entry is in one of the four states that occur, and \<open>FRESH\<close> only where the parent has no coin.\<close>

theorem cache_refines_coins:
  assumes "cache_good s" "UpdateCoins flat_ops tx h (cache_coins s) = Some (m, undo)"
  shows "\<exists>s'. UpdateCoins cache_ops tx h s = Some (s', undo) \<and> cache_good s' \<and> cache_coins s' = m"
  by (rule cache.UpdateCoins_refines [OF assms])

definition example_spend :: transaction where
  "example_spend = \<lparr>tx_vin = [\<lparr>prevout = COutPoint 7 0, scriptSig = [], nSequence = 0, scriptWitness = []\<rparr>],
     tx_vout = [\<lparr>nValue = 5, scriptPubKey = [1]\<rparr>, \<lparr>nValue = 4, scriptPubKey = [0x6a]\<rparr>],
     tx_version = 2, tx_nLockTime = 0, tx_hash = 9, tx_witness_hash = 9\<rparr>"

definition example_coin :: coin where
  "example_coin = \<lparr>coin_out = \<lparr>nValue = 10, scriptPubKey = [1]\<rparr>, fCoinBase = False, coin_nHeight = 3\<rparr>"

definition example_cache :: coins_cache where
  "example_cache = \<lparr>cacheCoins = Map.empty, cache_base = [COutPoint 7 0 \<mapsto> example_coin]\<rparr>"

lemma example_cache_good:
  "cache_good example_cache" "cache_coins example_cache = [COutPoint 7 0 \<mapsto> example_coin]"
  by (auto simp: cache_good_def cache_coins_def example_cache_def example_coin_def coin_IsSpent_def fun_eq_iff)

lemma example_update:
  "UpdateCoins flat_ops example_spend 4 [COutPoint 7 0 \<mapsto> example_coin] =
     Some ([COutPoint 9 0 \<mapsto> \<lparr>coin_out = \<lparr>nValue = 5, scriptPubKey = [1]\<rparr>, fCoinBase = False, coin_nHeight = 4\<rparr>],
       [example_coin])"
  by (simp add: UpdateCoins_def AddCoins_def example_spend_def IsCoinBase_def outpoint_IsNull_def
      flat_spend_def flat_add_def coin_IsSpent_def IsUnspendable_def)

theorem cache_refines_coins_witness:
  "\<exists>s'. UpdateCoins cache_ops example_spend 4 example_cache = Some (s', [example_coin]) \<and> cache_good s'"
  using cache_refines_coins [OF example_cache_good(1), of example_spend 4] example_update
  unfolding example_cache_good(2) by blast

text \<open>C11: Flushing a cache into its parent loses nothing. When the flagged entries of a cache are written
  into the cache below it, in whatever order the list has them, the exception for a misapplied \<open>FRESH\<close>
  flag is not thrown, and the parent stands for exactly the coins the child stood for; the same holds
  for a database as the parent. The emptied cache, or after \<open>Sync\<close> the unflagged one, stands for the
  same coins again.\<close>

theorem flush_moves_all_coins:
  assumes "cache_good child" "cache_good parent" "cache_base child = cache_coins parent" "flagged child pes"
  shows "\<exists>parent'. BatchWrite pes parent = Some parent' \<and> cache_good parent' \<and>
    cache_coins parent' = cache_coins child \<and>
    db_write pes (cache_base child) = cache_coins child \<and>
    cache_coins (flush_cache (cache_coins parent') child) = cache_coins child \<and>
    cache_good (flush_cache (cache_coins parent') child) \<and>
    cache_coins (sync_cache (cache_coins parent') child) = cache_coins child \<and>
    cache_good (sync_cache (cache_coins parent') child)"
proof -
  have "cache_coins parent p = None" if "(p, e) \<in> set pes" "ce_fresh e" for p e
    using that assms(3,4) cache_good_entry [OF assms(1), of p e] by (auto simp: flagged_def entry_good_def)
  then obtain parent' where "BatchWrite pes parent = Some parent'" "cache_good parent'"
    "cache_coins parent' = fold written pes (cache_coins parent)"
    using BatchWrite_coins [OF assms(2), of pes] assms(4) unfolding flagged_def by blast
  moreover have "fold written pes (cache_base child) = cache_coins child"
    by (rule flagged_written [OF assms(1,4)])
  ultimately show ?thesis
    using sync_cache_good [OF assms(1)] flush_cache_good [OF assms(1)] assms(3) by (simp add: db_write_fold)
qed

theorem flush_moves_all_coins_witness:
  "\<exists>parent'. BatchWrite [(COutPoint 7 0, \<lparr>ce_coin = null_coin, ce_dirty = True, ce_fresh = False\<rparr>)] example_cache =
       Some parent' \<and> cache_coins parent' = Map.empty"
proof -
  let ?e = "\<lparr>ce_coin = null_coin, ce_dirty = True, ce_fresh = False\<rparr>"
  let ?child = "\<lparr>cacheCoins = [COutPoint 7 0 \<mapsto> ?e], cache_base = [COutPoint 7 0 \<mapsto> example_coin]\<rparr>"
  have "cache_good ?child"
    by (simp add: cache_good_def entry_good_def example_coin_def coin_IsSpent_def)
  moreover have "flagged ?child [(COutPoint 7 0, ?e)]"
    by (auto simp: flagged_def split: if_splits)
  moreover have "cache_coins ?child = Map.empty"
    by (rule ext) (simp add: cache_coins_def live_def)
  ultimately show ?thesis
    using flush_moves_all_coins [of ?child example_cache "[(COutPoint 7 0, ?e)]"] example_cache_good by auto
qed

end
