(* ===== verification/Block_Connect.thy ===== *)
theory Block_Connect
  imports Blocks Coins_Cache
begin

text \<open>
  Connecting a block to the coins and disconnecting it again: \<open>ConnectBlock\<close> and \<open>DisconnectBlock\<close> of
  \<open>src/validation.cpp\<close>, over any view of the coins. The view comes with the hash of the block it stands
  at, and the block index changes with it. An outcome \<open>Invalid\<close> carries no view: the caller throws the
  temporary view away. \<open>Crash\<close> is a failed assertion, an exception, or the fatal error for a block on
  disk whose transactions do not belong to its header. The scripts are checked one after the other, as
  in a node without threads for them; whether they are checked at all is an argument. Reading and
  writing the undo data is left to the caller, which is handed the data. Looking up a coin is a function
  of the view: that the cache keeps what it looks up does not change its coins.
\<close>

section \<open>Connecting\<close>

record 's coins_tip =
  tip_view :: 's
  tip_hashBlock :: block_hash

definition AccessCoin :: "(COutPoint \<Rightarrow> coin option) \<Rightarrow> COutPoint \<Rightarrow> coin" where
  "AccessCoin get p = (case get p of None \<Rightarrow> null_coin | Some c \<Rightarrow> c)"

definition IsBIP30Repeat :: "nat \<Rightarrow> block_hash \<Rightarrow> bool" where
  "IsBIP30Repeat nHeight hash \<longleftrightarrow>
     (nHeight = 91842 \<and> hash = 0x00000000000a4d0a398161ffc163c503763b1f4360639393e0e4c8e300e0caec) \<or>
     (nHeight = 91880 \<and> hash = 0x00000000000743f190a18c5577a3c2d2a1f610ae9601ac046a38084ccb7cd721)"

text \<open>What the loop over the transactions reads but does not change.\<close>

record connect_context =
  cc_index :: block_map
  cc_pindex :: block_hash
  cc_nHeight :: nat
  cc_verify_sequence :: bool
  cc_script_checks :: bool

definition connect_fee ::
  "'s coins_ops \<Rightarrow> connect_context \<Rightarrow> transaction \<Rightarrow> int \<Rightarrow> 's \<Rightarrow> int outcome" where
  "connect_fee ops cc tx nFees s =
     (if IsCoinBase tx then Accepted nFees
      else case CheckTxInputs (v_get ops s) tx (int (cc_nHeight cc)) of
             Accepted txfee \<Rightarrow>
               (case int64_add nFees txfee of
                  None \<Rightarrow> Crash
                | Some nFees' \<Rightarrow>
                    if \<not> MoneyRange nFees' then Invalid ''bad-txns-accumulated-fee-outofrange''
                    else let prevheights = map (\<lambda>i. coin_nHeight (AccessCoin (v_get ops s) (prevout i))) (tx_vin tx) in
                         (case SequenceLocks (cc_index cc) tx (cc_verify_sequence cc) prevheights (cc_pindex cc) of
                            None \<Rightarrow> Crash
                          | Some ok \<Rightarrow> if \<not> ok then Invalid ''bad-txns-nonfinal'' else Accepted nFees'))
           | r \<Rightarrow> r)"

definition connect_scripts ::
  "block_env \<Rightarrow> 's coins_ops \<Rightarrow> connect_context \<Rightarrow> transaction \<Rightarrow> nat \<Rightarrow> 's \<Rightarrow> nat outcome" where
  "connect_scripts env ops cc tx nSigOpsCost s =
     (let view = map_option coin_out \<circ> v_get ops s;
          nSigOpsCost' = nSigOpsCost + env_sigops_cost env tx view
      in if MAX_BLOCK_SIGOPS_COST < nSigOpsCost' then Invalid ''bad-blk-sigops''
         else if \<not> IsCoinBase tx \<and> cc_script_checks cc
         then (case env_input_scripts env tx view of
                 None \<Rightarrow> Accepted nSigOpsCost'
               | Some reason \<Rightarrow> Invalid reason)
         else Accepted nSigOpsCost')"

fun connect_txs ::
  "block_env \<Rightarrow> 's coins_ops \<Rightarrow> connect_context \<Rightarrow> nat \<Rightarrow> transaction list \<Rightarrow> int \<Rightarrow> nat \<Rightarrow> 's \<Rightarrow>
     ('s \<times> int \<times> coin list list) outcome" where
  "connect_txs env ops cc i [] nFees nSigOpsCost s = Accepted (s, nFees, [])"
| "connect_txs env ops cc i (tx # txs) nFees nSigOpsCost s =
     (case connect_fee ops cc tx nFees s of
        Accepted nFees' \<Rightarrow>
          (case connect_scripts env ops cc tx nSigOpsCost s of
             Accepted nSigOpsCost' \<Rightarrow>
               (case UpdateCoins ops tx (cc_nHeight cc) s of
                  None \<Rightarrow> Crash
                | Some (s', txundo) \<Rightarrow>
                    (case connect_txs env ops cc (Suc i) txs nFees' nSigOpsCost' s' of
                       Accepted (s'', fees, undos) \<Rightarrow>
                         Accepted (s'', fees, if i = 0 then undos else txundo # undos)
                     | r \<Rightarrow> r))
           | Invalid reason \<Rightarrow> Invalid reason
           | Crash \<Rightarrow> Crash)
      | Invalid reason \<Rightarrow> Invalid reason
      | Crash \<Rightarrow> Crash)"

definition overwrites_coins :: "(COutPoint \<Rightarrow> coin option) \<Rightarrow> block \<Rightarrow> bool" where
  "overwrites_coins get block \<longleftrightarrow>
     list_ex (\<lambda>tx. list_ex (\<lambda>o'. get (COutPoint (tx_hash tx) o') \<noteq> None) [0..<length (tx_vout tx)]) (vtx block)"

abbreviation (input) BIP34_IMPLIES_BIP30_LIMIT :: nat where "BIP34_IMPLIES_BIP30_LIMIT \<equiv> 1983702"

text \<open>The rule against overwriting coins; \<open>None\<close> is the assertion that there is a predecessor.\<close>

definition enforce_BIP30 :: "consensus_params \<Rightarrow> block_map \<Rightarrow> block_hash \<Rightarrow> block_index \<Rightarrow> bool option" where
  "enforce_BIP30 params m p b =
     Option.bind (bi_pprev b) (\<lambda>q. map_option (\<lambda>pindexBIP34height.
       \<not> IsBIP30Repeat (bi_nHeight b) p \<and>
       (pindexBIP34height = None \<or> the pindexBIP34height \<noteq> BIP34Hash params) \<or>
       BIP34_IMPLIES_BIP30_LIMIT \<le> bi_nHeight b)
     (GetAncestor m q (BIP34Height params)))"

definition index_IsValid :: "nat \<Rightarrow> block_index \<Rightarrow> bool" where
  "index_IsValid nUpTo b \<longleftrightarrow> \<not> bi_nStatus b AND BLOCK_FAILED_MASK \<noteq> 0 \<and> nUpTo \<le> bi_nStatus b AND BLOCK_VALID_MASK"

abbreviation (input) BLOCK_VALID_SCRIPTS :: nat where "BLOCK_VALID_SCRIPTS \<equiv> 5"

definition mark_connected :: "block_hash \<Rightarrow> block_manager \<Rightarrow> block_manager" where
  "mark_connected p bm =
     (case m_block_index bm p of
        None \<Rightarrow> bm
      | Some b \<Rightarrow>
          if index_IsValid BLOCK_VALID_SCRIPTS b then bm
          else bm\<lparr>m_block_index := (m_block_index bm)(p \<mapsto> fst (RaiseValidity BLOCK_VALID_SCRIPTS b)),
                  m_dirty_blockindex := insert p (m_dirty_blockindex bm)\<rparr>)"

text \<open>The checks in front of the loop; \<open>None\<close> is the genesis block, whose transactions are skipped.\<close>

definition connect_block_checks ::
  "block_env \<Rightarrow> consensus_params \<Rightarrow> bool \<Rightarrow> bool \<Rightarrow> block \<Rightarrow> block_hash \<Rightarrow> block_map \<Rightarrow> block_hash \<Rightarrow>
     (COutPoint \<Rightarrow> coin option) \<Rightarrow> connect_context option outcome" where
  "connect_block_checks env params fScriptChecks fJustCheck block pindex m best get =
     (let block_hash = env_GetHash env (blk_header block) in
      case m pindex of
        None \<Rightarrow> Crash
      | Some b \<Rightarrow>
          if pindex \<noteq> block_hash then Crash
          else case CheckBlock env params (\<not> fJustCheck) (\<not> fJustCheck) block of
            Crash \<Rightarrow> Crash
          | Invalid reason \<Rightarrow>
              if reason = ''bad-txnmrklroot'' \<or> reason = ''bad-txns-duplicate'' then Crash else Invalid reason
          | Accepted _ \<Rightarrow>
              if (case bi_pprev b of None \<Rightarrow> 0 | Some q \<Rightarrow> q) \<noteq> best then Crash
              else if block_hash = hashGenesisBlock params then Accepted None
              else case enforce_BIP30 params m pindex b of
                None \<Rightarrow> Crash
              | Some fEnforceBIP30 \<Rightarrow>
                  if fEnforceBIP30 \<and> overwrites_coins get block then Invalid ''bad-txns-BIP30''
                  else Accepted (Some \<lparr>cc_index = m, cc_pindex = pindex, cc_nHeight = bi_nHeight b,
                         cc_verify_sequence = (CSVHeight params \<le> int (bi_nHeight b)),
                         cc_script_checks = fScriptChecks\<rparr>))"

text \<open>The loop and the reward.\<close>

definition connect_block_body ::
  "block_env \<Rightarrow> 's coins_ops \<Rightarrow> consensus_params \<Rightarrow> connect_context \<Rightarrow> block \<Rightarrow> 's \<Rightarrow> ('s \<times> coin list list) outcome" where
  "connect_block_body env ops params cc block s =
     (case connect_txs env ops cc 0 (vtx block) 0 0 s of
        Accepted (s', nFees, blockundo) \<Rightarrow>
          (case (int64_add nFees (GetBlockSubsidy (int (cc_nHeight cc)) params), GetValueOut (hd (vtx block))) of
             (Some blockReward, Accepted value_out) \<Rightarrow>
               if blockReward < value_out then Invalid ''bad-cb-amount'' else Accepted (s', blockundo)
           | _ \<Rightarrow> Crash)
      | Invalid reason \<Rightarrow> Invalid reason
      | Crash \<Rightarrow> Crash)"

definition ConnectBlock ::
  "block_env \<Rightarrow> 's coins_ops \<Rightarrow> consensus_params \<Rightarrow> bool \<Rightarrow> bool \<Rightarrow> block \<Rightarrow> block_hash \<Rightarrow>
     block_manager \<Rightarrow> 's coins_tip \<Rightarrow> (block_manager \<times> 's coins_tip \<times> coin list list) outcome" where
  "ConnectBlock env ops params fScriptChecks fJustCheck block pindex bm tip =
     (case connect_block_checks env params fScriptChecks fJustCheck block pindex (m_block_index bm)
             (tip_hashBlock tip) (v_get ops (tip_view tip)) of
        Crash \<Rightarrow> Crash
      | Invalid reason \<Rightarrow> Invalid reason
      | Accepted None \<Rightarrow> Accepted (bm, if fJustCheck then tip else tip\<lparr>tip_hashBlock := pindex\<rparr>, [])
      | Accepted (Some cc) \<Rightarrow>
          (case connect_block_body env ops params cc block (tip_view tip) of
             Crash \<Rightarrow> Crash
           | Invalid reason \<Rightarrow> Invalid reason
           | Accepted (s', blockundo) \<Rightarrow>
               if fJustCheck then Accepted (bm, tip\<lparr>tip_view := s'\<rparr>, blockundo)
               else Accepted (mark_connected pindex bm, \<lparr>tip_view = s', tip_hashBlock = pindex\<rparr>, blockundo)))"

section \<open>Disconnecting\<close>

text \<open>The transactions from the last to the first, each with its undo data, which the coinbase has not.\<close>

definition disconnect_tx ::
  "'s coins_ops \<Rightarrow> nat \<Rightarrow> bool \<Rightarrow> transaction \<Rightarrow> coin list option \<Rightarrow> 's \<times> bool \<Rightarrow> ('s \<times> bool) option outcome" where
  "disconnect_tx ops nHeight fEnforceBIP30 tx txundo sc =
     (let is_coinbase = IsCoinBase tx;
          sc' = spend_outputs ops (tx_hash tx) nHeight is_coinbase (is_coinbase \<and> \<not> fEnforceBIP30) 0 (tx_vout tx) sc
      in case txundo of
           None \<Rightarrow> Accepted (Some sc')
         | Some vprevout \<Rightarrow>
             if length vprevout \<noteq> length (tx_vin tx) then Accepted None
             else restore_inputs ops (rev (zip (tx_vin tx) vprevout)) sc')"

fun disconnect_txs ::
  "'s coins_ops \<Rightarrow> nat \<Rightarrow> bool \<Rightarrow> (transaction \<times> coin list option) list \<Rightarrow> 's \<times> bool \<Rightarrow> ('s \<times> bool) option outcome" where
  "disconnect_txs ops nHeight fEnforceBIP30 [] sc = Accepted (Some sc)"
| "disconnect_txs ops nHeight fEnforceBIP30 ((tx, txundo) # rest) sc =
     (case disconnect_tx ops nHeight fEnforceBIP30 tx txundo sc of
        Accepted (Some sc') \<Rightarrow> disconnect_txs ops nHeight fEnforceBIP30 rest sc'
      | r \<Rightarrow> r)"

definition IsBIP30Unspendable :: "nat \<Rightarrow> block_hash \<Rightarrow> bool" where
  "IsBIP30Unspendable nHeight hash \<longleftrightarrow>
     (nHeight = 91722 \<and> hash = 0x00000000000271a2dc26e7667f8419f2e15416dc6955e5a6c6cdf3f2574dd08e) \<or>
     (nHeight = 91812 \<and> hash = 0x00000000000af0aed4792b1acee3d966af36cf5def14935db8de83d6f9306f2f)"

text \<open>After a failure the view is in an indeterminate state, and none is returned.\<close>

definition DisconnectBlock ::
  "'s coins_ops \<Rightarrow> block_map \<Rightarrow> block \<Rightarrow> coin list list \<Rightarrow> block_hash \<Rightarrow> 's coins_tip \<Rightarrow>
     ('s coins_tip option \<times> disconnect_result) outcome" where
  "DisconnectBlock ops m block blockundo pindex tip =
     (case m pindex of
        None \<Rightarrow> Crash
      | Some b \<Rightarrow>
          if length blockundo + 1 \<noteq> length (vtx block) then Accepted (None, DISCONNECT_FAILED)
          else case disconnect_txs ops (bi_nHeight b) (\<not> IsBIP30Unspendable (bi_nHeight b) pindex)
                      (rev (zip (vtx block) (None # map Some blockundo))) (tip_view tip, True) of
                 Crash \<Rightarrow> Crash
               | Invalid reason \<Rightarrow> Invalid reason
               | Accepted None \<Rightarrow> Accepted (None, DISCONNECT_FAILED)
               | Accepted (Some (s', fClean)) \<Rightarrow>
                   (case bi_pprev b of
                      None \<Rightarrow> Crash
                    | Some q \<Rightarrow>
                        Accepted (Some \<lparr>tip_view = s', tip_hashBlock = q\<rparr>,
                                  if fClean then DISCONNECT_OK else DISCONNECT_UNCLEAN)))"

section \<open>Any view does what the plain map does\<close>

context coins_view
begin

lemma AccessCoin_view: "good s \<Longrightarrow> AccessCoin (v_get ops s) = AccessCoin (coins s)"
  by (simp add: get_coins)

lemma connect_fee_view: "good s \<Longrightarrow> connect_fee ops cc tx nFees s = connect_fee flat_ops cc tx nFees (coins s)"
  unfolding connect_fee_def by (simp only: get_coins flat_ops_simps cong: outcome.case_cong option.case_cong)

lemma connect_scripts_view:
  "good s \<Longrightarrow> connect_scripts env ops cc tx cost s = connect_scripts env flat_ops cc tx cost (coins s)"
  by (simp add: connect_scripts_def get_coins)

definition simulates :: "(coin_map \<times> 'a) outcome \<Rightarrow> ('s \<times> 'a) outcome \<Rightarrow> bool" where
  "simulates flat view =
     (case flat of
        Accepted (m, x) \<Rightarrow> \<exists>s. view = Accepted (s, x) \<and> good s \<and> coins s = m
      | Invalid reason \<Rightarrow> view = Invalid reason
      | Crash \<Rightarrow> True)"

lemma connect_txs_view:
  assumes "good s"
  shows "simulates (connect_txs env flat_ops cc i txs nFees cost (coins s)) (connect_txs env ops cc i txs nFees cost s)"
  using assms
proof (induction txs arbitrary: i nFees cost s)
  case (Cons tx txs)
  note eqs = connect_fee_view [OF Cons.prems] connect_scripts_view [OF Cons.prems]
  show ?case
  proof (cases "connect_fee flat_ops cc tx nFees (coins s)")
    case fee: (Accepted fees)
    show ?thesis
    proof (cases "connect_scripts env flat_ops cc tx cost (coins s)")
      case cost: (Accepted cost')
      show ?thesis
      proof (cases "UpdateCoins flat_ops tx (cc_nHeight cc) (coins s)")
        case (Some mu)
        obtain m txundo where mu: "mu = (m, txundo)"
          by force
        obtain s1 where s1: "UpdateCoins ops tx (cc_nHeight cc) s = Some (s1, txundo)" "good s1" "coins s1 = m"
          using UpdateCoins_refines [OF Cons.prems Some [unfolded mu]] by blast
        show ?thesis
          using Cons.IH [OF s1(2), of "Suc i" fees cost'] fee cost Some s1 mu
          by (auto simp: eqs simulates_def split: outcome.splits)
      qed (use fee cost in \<open>simp add: simulates_def\<close>)
    qed (use fee in \<open>simp_all add: eqs simulates_def\<close>)
  qed (simp_all add: eqs simulates_def)
qed (simp add: simulates_def)

lemma connect_block_body_view:
  assumes "good s"
  shows "simulates (connect_block_body env flat_ops params cc block (coins s)) (connect_block_body env ops params cc block s)"
  using connect_txs_view [OF assms, of env cc 0 "vtx block" 0 0]
  by (auto simp: simulates_def connect_block_body_def split: outcome.splits option.splits)

abbreviation flat_tip :: "'s coins_tip \<Rightarrow> coin_map coins_tip" where
  "flat_tip tip \<equiv> \<lparr>tip_view = coins (tip_view tip), tip_hashBlock = tip_hashBlock tip\<rparr>"

lemma ConnectBlock_view:
  assumes "good (tip_view tip)"
  shows "case ConnectBlock env flat_ops params fs fj block p bm (flat_tip tip) of
      Accepted (bm', t, undos) \<Rightarrow>
        \<exists>tip'. ConnectBlock env ops params fs fj block p bm tip = Accepted (bm', tip', undos) \<and>
          good (tip_view tip') \<and> flat_tip tip' = t
    | Invalid reason \<Rightarrow> ConnectBlock env ops params fs fj block p bm tip = Invalid reason
    | Crash \<Rightarrow> True"
proof -
  define checks where "checks = connect_block_checks env params fs fj block p (m_block_index bm)
    (tip_hashBlock tip) (coins (tip_view tip))"
  show ?thesis
  proof (cases checks)
    case (Accepted cc')
    then show ?thesis
    proof (cases cc')
      case (Some cc)
      then show ?thesis
        using Accepted connect_block_body_view [OF assms, of env params cc block]
        by (auto simp: ConnectBlock_def get_coins [OF assms] simulates_def checks_def split: outcome.splits)
    qed (use assms Accepted in \<open>simp add: ConnectBlock_def get_coins checks_def\<close>)
  qed (use assms in \<open>simp_all add: ConnectBlock_def get_coins checks_def\<close>)
qed

definition undoes :: "(coin_map \<times> bool) option outcome \<Rightarrow> ('s \<times> bool) option outcome \<Rightarrow> bool" where
  "undoes flat view =
     (case flat of
        Accepted (Some (m, x)) \<Rightarrow> \<exists>s. view = Accepted (Some (s, x)) \<and> good s \<and> coins s = m
      | Accepted None \<Rightarrow> view = Accepted None
      | Invalid reason \<Rightarrow> view = Invalid reason
      | Crash \<Rightarrow> True)"

lemma spend_outputs_view:
  assumes "good s" "\<forall>out \<in> set outs. MoneyRange (nValue out)"
    and "spend_outputs flat_ops txid h cb exc i outs (coins s, fClean) = (m, fClean')"
  shows "\<exists>s'. spend_outputs ops txid h cb exc i outs (s, fClean) = (s', fClean') \<and> good s' \<and> coins s' = m"
  using assms
proof (induction outs arbitrary: i s fClean)
  case (Cons out outs)
  let ?p = "COutPoint txid i"
  have out: "nValue out \<noteq> - 1"
    using Cons.prems(2) by (auto simp: MoneyRange_def)
  show ?case
  proof (cases "IsUnspendable (scriptPubKey out)")
    case True
    then show ?thesis
      using Cons by simp
  next
    case spendable: False
    show ?thesis
    proof (cases "flat_spend ?p (coins s)")
      case (Some mc)
      then obtain m1 c where mc: "flat_spend ?p (coins s) = Some (m1, c)"
        by (cases mc) simp
      obtain s1 where "v_spend ops ?p s = Some (s1, c)" "good s1" "coins s1 = m1"
        using spend_coins [OF Cons.prems(1) mc] by blast
      then show ?thesis
        using Cons.IH [of s1] Cons.prems spendable mc by simp
    next
      case None
      show ?thesis
      proof (cases "v_spend ops ?p s")
        case None' : None
        then show ?thesis
          using Cons.IH [of s] Cons.prems spendable None by simp
      next
        case (Some sc)
        then obtain s1 c where sc: "v_spend ops ?p s = Some (s1, c)"
          by (cases sc) simp
        have "good s1" "coins s1 = coins s" "coin_out c \<noteq> out"
          using spend_missing [OF Cons.prems(1) None sc] out by (auto simp: coin_IsSpent_def)
        then show ?thesis
          using Cons.IH [of s1] Cons.prems spendable None sc by simp
      qed
    qed
  qed
qed simp

lemma ApplyTxInUndo_view:
  assumes "good s" "ApplyTxInUndo flat_ops undo p (coins s) = Some (m, r)"
  shows "\<exists>s'. ApplyTxInUndo ops undo p s = Some (s', r) \<and> good s' \<and> coins s' = m"
proof -
  define c where "c = (if coin_nHeight undo = 0
    then map_option (\<lambda>a. undo\<lparr>coin_nHeight := coin_nHeight a, fCoinBase := fCoinBase a\<rparr>) (AccessByTxid (coins s) (op_hash p))
    else Some undo)"
  show ?thesis
  proof (cases c)
    case None
    then show ?thesis
      using assms unfolding ApplyTxInUndo_def Let_def get_coins [OF assms(1)] flat_ops_simps c_def [symmetric] by simp
  next
    case (Some d)
    then obtain m1 where "flat_add p d (\<not> coins s p = None) (coins s) = Some m1" "m1 = m"
      using assms(2) unfolding ApplyTxInUndo_def Let_def flat_ops_simps c_def [symmetric] by auto
    then show ?thesis
      using add_coins [OF assms(1)] Some assms(2)
      unfolding ApplyTxInUndo_def Let_def get_coins [OF assms(1)] flat_ops_simps c_def [symmetric] by fastforce
  qed
qed

lemma restore_inputs_view:
  assumes "good s"
  shows "undoes (restore_inputs flat_ops ps (coins s, fClean)) (restore_inputs ops ps (s, fClean))"
  using assms
proof (induction ps arbitrary: s fClean)
  case (Cons ic ps)
  obtain i c where ic: "ic = (i, c)"
    by force
  show ?case
  proof (cases "ApplyTxInUndo flat_ops c (prevout i) (coins s)")
    case (Some mr)
    obtain m r where mr: "mr = (m, r)"
      by force
    then obtain s1 where s1: "ApplyTxInUndo ops c (prevout i) s = Some (s1, r)" "good s1" "coins s1 = m"
      using ApplyTxInUndo_view [OF Cons.prems] Some by blast
    then show ?thesis
      using Cons.IH [OF s1(2), of "fClean \<and> r \<noteq> DISCONNECT_UNCLEAN"] Some mr ic by (simp add: undoes_def)
  qed (simp add: ic undoes_def)
qed (simp add: undoes_def)

lemma disconnect_tx_view:
  assumes "good s" "\<forall>out \<in> set (tx_vout tx). MoneyRange (nValue out)"
  shows "undoes (disconnect_tx flat_ops h e tx txundo (coins s, fClean)) (disconnect_tx ops h e tx txundo (s, fClean))"
proof -
  obtain m c where m: "spend_outputs flat_ops (tx_hash tx) h (IsCoinBase tx) (IsCoinBase tx \<and> \<not> e) 0 (tx_vout tx)
      (coins s, fClean) = (m, c)"
    by force
  obtain s1 where s1: "spend_outputs ops (tx_hash tx) h (IsCoinBase tx) (IsCoinBase tx \<and> \<not> e) 0 (tx_vout tx)
      (s, fClean) = (s1, c)" "good s1" "coins s1 = m"
    using spend_outputs_view [OF assms m] by blast
  have restored: "undoes (restore_inputs flat_ops ps (m, c)) (restore_inputs ops ps (s1, c))" for ps
    using restore_inputs_view [OF s1(2)] s1(3) by simp
  show ?thesis
    unfolding disconnect_tx_def Let_def m s1(1)
    by (cases txundo) (simp_all add: undoes_def [of "Accepted _"] s1(2,3) restored)
qed

lemma disconnect_txs_view:
  assumes "good s" "\<forall>(tx, u) \<in> set txs. \<forall>out \<in> set (tx_vout tx). MoneyRange (nValue out)"
  shows "undoes (disconnect_txs flat_ops h e txs (coins s, fClean)) (disconnect_txs ops h e txs (s, fClean))"
  using assms
proof (induction txs arbitrary: s fClean)
  case (Cons tu txs)
  obtain tx u where tu: "tu = (tx, u)"
    by force
  have one: "undoes (disconnect_tx flat_ops h e tx u (coins s, fClean)) (disconnect_tx ops h e tx u (s, fClean))"
    using Cons.prems tu by (intro disconnect_tx_view) auto
  show ?case
  proof (cases "disconnect_tx flat_ops h e tx u (coins s, fClean)")
    case (Accepted mc)
    then show ?thesis
    proof (cases mc)
      case (Some mc')
      obtain m c where m: "mc' = (m, c)"
        by force
      then obtain s1 where "disconnect_tx ops h e tx u (s, fClean) = Accepted (Some (s1, c))" "good s1" "coins s1 = m"
        using one Accepted Some by (auto simp: undoes_def)
      then show ?thesis
        using Cons.IH [of s1 c] Cons.prems Accepted Some m tu by simp
    qed (use one tu Accepted in \<open>simp add: undoes_def\<close>)
  qed (use one tu in \<open>simp_all add: undoes_def\<close>)
qed (simp add: undoes_def)

lemma DisconnectBlock_view:
  assumes "good (tip_view tip)" "\<forall>tx \<in> set (vtx block). \<forall>out \<in> set (tx_vout tx). MoneyRange (nValue out)"
    and "DisconnectBlock flat_ops m block undos p (flat_tip tip) = Accepted (Some t, r)"
  shows "\<exists>tip'. DisconnectBlock ops m block undos p tip = Accepted (Some tip', r) \<and> good (tip_view tip') \<and> flat_tip tip' = t"
proof -
  obtain b where b: "m p = Some b" "length undos + 1 = length (vtx block)"
    using assms(3) by (auto simp: DisconnectBlock_def split: option.splits if_splits)
  have "\<forall>(tx, u) \<in> set (rev (zip (vtx block) (None # map Some undos))). \<forall>out \<in> set (tx_vout tx). MoneyRange (nValue out)"
    using assms(2) by (auto dest: set_zip_leftD)
  from disconnect_txs_view [OF assms(1) this, of "bi_nHeight b" "\<not> IsBIP30Unspendable (bi_nHeight b) p" True]
  show ?thesis
    using assms(3) b by (auto simp: DisconnectBlock_def undoes_def split: outcome.splits option.splits)
qed

end

section \<open>What a connected block does to the plain map\<close>













section \<open>Properties\<close>














end
