(* ===== verification/Header_Chain.thy ===== *)
theory Header_Chain
  imports Proof_Of_Work
begin

text \<open>
  How headers enter the block index: \<open>AcceptBlockHeader\<close> and the loop of \<open>ProcessNewBlockHeaders\<close> of
  \<open>src/validation.cpp\<close>, which put together the checks of \<open>Proof_Of_Work\<close> and \<open>AddToBlockIndex\<close>. The
  genesis header is added by \<open>LoadGenesisBlock\<close> without checks. The results carry the new state, the
  verdict and the value of the out-parameter \<open>ppindex\<close>; \<open>None\<close> is a failed assertion. Every header of
  an index that is grown in this way has passed the checks, with respect to the chain it extends.
\<close>

section \<open>Operations\<close>

definition block_failed :: "block_index \<Rightarrow> bool" where
  "block_failed b \<longleftrightarrow> bi_nStatus b AND BLOCK_FAILED_MASK \<noteq> 0"

definition AcceptBlockHeader ::
  "(block_header \<Rightarrow> block_hash) \<Rightarrow> consensus_params \<Rightarrow> int \<Rightarrow> block_header \<Rightarrow> bool \<Rightarrow> block_manager \<Rightarrow>
     (block_manager \<times> header_result \<times> block_hash option) option" where
  "AcceptBlockHeader GetHash params now block min_pow_checked bm =
     (let hash = GetHash block;
          m = m_block_index bm;
          add = (if \<not> min_pow_checked then Some (bm, Header_Invalid ''too-little-chainwork'', None)
                 else map_option (\<lambda>(bm', pindex). (bm', Header_Valid, Some pindex))
                        (AddToBlockIndex GetHash block bm))
      in if hash \<noteq> hashGenesisBlock params
         then case m hash of
                Some b \<Rightarrow>
                  Some (bm, if block_failed b then Header_Invalid ''duplicate-invalid'' else Header_Valid, Some hash)
              | None \<Rightarrow>
                  (case CheckBlockHeader GetHash block params True of
                     Header_Valid \<Rightarrow>
                       (case m (hd_hashPrevBlock block) of
                          None \<Rightarrow> Some (bm, Header_Invalid ''prev-blk-not-found'', None)
                        | Some prev \<Rightarrow>
                            if block_failed prev then Some (bm, Header_Invalid ''bad-prevblk'', None)
                            else do {
                              r \<leftarrow> ContextualCheckBlockHeader m (hd_hashPrevBlock block) block params now;
                              if r = Header_Valid then add else Some (bm, r, None)
                            })
                   | r \<Rightarrow> Some (bm, r, None))
         else add)"

fun ProcessNewBlockHeaders ::
  "(block_header \<Rightarrow> block_hash) \<Rightarrow> consensus_params \<Rightarrow> int \<Rightarrow> bool \<Rightarrow> block_header list \<Rightarrow> block_hash option \<Rightarrow>
     block_manager \<Rightarrow> (block_manager \<times> header_result \<times> block_hash option) option" where
  "ProcessNewBlockHeaders GetHash params now min_pow_checked [] ppindex bm = Some (bm, Header_Valid, ppindex)"
| "ProcessNewBlockHeaders GetHash params now min_pow_checked (header # headers) ppindex bm = do {
     (bm', r, pindex) \<leftarrow> AcceptBlockHeader GetHash params now header min_pow_checked bm;
     if r \<noteq> Header_Valid then Some (bm', r, ppindex)
     else ProcessNewBlockHeaders GetHash params now min_pow_checked headers pindex bm'
   }"

text \<open>The genesis header of the main network.\<close>

definition main_genesis :: block_header where
  "main_genesis = \<lparr>hd_nVersion = 1, hd_hashPrevBlock = 0,
     hd_hashMerkleRoot = 0x0dc9b3e16f9d34e8d9d698dd1c73c6a1ac40640b96ec3774bfad535d393dff44,
     hd_nTime = 1765886400, hd_nBits = 0x1d00ffff, hd_nNonce = 3204028577\<rparr>"

text \<open>The managers that batches of headers lead to, from the genesis header on.\<close>

inductive headers_reachable ::
  "(block_header \<Rightarrow> block_hash) \<Rightarrow> consensus_params \<Rightarrow> block_header \<Rightarrow> block_manager \<Rightarrow> bool"
  for GetHash params genesis where
  headers_genesis: "AddToBlockIndex GetHash genesis empty_manager = Some (bm, h) \<Longrightarrow>
    headers_reachable GetHash params genesis bm"
| headers_process: "headers_reachable GetHash params genesis bm \<Longrightarrow>
    ProcessNewBlockHeaders GetHash params now min_pow_checked headers ppindex bm = Some (bm', r, pindex) \<Longrightarrow>
    headers_reachable GetHash params genesis bm'"

section \<open>The checks do not see later headers\<close>

lemma GetAncestor_known:
  assumes "index_wf m" "m p = Some b" "GetAncestor m p height = Some (Some q)"
  shows "m q \<noteq> None"
  using assms(3) prev_steps_total [OF assms(1,2), of "bi_nHeight b - nat height"]
  unfolding GetAncestor_steps [OF assms(1,2)] by (auto split: if_splits)

lemma ancestor_bind_extend:
  assumes "index_wf m" "m h = None" "m p = Some b"
  shows "GetAncestor (m(h \<mapsto> x)) p height \<bind> (\<lambda>a. a \<bind> (\<lambda>q. (m(h \<mapsto> x)) q \<bind> f)) =
    GetAncestor m p height \<bind> (\<lambda>a. a \<bind> (\<lambda>q. m q \<bind> f))"
proof -
  have "q \<noteq> h" if "GetAncestor m p height = Some (Some q)" for q
    using GetAncestor_known [OF assms(1,3) that] assms(2) by auto
  then show ?thesis
    unfolding GetAncestor_extend [OF assms] by (auto split: bind_splits)
qed

lemma CalculateNextWorkRequired_extend:
  assumes "index_wf m" "m h = None" "m p = Some b"
  shows "CalculateNextWorkRequired (m(h \<mapsto> x)) p t params = CalculateNextWorkRequired m p t params"
proof -
  have "(m(h \<mapsto> x)) p = m p"
    using assms by auto
  then show ?thesis
    unfolding CalculateNextWorkRequired_def by (simp only: ancestor_bind_extend [OF assms])
qed

lemma min_rule_loop_extend:
  assumes "index_wf m" "m h = None" "m p = Some b"
  shows "min_rule_loop (m(h \<mapsto> x)) i l p = min_rule_loop m i l p"
  using assms(3)
proof (induction "bi_nHeight b" arbitrary: p b rule: less_induct)
  case less
  have p: "(m(h \<mapsto> x)) p = Some b"
    using less.prems assms(2) by auto
  show ?case
  proof (cases "bi_pprev b")
    case None
    then show ?thesis
      using less.prems p by (simp add: min_rule_loop.simps [of _ _ _ p])
  next
    case (Some q)
    obtain c where c: "m q = Some c" "bi_nHeight b = Suc (bi_nHeight c)"
      by (rule index_wf_prev [OF assms(1) less.prems Some])
    then have "min_rule_loop (m(h \<mapsto> x)) i l q = min_rule_loop m i l q"
      using less.hyps [of c q] by simp
    then show ?thesis
      using less.prems p Some by (simp add: min_rule_loop.simps [of _ _ _ p])
  qed
qed

lemma GetNextWorkRequired_extend:
  assumes "index_wf m" "m h = None" "m p = Some b"
  shows "GetNextWorkRequired (m(h \<mapsto> x)) p block params = GetNextWorkRequired m p block params"
proof -
  have "(m(h \<mapsto> x)) p = m p"
    using assms by auto
  then show ?thesis
    unfolding GetNextWorkRequired_def
    by (simp only: ancestor_bind_extend [OF assms] CalculateNextWorkRequired_extend [OF assms]
        min_rule_loop_extend [OF assms])
qed

lemma GetMedianTimePast_extend:
  assumes "index_wf m" "m h = None" "m p = Some b"
  shows "GetMedianTimePast (m(h \<mapsto> x)) p = GetMedianTimePast m p"
  unfolding GetMedianTimePast_def last_times_extend [OF assms] ..

section \<open>Every header has passed the checks\<close>

definition header_valid ::
  "(block_header \<Rightarrow> block_hash) \<Rightarrow> consensus_params \<Rightarrow> block_map \<Rightarrow> block_hash \<Rightarrow> block_index \<Rightarrow> bool" where
  "header_valid GetHash params m p b =
     (case bi_pprev b of
        None \<Rightarrow> p = hashGenesisBlock params
      | Some q \<Rightarrow>
          GetHash (GetBlockHeader b) = p \<and>
          CheckProofOfWork False p (bi_nBits b) params \<and>
          GetNextWorkRequired m q (GetBlockHeader b) params = Some (bi_nBits b) \<and>
          GetMedianTimePast m q < bi_nTime b)"

definition headers_inv :: "(block_header \<Rightarrow> block_hash) \<Rightarrow> consensus_params \<Rightarrow> block_header \<Rightarrow> block_manager \<Rightarrow> bool" where
  "headers_inv GetHash params genesis bm \<longleftrightarrow>
     index_reachable GetHash bm \<and>
     (\<exists>g. m_block_index bm (hashGenesisBlock params) = Some g \<and> bi_nBits g = hd_nBits genesis \<and> bi_pprev g = None) \<and>
     (\<forall>p b. m_block_index bm p = Some b \<longrightarrow> header_valid GetHash params (m_block_index bm) p b)"

lemma headers_inv_wf: "headers_inv GetHash params genesis bm \<Longrightarrow> index_wf (m_block_index bm)"
  unfolding headers_inv_def using manager_wf_index index_reachable_wf by blast

lemma header_valid_extend:
  assumes "index_wf m" "m h = None" "m p = Some b" "header_valid GetHash params m p b"
  shows "header_valid GetHash params (m(h \<mapsto> x)) p b"
proof (cases "bi_pprev b")
  case (Some q)
  obtain c where c: "m q = Some c"
    by (rule index_wf_prev [OF assms(1,3) Some])
  show ?thesis
    using assms(4) Some unfolding header_valid_def
    by (simp only: option.case GetNextWorkRequired_extend [OF assms(1,2) c] GetMedianTimePast_extend [OF assms(1,2) c])
qed (use assms(4) in \<open>simp add: header_valid_def\<close>)

text \<open>A call either leaves the index alone or adds a header that passed all the checks.\<close>

lemma AcceptBlockHeader_cases:
  assumes "AcceptBlockHeader GetHash params now block mpc bm = Some (bm', r, p)"
    and "m_block_index bm (hashGenesisBlock params) \<noteq> None"
  shows "bm' = bm \<or>
    m_block_index bm (GetHash block) = None \<and> m_block_index bm (hd_hashPrevBlock block) \<noteq> None \<and>
    CheckProofOfWork False (GetHash block) (hd_nBits block) params \<and>
    ContextualCheckBlockHeader (m_block_index bm) (hd_hashPrevBlock block) block params now = Some Header_Valid \<and>
    AddToBlockIndex GetHash block bm = Some (bm', GetHash block)"
proof (cases "GetHash block = hashGenesisBlock params \<or> m_block_index bm (GetHash block) \<noteq> None")
  case True
  then obtain b where b: "m_block_index bm (GetHash block) = Some b"
    using assms(2) by auto
  from AddToBlockIndex_known [of bm GetHash block, OF b] show ?thesis
    using assms(1) b by (auto simp: AcceptBlockHeader_def Let_def split: if_splits)
next
  case False
  have "h = GetHash block" if "AddToBlockIndex GetHash block bm = Some (bm', h)" for h
    using that by (auto simp: AddToBlockIndex_def Let_def bind_eq_Some_conv split: if_splits)
  then show ?thesis
    using assms(1) False
    by (auto simp: AcceptBlockHeader_def Let_def CheckBlockHeader_def bind_eq_Some_conv
        split: if_splits option.splits)
qed

lemma AcceptBlockHeader_inv:
  assumes "headers_inv GetHash params genesis bm"
    and "AcceptBlockHeader GetHash params now block mpc bm = Some (bm', r, p)"
  shows "headers_inv GetHash params genesis bm'"
proof (cases "bm' = bm")
  case False
  let ?m = "m_block_index bm" and ?h = "GetHash block" and ?q = "hd_hashPrevBlock block"
  note inv = assms(1) [unfolded headers_inv_def]
  have new: "?m ?h = None" "?m ?q \<noteq> None" "CheckProofOfWork False ?h (hd_nBits block) params"
    "ContextualCheckBlockHeader ?m ?q block params now = Some Header_Valid"
    "AddToBlockIndex GetHash block bm = Some (bm', ?h)"
    using AcceptBlockHeader_cases [OF assms(2)] inv False by auto
  have qh: "?q \<noteq> ?h"
    using new(1,2) by auto
  note wf = headers_inv_wf [OF assms(1)]
  have "manager_wf bm"
    using inv index_reachable_wf by blast
  from AddToBlockIndex_new [of bm GetHash block, OF this new(1) qh]
  obtain b where b: "m_block_index bm' = ?m(?h \<mapsto> b)" "entry_of ?m block b"
    using new(5) by auto
  obtain c where c: "?m ?q = Some c"
    using new(2) by auto
  have e: "bi_pprev b = Some ?q" "GetBlockHeader b = block" "bi_nBits b = hd_nBits block" "bi_nTime b = hd_nTime block"
    using b(2) c by (simp_all add: entry_of_def GetBlockHeader_def)
  have "GetNextWorkRequired ?m ?q block params = Some (hd_nBits block)" "GetMedianTimePast ?m ?q < hd_nTime block"
    using new(4) by (auto simp: ContextualCheckBlockHeader_def bind_eq_Some_conv split: if_splits)
  then have "header_valid GetHash params (?m(?h \<mapsto> b)) ?h b"
    using new(3) e unfolding header_valid_def
    by (simp add: GetNextWorkRequired_extend [OF wf new(1) c] GetMedianTimePast_extend [OF wf new(1) c])
  moreover have "index_reachable GetHash bm'"
    using index_add [OF _ qh new(5)] inv by blast
  ultimately show ?thesis
    using inv header_valid_extend [OF wf new(1)] new(1) unfolding headers_inv_def b(1) by auto
qed (use assms in simp)

lemma ProcessNewBlockHeaders_inv:
  assumes "headers_inv GetHash params genesis bm"
    and "ProcessNewBlockHeaders GetHash params now mpc headers ppindex bm = Some (bm', r, p)"
  shows "headers_inv GetHash params genesis bm'"
  using assms
proof (induction headers arbitrary: ppindex bm)
  case (Cons header headers)
  then obtain bm1 r1 p1 where one: "AcceptBlockHeader GetHash params now header mpc bm = Some (bm1, r1, p1)"
    by (auto simp: bind_eq_Some_conv)
  have "headers_inv GetHash params genesis bm1"
    by (rule AcceptBlockHeader_inv [OF Cons.prems(1) one])
  then show ?case
    using Cons one by (auto split: if_splits)
qed simp

lemma headers_reachable_inv:
  assumes "headers_reachable GetHash params genesis bm"
    and "GetHash genesis = hashGenesisBlock params" "hd_hashPrevBlock genesis \<noteq> GetHash genesis"
  shows "headers_inv GetHash params genesis bm"
  using assms(1)
proof (induction rule: headers_reachable.induct)
  case (headers_genesis bm h)
  note empty = index_reachable_wf [OF index_empty]
  have none: "m_block_index empty_manager p = None" for p
    by (simp add: empty_manager_def)
  obtain g where "m_block_index bm = (m_block_index empty_manager)(hashGenesisBlock params \<mapsto> g)"
    "entry_of (m_block_index empty_manager) genesis g"
    using AddToBlockIndex_new [of empty_manager GetHash genesis, OF empty none assms(3)] headers_genesis assms(2) by auto
  then show ?case
    using index_add [OF index_empty assms(3) headers_genesis] none
    by (simp add: headers_inv_def entry_of_def header_valid_def)
next
  case (headers_process bm now mpc headers ppindex bm' r p)
  then show ?case
    by (rule_tac ProcessNewBlockHeaders_inv)
qed

section \<open>A new header is not marked as failed\<close>

lemma link_entry_status: "link_entry m h block = Some new \<Longrightarrow> bi_nStatus new = 0"
  by (auto simp: link_entry_def BuildSkip_def CBlockIndex_def Let_def split: option.splits)

lemma total_entry_status: "total_entry m new = Some new' \<Longrightarrow> bi_nStatus new = 0 \<Longrightarrow> \<not> block_failed new'"
  by (auto simp: total_entry_def RaiseValidity_def block_failed_def Let_def)

lemma new_header_not_failed:
  assumes "AddToBlockIndex GetHash block bm = Some (bm', h)" "m_block_index bm h = None" "m_block_index bm' h = Some b"
  shows "\<not> block_failed b"
  using assms link_entry_status total_entry_status
  by (fastforce simp: AddToBlockIndex_def Let_def bind_eq_Some_conv split: if_splits)

section \<open>Accepting a header never fails an assertion\<close>

lemma proof_of_work_bits: "CheckProofOfWork False hash nBits params \<Longrightarrow> DeriveTarget nBits (powLimit params) \<noteq> None"
  by (auto simp: CheckProofOfWork_def CheckProofOfWorkImpl_def split: option.splits)

lemma headers_inv_bits:
  assumes "headers_inv GetHash main_params genesis bm" "hd_nBits genesis = 0x1d00ffff" "m_block_index bm p = Some b"
  shows "valid_bits (powLimit main_params) (bi_nBits b)"
proof -
  have v: "header_valid GetHash main_params (m_block_index bm) p b"
    using assms(1,3) by (simp add: headers_inv_def)
  show ?thesis
  proof (cases "bi_pprev b")
    case None
    then have "bi_nBits b = 0x1d00ffff"
      using v assms by (auto simp: headers_inv_def header_valid_def)
    then show ?thesis
      using genesis_bits(1) by simp
  next
    case (Some q)
    then have "DeriveTarget (bi_nBits b) (powLimit main_params) \<noteq> None"
      using v by (auto simp: header_valid_def dest: proof_of_work_bits)
    then show ?thesis
      unfolding DeriveTarget_iff [OF main.limit] by (auto split: if_splits)
  qed
qed

lemma AcceptBlockHeader_total:
  assumes inv: "headers_inv GetHash main_params genesis bm" and bits: "hd_nBits genesis = 0x1d00ffff"
  shows "AcceptBlockHeader GetHash main_params now block mpc bm \<noteq> None"
proof (cases "GetHash block = hashGenesisBlock main_params \<or> m_block_index bm (GetHash block) \<noteq> None")
  case True
  then obtain b where b: "m_block_index bm (GetHash block) = Some b"
    using inv by (auto simp: headers_inv_def)
  from AddToBlockIndex_known [of bm GetHash block, OF b] show ?thesis
    using b by (simp add: AcceptBlockHeader_def Let_def)
next
  case False
  let ?q = "hd_hashPrevBlock block"
  show ?thesis
  proof (cases "m_block_index bm ?q")
    case None
    then show ?thesis
      using False by (simp add: AcceptBlockHeader_def Let_def CheckBlockHeader_def)
  next
    case (Some c)
    have "?q \<noteq> GetHash block" "manager_wf bm"
      using Some False inv index_reachable_wf by (auto simp: headers_inv_def)
    then have "AddToBlockIndex GetHash block bm \<noteq> None"
      using AddToBlockIndex_total [of bm block GetHash] by blast
    moreover obtain w where "GetNextWorkRequired (m_block_index bm) ?q block main_params = Some w"
      using main.next_work_permitted [OF headers_inv_wf [OF inv] Some headers_inv_bits [OF inv bits Some]] by auto
    ultimately show ?thesis
      using False Some by (simp add: AcceptBlockHeader_def Let_def CheckBlockHeader_def ContextualCheckBlockHeader_def)
  qed
qed

lemma ProcessNewBlockHeaders_total:
  assumes "headers_inv GetHash main_params genesis bm" "hd_nBits genesis = 0x1d00ffff"
  shows "ProcessNewBlockHeaders GetHash main_params now mpc headers ppindex bm \<noteq> None"
  using assms(1)
proof (induction headers arbitrary: ppindex bm)
  case (Cons header headers)
  obtain bm1 r1 p1 where one: "AcceptBlockHeader GetHash main_params now header mpc bm = Some (bm1, r1, p1)"
    using AcceptBlockHeader_total [OF Cons.prems assms(2), of now header mpc] by (cases "AcceptBlockHeader GetHash main_params now header mpc bm") auto
  then show ?case
    using Cons.IH [OF AcceptBlockHeader_inv [OF Cons.prems one]] by simp
qed simp

section \<open>Properties\<close>

text \<open>C4: On the main network every header of the block index is valid. Starting from the genesis header,
  whatever batches of headers \<open>ProcessNewBlockHeaders\<close> is given, at whatever times: no assertion fails;
  every entry other than the genesis block has a predecessor in the index, is stored under the hash of
  its header, carries exactly the difficulty that its predecessor requires of it, has the proof of work
  for that difficulty, and is later than the median time of the blocks before it.\<close>

theorem headers_enter_checked:
  assumes "headers_reachable GetHash main_params genesis bm" "GetHash genesis = hashGenesisBlock main_params"
    and "hd_hashPrevBlock genesis = 0" "hd_nBits genesis = 0x1d00ffff"
  shows "ProcessNewBlockHeaders GetHash main_params now min_pow_checked headers ppindex bm \<noteq> None \<and>
    (m_block_index bm p = Some b \<longrightarrow>
      (case bi_pprev b of
         None \<Rightarrow> p = hashGenesisBlock main_params
       | Some q \<Rightarrow>
           m_block_index bm q \<noteq> None \<and> GetHash (GetBlockHeader b) = p \<and>
           GetNextWorkRequired (m_block_index bm) q (GetBlockHeader b) main_params = Some (bi_nBits b) \<and>
           CheckProofOfWork False p (bi_nBits b) main_params \<and>
           GetMedianTimePast (m_block_index bm) q < bi_nTime b))"
proof -
  have "hd_hashPrevBlock genesis \<noteq> GetHash genesis"
    using assms(2,3) by (simp add: main_params_def)
  note inv = headers_reachable_inv [OF assms(1,2) this]
  have "m_block_index bm q \<noteq> None" if "m_block_index bm p = Some b" "bi_pprev b = Some q" for q
    by (rule index_wf_prev [OF headers_inv_wf [OF inv] that]) simp
  moreover have "m_block_index bm p = Some b \<longrightarrow> header_valid GetHash main_params (m_block_index bm) p b"
    using inv by (simp add: headers_inv_def)
  ultimately show ?thesis
    using ProcessNewBlockHeaders_total [OF inv assms(4)]
    by (auto simp: header_valid_def split: option.splits)
qed

definition example_hash :: "block_header \<Rightarrow> block_hash" where
  "example_hash b = (if b = main_genesis then hashGenesisBlock main_params else hd_nNonce b)"

definition first_header :: block_header where
  "first_header = \<lparr>hd_nVersion = 4, hd_hashPrevBlock = hashGenesisBlock main_params, hd_hashMerkleRoot = 0,
     hd_nTime = 1765887000, hd_nBits = 0x1d00ffff, hd_nNonce = 5\<rparr>"

lemma first_header_work: "CheckProofOfWork False 5 0x1d00ffff main_params"
proof -
  have v: "limb_value (compact_target 0x1d00ffff) = 0xffff * 2 ^ 208"
    by (subst compact_target_shift) simp_all
  show ?thesis
    unfolding CheckProofOfWork_def CheckProofOfWorkImpl_def DeriveTarget_iff [OF main.limit]
    using genesis_bits(1) by (simp add: CompareTo_pos limb_value_UintToArith256 v)
qed

lemma first_header_accepted:
  assumes "AddToBlockIndex example_hash main_genesis empty_manager = Some (bm, h)"
  obtains bm' b where "AcceptBlockHeader example_hash main_params 1765887000 first_header True bm = Some (bm', Header_Valid, Some 5)"
    "m_block_index bm' 5 = Some b" "bi_pprev b = Some (hashGenesisBlock main_params)" "GetBlockHeader b = first_header"
proof -
  let ?g = "hashGenesisBlock main_params"
  have h: "example_hash main_genesis = ?g" "hd_hashPrevBlock main_genesis \<noteq> ?g" "example_hash first_header = 5"
    "?g \<noteq> 5" "hd_hashPrevBlock first_header = ?g"
    by (simp_all add: example_hash_def main_genesis_def first_header_def main_params_def)
  have none: "m_block_index empty_manager p = None" for p
    by (simp add: empty_manager_def)
  obtain g where g: "m_block_index bm = [?g \<mapsto> g]" "entry_of Map.empty main_genesis g" "manager_wf bm"
    using AddToBlockIndex_new [of empty_manager example_hash main_genesis, OF index_reachable_wf [OF index_empty] none]
      assms h by (auto simp: empty_manager_def)
  have gf: "bi_pprev g = None" "bi_nTime g = 1765886400" "bi_nBits g = 0x1d00ffff"
    using g(2) by (simp_all add: entry_of_def main_genesis_def)
  have "bi_nHeight g = 0"
    using index_wf_root [OF manager_wf_index [OF g(3)], of ?g g] g(1) gf(1) by simp
  moreover have "last_times [?g \<mapsto> g] (Suc 10) (Some ?g) = [1765886400]"
    by (simp only: last_times.simps fun_upd_same option.case gf)
  ultimately have check: "ContextualCheckBlockHeader [?g \<mapsto> g] ?g first_header main_params 1765887000 = Some Header_Valid"
    using gf by (simp add: ContextualCheckBlockHeader_def GetNextWorkRequired_def GetMedianTimePast_def first_header_def)
  have ok: "\<not> block_failed g"
    using new_header_not_failed [OF assms none, of g] assms g(1) h(1)
    by (auto simp: AddToBlockIndex_def Let_def empty_manager_def bind_eq_Some_conv)
  obtain bm' b where add: "AddToBlockIndex example_hash first_header bm = Some (bm', 5)"
    "m_block_index bm' = [?g \<mapsto> g, 5 \<mapsto> b]" "entry_of [?g \<mapsto> g] first_header b"
    using AddToBlockIndex_new [of bm example_hash first_header, OF g(3)] g(1) h by auto
  have "AcceptBlockHeader example_hash main_params 1765887000 first_header True bm = Some (bm', Header_Valid, Some 5)"
    using add(1) check g(1) h first_header_work ok
    by (simp add: AcceptBlockHeader_def CheckBlockHeader_def first_header_def)
  then show thesis
    using that [of bm' b] add(2,3) by (simp add: entry_of_def GetBlockHeader_def first_header_def)
qed

theorem headers_enter_checked_witness:
  "\<exists>bm b. headers_reachable example_hash main_params main_genesis bm \<and> m_block_index bm 5 = Some b \<and>
     GetBlockHeader b = first_header \<and>
     GetNextWorkRequired (m_block_index bm) (hashGenesisBlock main_params) first_header main_params = Some (bi_nBits b) \<and>
     ProcessNewBlockHeaders example_hash main_params 1765887000 True [first_header] None bm \<noteq> None"
proof -
  have g: "example_hash main_genesis = hashGenesisBlock main_params" "hd_hashPrevBlock main_genesis = 0"
    "hd_nBits main_genesis = 0x1d00ffff"
    by (simp_all add: example_hash_def main_genesis_def)
  have "hd_hashPrevBlock main_genesis \<noteq> example_hash main_genesis"
    by (simp add: example_hash_def main_genesis_def main_params_def)
  from AddToBlockIndex_total [of empty_manager main_genesis example_hash, OF index_reachable_wf [OF index_empty] this]
  obtain bm where bm: "AddToBlockIndex example_hash main_genesis empty_manager = Some (bm, example_hash main_genesis)" .
  obtain bm' b where one: "AcceptBlockHeader example_hash main_params 1765887000 first_header True bm = Some (bm', Header_Valid, Some 5)"
    "m_block_index bm' 5 = Some b" "bi_pprev b = Some (hashGenesisBlock main_params)" "GetBlockHeader b = first_header"
    by (rule first_header_accepted [OF bm])
  have "ProcessNewBlockHeaders example_hash main_params 1765887000 True [first_header] None bm = Some (bm', Header_Valid, Some 5)"
    using one(1) by simp
  from headers_process [OF headers_genesis [OF bm] this]
  have reach: "headers_reachable example_hash main_params main_genesis bm'" .
  show ?thesis
    using headers_enter_checked [OF reach g, of 1765887000 True "[first_header]" None 5 b] one reach by auto
qed

end
