(* ===== verification/Supply.thy ===== *)
theory Supply
  imports Block_Connect Header_Chain
begin

text \<open>
  The coins of a node over its whole life: headers enter the index, blocks are connected and disconnected
  again, in any order, from the genesis block on. However the chain is reorganised, the value of all coins
  together stays within the subsidies of the blocks of the active chain, and a block that is disconnected
  gives back the coins from before it.
\<close>

section \<open>Histories\<close>


section \<open>The index under changes of the status\<close>






section \<open>The invariant\<close>

















section \<open>Properties\<close>









end
