(* ===== verification/Spec2Isabelle.thy ===== *)
theory Spec2Isabelle
  imports Interleaving Website_App Website_Scene Node_Link Chain_Active Supply
begin

text \<open>
  \<^bold>\<open>Verification of Hylium: the web stack and the consensus core of the node.\<close>

  \<^bold>\<open>The program.\<close> The repository holds a cryptocurrency node (C++, \<open>src/\<close>), a web backend
  (TypeScript, \<open>backend/src\<close>) and a website (React, \<open>website/src\<close>). The website calls the
  backend's HTTP interface through \<open>services/api.ts\<close>; the backend keeps users, newsletter
  subscriptions, contact messages and downloads in a database (\<open>backend/prisma/schema.prisma\<close>),
  issues JSON Web Tokens, and forwards a whitelist of JSON-RPC calls to the node. The node keeps an
  index of block headers, the chain of them it takes for the active one, and the coins that the
  transactions of that chain leave unspent. The development models the backend and the website as a
  whole and, of the node, the interface the backend talks to and the rules by which headers, blocks and
  coins change. Paths below are relative to the repository.

  \<^bold>\<open>Foundations.\<close>
  \<^item> \<open>Prelude\<close>: JavaScript values (\<open>jsval\<close>), truthiness, property access, what JSON keeps of a
    value (\<open>json_wire\<close>), string operations, and the notion of reachable states.
  \<^item> \<open>Http\<close>: requests, responses, and middlewares that end in \<open>next()\<close>, a response or
    \<open>next(error)\<close>. Every \<open>throw\<close>, rejected promise and early return is a branch of the models.
  \<^item> \<open>Store\<close>: the four models of the schema as records, their uniqueness constraints
    (\<open>tables_wf\<close>), the contract of the Prisma client as the locales \<open>prisma_client\<close> (calls may
    fail, but then leave the tables alone) and \<open>prisma_available\<close> (calls succeed when the
    constraints allow it), and an in-memory client that satisfies both (\<open>mem\<close>).

  \<^bold>\<open>The backend.\<close>
  \<^item> \<open>Config\<close> (\<open>config/index.ts\<close>): the configuration as a function of the environment, with
    \<open>parseInt\<close> at the precision of a double.
  \<^item> \<open>Validation\<close> (\<open>middleware/validate.ts\<close>) and \<open>Auth_Middleware\<close> (\<open>middleware/auth.ts\<close>): the
    schemas as terms with their meaning \<open>zod_accepts\<close>, and the three middlewares.
  \<^item> \<open>Environment\<close>: Prisma, Zod, bcryptjs and jsonwebtoken as a record of functions, with the
    documented behaviour the properties rely on as predicates (\<open>bcrypt_correct\<close>,
    \<open>jwt_faithful\<close>, \<open>jwt_lives\<close>, \<open>jwt_expires\<close>, \<open>jwt_compact\<close>, \<open>zod_conforms\<close>).
  \<^item> \<open>Auth_Routes\<close>, \<open>Content_Routes\<close>, \<open>Rpc_Route\<close>, \<open>Stats_Route\<close> (\<open>routes/*.ts\<close>): one
    \<open>_handler\<close> per handler and one \<open>_route\<close> for it behind its middlewares, with the database, the
    cache, the clock and the network passed explicitly. \<open>Auth_Routes\<close> has the locale \<open>backend\<close>
    that collects the contracts of the libraries.
  \<^item> \<open>App\<close> (\<open>index.ts\<close>): \<open>handle_request\<close> is the whole path of a request, from CORS and the
    rate limiters through the body parsers and the mounted routers to the 404 and the error handler.
    Express, cors and express-rate-limit are the record \<open>express\<close>. The locale
    \<open>request_relation\<close> lifts a relation between server states from the routes to any request.
  \<^item> \<open>Table_Spec\<close>: the abstract specification, the steps \<open>table_step\<close> the database may take.
  \<^item> \<open>Reference_Env\<close>: concrete libraries that satisfy all the contracts, so that no property
    rests on assumptions that cannot hold (\<open>ref\<close>, \<open>live\<close>), and the sample data of the witnesses.

  \<^bold>\<open>What is shown of the backend.\<close>
  \<^item> \<open>App_Safety\<close> and \<open>Api_Properties\<close>: every request refines at most one step of the
    specification; no sequence of requests creates an administrator or lets anyone else change the
    downloads; the invariant of the database holds in every reachable state; rejected, rate-limited
    and malformed requests change nothing.
  \<^item> \<open>Session_Life\<close>: the life of a session. Registration, login and reading one's own record fit
    together; a login or a refresh that succeeds was entitled to; refusals do not tell whether an
    address exists; access tokens end after fifteen minutes.
  \<^item> \<open>Content_Life\<close>: subscriptions are idempotent, published downloads are listed and deleted ones
    are gone, invalid bodies are inert, the proxy relays whitelisted calls as they are.
  \<^item> \<open>Stats_Route\<close>: how old an answer can be, how often the node is asked, and what an outage does.
  \<^item> \<open>Interleaving\<close>: registrations and subscriptions cut at every \<open>await\<close> and interleaved in any
    order (\<open>conc_step\<close>). The segments compose to the sequential routes, the invariant survives,
    and the race that ends in a 500 is exhibited.

  \<^bold>\<open>The website.\<close>
  \<^item> \<open>Website_Api\<close> (\<open>services/api.ts\<close>): the client; a call never rejects.
  \<^item> \<open>Website_Page\<close> and \<open>Website_App\<close> (\<open>App.tsx\<close>, \<open>main.tsx\<close>, the static components): the components as
    functions to trees of elements with their texts, links, identifiers, conditions and repetitions.
  \<^item> \<open>Website_Newsletter\<close>: the form as a state machine with requests in flight and running timers
    (\<open>ui_step\<close>); its invariant, and that the browser's events come to an end.
  \<^item> \<open>Website_Stats\<close>: polling and number formatting; what the backend serves renders.
  \<^item> \<open>Website_Scene\<close> (\<open>Scene.tsx\<close>, \<open>Scene3D.tsx\<close>, \<open>ParticlesBackground.tsx\<close>): the buffers of
    particles, the placement and material of the loaded model and the rotation per frame, over the real numbers.
  \<^item> \<open>Website_App\<close> also connects the client to \<open>handle_request\<close>: a valid address submitted in the
    form is in the table afterwards and the form says so; a refused one is not, and it says that.

  \<^bold>\<open>The interface of the node.\<close>
  \<^item> \<open>Convert_Bits\<close> (\<open>src/util/strencodings.h\<close>): the base conversion, its two loops proved
    against the numbers that digit sequences denote.
  \<^item> \<open>Base64\<close> (\<open>src/util/strencodings.cpp\<close>): encoder and decoder, the contract \<open>codec\<close> they
    fulfil (\<open>b64\<close>), and their agreement with the encoder of the backend's platform.
  \<^item> \<open>Node_Rpc\<close> (\<open>src/httprpc.cpp\<close>, \<open>src/rpc/request.cpp\<close>, \<open>src/rpc/server.cpp\<close>): basic
    authentication and its setup, request parsing, dispatch, single requests and batches.
  \<^item> \<open>Node_Link\<close>: backend and node together. The credentials arrive as they were configured, calls
    run and their outcomes come back, nothing outside the whitelist can be reached; a batch is its
    requests one by one.

  \<^bold>\<open>The consensus core of the node.\<close> From the arithmetic up; each theory uses the ones before it.
  \<^item> \<open>Bit_Arith\<close>, \<open>Arith_Uint256\<close> (\<open>src/arith_uint256.h\<close>, \<open>.cpp\<close>): 256-bit numbers as eight limbs of
    32 bits, the operations that targets and work need proved against the number that the limbs denote;
    the division is exact. \<open>Compact_Target\<close>: the compact form of a target; writing and reading it rounds down.
  \<^item> \<open>Chain_Index\<close> (\<open>src/chain.cpp\<close>, \<open>src/node/blockstorage.cpp\<close>): the index as a map from hashes to
    entries, with skip pointers and accumulated work. Growing it keeps it well-formed (\<open>index_wf\<close>), and
    on it the skip pointers lead where the predecessors lead. \<open>Chain_Active\<close>: the vector of the
    active chain; \<open>SetTip\<close>, \<open>FindFork\<close>, \<open>LastCommonAncestor\<close> and \<open>FindEarliestAtLeast\<close> do what
    walks over the whole chain would.
  \<^item> \<open>Consensus_Params\<close> (\<open>src/kernel/chainparams.cpp\<close>) and \<open>Proof_Of_Work\<close> (\<open>src/pow.cpp\<close>, the header
    checks of \<open>src/validation.cpp\<close>): targets, retargeting and the median time. The locale \<open>retargeting\<close>
    holds what one adjustment does when no product overflows; the main network is its interpretation
    \<open>main\<close>, and that a product does overflow on the test network is a theorem. \<open>Header_Chain\<close>:
    \<open>AcceptBlockHeader\<close> and batches of headers; every header of the index has passed the checks.
  \<^item> \<open>Transactions\<close> (\<open>src/consensus/tx_check.cpp\<close>, \<open>amount.h\<close>): amounts with the overflow of
    \<open>int64_t\<close>, the context-free checks, the subsidy and its sum. \<open>Locktime\<close>
    (\<open>src/consensus/tx_verify.cpp\<close>): absolute and relative lock times.
  \<^item> \<open>Coins\<close> (\<open>src/coins.h\<close>, \<open>UpdateCoins\<close> and \<open>ApplyTxInUndo\<close> of \<open>src/validation.cpp\<close>): what a
    transaction does to the coins, over the operations of a view; \<open>flat_ops\<close>, a plain map, is the
    specification. \<open>Coins_Cache\<close> (\<open>src/coins.cpp\<close>): the layered cache with the flags \<open>DIRTY\<close> and
    \<open>FRESH\<close>. The locale \<open>coins_view\<close> is the contract of a view, \<open>flat\<close> and \<open>cache\<close> are its
    interpretations; what is proved in it holds of both.
  \<^item> \<open>Merkle\<close> (\<open>src/consensus/merkle.cpp\<close>): the root commits to the list. \<open>Blocks\<close>: \<open>CheckBlock\<close>,
    \<open>ContextualCheckBlock\<close>, witness commitments and the height in the coinbase. \<open>Block_Connect\<close>:
    \<open>ConnectBlock\<close> and \<open>DisconnectBlock\<close>; the cache does what the plain map does, and disconnecting
    restores the coins. \<open>Supply\<close>: whole histories of a node (\<open>coins_history\<close>); there are never
    more coins than the active chain was granted.

  \<^bold>\<open>Choices.\<close> Strings are lists of code points below U+0100 in JavaScript and of bytes in C++.
  Numbers are exact rationals with the infinities and NaN; where rounding to doubles shows
  (\<open>parseInt\<close>, \<open>Math.round\<close>, \<open>toFixed\<close>) it is written out. Loops are recursive functions with
  termination proofs; nothing uses fuel. The loops of the node that follow pointers are partial
  functions into \<open>option\<close>, and lemmas show that they return on every well-formed index. In the models of the node \<open>None\<close>
  and \<open>Crash\<close> stand for failed assertions, exceptions and signed overflow, which the theorems exclude
  where they say so. Heights are natural numbers; where the width of an \<open>int\<close> matters it is a
  hypothesis. The accumulator of \<open>ConvertBits\<close> is a natural number: its
  mask keeps it below \<open>2^13\<close> at the widths of base64, far from the width of \<open>size_t\<close>. A request to
  the backend is one atomic step in \<open>App\<close>, which is accurate for handlers with at most one
  database access between their decision and their response; the two handlers for which it is not
  are the subject of \<open>Interleaving\<close>.

  \<^bold>\<open>Not modelled.\<close> Response headers (helmet, CORS headers, \<open>WWW-Authenticate\<close>), logging and
  \<open>app.listen\<close> are input and output with no state of the program. Styles and the attributes of lights
  and cameras are presentation. \<open>backend/dist\<close> is compiled from \<open>backend/src\<close>; the build
  configurations of the website are read by third-party tools. Behind the JSON-RPC interface the
  commands, the conversion of named to positional arguments, HMAC-SHA256, the cookie file, the JSON text
  parser and the event-driven HTTP server are arguments of the model. In the block rules SHA-256, the
  sizes of serialised data, the count of signature operations and the outcome of the script interpreter
  are the fields of \<open>block_env\<close>; scripts are checked in sequence, and whether a block is below the
  assumed valid one is an argument. The product of two 256-bit numbers, the bitwise operators, block
  locators and the time equivalent to an amount of work are not needed by these rules. Files, the database under the cache, memory accounting, the choice
  between competing chains, version bits, the memory pool, the peer-to-peer network, the wallet and the
  graphical interface, several hundred thousand lines of C++, are left out.
\<close>

end
